(* ===== verification/Prelude.thy ===== *)
theory Prelude
  imports Main "HOL-Library.Word" "HOL-Library.Multiset" "HOL-Library.Sublist"
begin

text \<open>
  Shared vocabulary of the development: the machine types of the Go program, its
  error values, the string functions of the standard library it uses, and the generic
  lemmas and collections the component theories build on.

  A Go \<open>string\<close> or \<open>[]byte\<close> is a list of bytes (HOL's \<open>string\<close>), an \<open>int64\<close> is a
  64-bit word read with \<open>sint\<close> (so that \<open>+\<close> wraps as in Go), and a \<open>float64\<close> is its
  IEEE 754 bit pattern: the program stores and copies gauges and never computes with
  them.
\<close>

section \<open>Machine types\<close>

type_synonym bytes = string
type_synonym int64 = "64 word"
type_synonym float64 = "64 word"

text \<open>Facts about one-step effects on the two metric maps.\<close>
named_theorems store_simps

text \<open>Unfolding rules of the operations of a repository.\<close>
named_theorems repo_defs

text \<open>Exponent bits of a binary64 all set: an infinity or a NaN.\<close>
definition is_finite_float :: "float64 \<Rightarrow> bool" where
  "is_finite_float x \<longleftrightarrow> take_bit 11 (drop_bit 52 x) \<noteq> (2047 :: 64 word)"

section \<open>Errors\<close>

text \<open>
  An \<open>error\<close> value of Go: the sentinel errors the code compares with \<open>errors.Is\<close>, the
  typed errors it extracts with \<open>errors.As\<close>, and the wrapping of \<open>fmt.Errorf\<close> with a
  \<open>%w\<close> verb and of \<open>errors.Join\<close>. Functions that return a value and an error return
  a sum: \<open>Inl\<close> the error, \<open>Inr\<close> the value with a nil error.
\<close>

datatype go_error =
    ErrCounterNotFound
  | ErrGaugeNotFound
  | ErrNoRows
  | ErrCanceled
  | ErrDeadlineExceeded
  | NetError string
  | PgError string
  | ErrText string
  | ErrWrap string go_error
  | ErrJoin "go_error list"

type_synonym 'a result = "go_error + 'a"

text \<open>\<open>errors.Is\<close> and \<open>errors.As\<close> walk the wrapping tree.\<close>

fun errors_is :: "go_error \<Rightarrow> go_error \<Rightarrow> bool" where
  "errors_is (ErrWrap m e) t = (ErrWrap m e = t \<or> errors_is e t)"
| "errors_is (ErrJoin es) t = (ErrJoin es = t \<or> list_ex (\<lambda>e. errors_is e t) es)"
| "errors_is e t = (e = t)"

fun errors_as_pg :: "go_error \<Rightarrow> string option" where
  "errors_as_pg (PgError c) = Some c"
| "errors_as_pg (ErrWrap m e) = errors_as_pg e"
| "errors_as_pg (ErrJoin es) =
     (case concat (map (\<lambda>e. case errors_as_pg e of None \<Rightarrow> [] | Some c \<Rightarrow> [c]) es) of
        [] \<Rightarrow> None | c # _ \<Rightarrow> Some c)"
| "errors_as_pg _ = None"

fun errors_as_net :: "go_error \<Rightarrow> bool" where
  "errors_as_net (NetError m) = True"
| "errors_as_net ErrDeadlineExceeded = True"
| "errors_as_net (ErrWrap m e) = errors_as_net e"
| "errors_as_net (ErrJoin es) = list_ex errors_as_net es"
| "errors_as_net _ = False"

text \<open>Wrapping an error leaves a value alone.\<close>

definition wrap_err :: "string \<Rightarrow> 'a result \<Rightarrow> 'a result" where
  "wrap_err m r = (case r of Inl e \<Rightarrow> Inl (ErrWrap m e) | Inr x \<Rightarrow> Inr x)"

lemma wrap_err_simps [simp]:
  "wrap_err m (Inl e) = Inl (ErrWrap m e)"
  "wrap_err m (Inr x) = Inr x"
  by (simp_all add: wrap_err_def)

lemma wrap_err_Inr_iff [simp]: "wrap_err m r = Inr x \<longleftrightarrow> r = Inr x"
  by (cases r) simp_all

text \<open>Going on after a call that may fail, and doing so for every element of a list.\<close>

definition rbind :: "'a result \<Rightarrow> ('a \<Rightarrow> 'b result) \<Rightarrow> 'b result" where
  "rbind r f = (case r of Inl e \<Rightarrow> Inl e | Inr x \<Rightarrow> f x)"

lemma rbind_simps [simp]:
  "rbind (Inl e) f = Inl e"
  "rbind (Inr x) f = f x"
  by (simp_all add: rbind_def)

lemma rbind_assoc: "rbind (rbind r f) g = rbind r (\<lambda>x. rbind (f x) g)"
  by (cases r) simp_all

lemma rbind_Inr_iff: "rbind r f = Inr y \<longleftrightarrow> (\<exists>x. r = Inr x \<and> f x = Inr y)"
  by (cases r) simp_all

fun map_result :: "('a \<Rightarrow> 'b result) \<Rightarrow> 'a list \<Rightarrow> 'b list result" where
  "map_result f [] = Inr []"
| "map_result f (x # xs) = rbind (f x) (\<lambda>y. rbind (map_result f xs) (\<lambda>ys. Inr (y # ys)))"

lemma map_result_Inr: "(\<And>x. x \<in> set xs \<Longrightarrow> f x = Inr (g x)) \<Longrightarrow> map_result f xs = Inr (map g xs)"
  by (induction xs) auto

lemma map_result_Inl:
  "x \<in> set xs \<Longrightarrow> f x = Inl e \<Longrightarrow> \<exists>e'. map_result f xs = Inl e'"
proof (induction xs)
  case (Cons y ys)
  then show ?case by (cases "f y") auto
qed simp

lemma map_result_all:
  "map_result f xs = Inr ys \<Longrightarrow> list_all2 (\<lambda>x y. f x = Inr y) xs ys"
  by (induction xs arbitrary: ys) (auto simp: rbind_Inr_iff)

section \<open>Maps\<close>

text \<open>Reading a missing key of a Go map gives the zero value.\<close>

definition go_index :: "('k \<rightharpoonup> 'v :: zero) \<Rightarrow> 'k \<Rightarrow> 'v" where
  "go_index m k = (case m k of None \<Rightarrow> 0 | Some v \<Rightarrow> v)"

lemma go_index_empty [simp]: "go_index Map.empty k = 0"
  by (simp add: go_index_def)

lemma go_index_upd [simp]: "go_index (m(k \<mapsto> v)) j = (if j = k then v else go_index m j)"
  by (simp add: go_index_def)

text \<open>
  \<open>range\<close> over a Go map visits every key once in an unspecified order: the order is an
  explicit argument, and results are proved for every order that enumerates the keys.
\<close>

definition map_order :: "('k \<rightharpoonup> 'v) \<Rightarrow> 'k list \<Rightarrow> bool" where
  "map_order m ks \<longleftrightarrow> distinct ks \<and> set ks = dom m"

definition map_range :: "'k list \<Rightarrow> ('k \<rightharpoonup> 'v) \<Rightarrow> ('k \<times> 'v) list" where
  "map_range ks m = concat (map (\<lambda>k. case m k of None \<Rightarrow> [] | Some v \<Rightarrow> [(k, v)]) ks)"

lemma map_range_Nil [simp]: "map_range [] m = []"
  by (simp add: map_range_def)

lemma map_range_Cons [simp]:
  "map_range (k # ks) m = (case m k of None \<Rightarrow> [] | Some v \<Rightarrow> [(k, v)]) @ map_range ks m"
  by (simp add: map_range_def)

lemma map_range_in: "(k, v) \<in> set (map_range ks m) \<longleftrightarrow> k \<in> set ks \<and> m k = Some v"
  by (auto simp: map_range_def split: option.splits)

lemma map_range_keys: "set ks \<subseteq> dom m \<Longrightarrow> map fst (map_range ks m) = ks"
  by (induction ks) auto

lemma fold_upd_distinct:
  "distinct (map fst xs) \<Longrightarrow>
   fold (\<lambda>(k, v) r. r(k \<mapsto> v)) xs r0 = r0 ++ map_of xs"
proof (induction xs arbitrary: r0)
  case Nil
  then show ?case by simp
next
  case (Cons x xs)
  obtain k v where x: "x = (k, v)" by force
  from Cons.prems x have k: "map_of xs k = None"
    by (simp add: map_of_eq_None_iff)
  show ?case
    using Cons k x by (auto simp: fun_eq_iff map_add_def split: option.splits)
qed

lemma map_of_map_range:
  "map_order m ks \<Longrightarrow> map_of (map_range ks m) = m"
proof (rule ext)
  fix k
  assume ord: "map_order m ks"
  then have keys: "map fst (map_range ks m) = ks" and dist: "distinct ks"
    by (auto simp: map_order_def map_range_keys)
  show "map_of (map_range ks m) k = m k"
  proof (cases "m k")
    case None
    with ord have "k \<notin> set ks" by (auto simp: map_order_def)
    then have "map_of (map_range ks m) k = None"
      using keys by (simp add: map_of_eq_None_iff flip: set_map)
    with None show ?thesis by simp
  next
    case (Some v)
    with ord have "(k, v) \<in> set (map_range ks m)"
      by (auto simp: map_range_in map_order_def)
    with keys dist Some show ?thesis by simp
  qed
qed

lemma fold_upd_map_range:
  assumes "map_order m ks"
  shows "fold (\<lambda>(k, v) r. r(k \<mapsto> v)) (map_range ks m) Map.empty = m"
proof -
  have "distinct (map fst (map_range ks m))"
    using assms by (simp add: map_order_def map_range_keys)
  then show ?thesis
    using assms by (simp add: fold_upd_distinct map_of_map_range)
qed

section \<open>Multisets of flattened lists\<close>

lemma mset_concat_map:
  assumes "mset us = mset vs"
  shows "mset (concat (map f us)) = mset (concat (map f vs))"
proof -
  have "mset (concat (map f zs)) = (\<Sum>z\<in>#mset zs. mset (f z))" for zs
    by (induction zs) simp_all
  then show ?thesis using assms by simp
qed

section \<open>Strings\<close>

text \<open>\<open>strings.HasPrefix\<close>, \<open>strings.Contains\<close>, \<open>strings.TrimSpace\<close> on ASCII white space.\<close>

definition has_prefix :: "string \<Rightarrow> string \<Rightarrow> bool" where
  "has_prefix s p \<longleftrightarrow> take (length p) s = p"

definition has_suffix :: "string \<Rightarrow> string \<Rightarrow> bool" where
  "has_suffix s p \<longleftrightarrow> has_prefix (rev s) (rev p)"

fun str_contains :: "string \<Rightarrow> string \<Rightarrow> bool" where
  "str_contains [] sub = (sub = [])"
| "str_contains (c # s) sub = (has_prefix (c # s) sub \<or> str_contains s sub)"

definition is_space :: "char \<Rightarrow> bool" where
  "is_space c \<longleftrightarrow> c \<in> {CHR '' '', CHR 0x09, CHR 0x0A, CHR 0x0B, CHR 0x0C, CHR 0x0D}"

definition trim_space :: "string \<Rightarrow> string" where
  "trim_space s = rev (dropWhile is_space (rev (dropWhile is_space s)))"

text \<open>\<open>strings.Split\<close> at a one-byte separator.\<close>

fun split_on :: "char \<Rightarrow> string \<Rightarrow> string list" where
  "split_on sep [] = [[]]"
| "split_on sep (c # s) =
     (if c = sep then [] # split_on sep s
      else case split_on sep s of [] \<Rightarrow> [[c]] | w # ws \<Rightarrow> (c # w) # ws)"

lemma has_prefix_append [simp]: "has_prefix (p @ s) p"
  by (simp add: has_prefix_def)

lemma has_prefix_iff: "has_prefix s p \<longleftrightarrow> (\<exists>t. s = p @ t)"
  by (auto simp: has_prefix_def) (metis append_take_drop_id)

lemma str_contains_self: "str_contains s s"
  by (cases s) (simp_all add: has_prefix_def)

lemma str_contains_iff: "str_contains s sub \<longleftrightarrow> (\<exists>u v. s = u @ sub @ v)"
proof (induction s)
  case Nil
  then show ?case by simp
next
  case (Cons c s)
  show ?case
    by (auto simp: Cons.IH has_prefix_iff) (metis append_Cons append_Nil append_eq_Cons_conv)+
qed

text \<open>ASCII case folding, and the header tables of \<open>net/http\<close>, whose keys are case-insensitive.\<close>

definition lower_char :: "char \<Rightarrow> char" where
  "lower_char c =
     (let n = (of_char c :: nat) in if 65 \<le> n \<and> n \<le> 90 then char_of (n + 32) else c)"

definition lower :: "string \<Rightarrow> string" where
  "lower s = map lower_char s"

end
