(* ===== verification/Strconv.thy ===== *)
theory Strconv
  imports Prelude
begin

text \<open>
  The conversions of \<open>strconv\<close> and \<open>encoding/hex\<close> the handlers, the configuration and
  the request signature use: decimal \<open>int64\<close> text in both directions and hexadecimal
  bytes, with their round trips.
\<close>

section \<open>Decimal digits\<close>

definition digit_char :: "nat \<Rightarrow> char" where
  "digit_char d = char_of (48 + d)"

definition is_digit :: "char \<Rightarrow> bool" where
  "is_digit c \<longleftrightarrow> 48 \<le> (of_char c :: nat) \<and> (of_char c :: nat) \<le> 57"

definition digit_val :: "char \<Rightarrow> nat" where
  "digit_val c = of_char c - 48"

lemma digit_char_simps [simp]:
  "d < 10 \<Longrightarrow> is_digit (digit_char d)"
  "d < 10 \<Longrightarrow> digit_val (digit_char d) = d"
  by (simp_all add: digit_char_def is_digit_def digit_val_def)

fun show_nat :: "nat \<Rightarrow> string" where
  "show_nat n = (if n < 10 then [digit_char n] else show_nat (n div 10) @ [digit_char (n mod 10)])"

declare show_nat.simps [simp del]

text \<open>The digit loop of \<open>ParseUint\<close> in base 10 and 64 bits: syntax before range, digit by digit.\<close>

fun parse_digits :: "nat \<Rightarrow> string \<Rightarrow> nat result" where
  "parse_digits n [] = Inr n"
| "parse_digits n (c # s) =
     (if \<not> is_digit c then Inl (ErrText ''invalid syntax'')
      else if 2 ^ 64 \<le> 10 * n + digit_val c then Inl (ErrText ''value out of range'')
      else parse_digits (10 * n + digit_val c) s)"

lemma parse_digits_append:
  "parse_digits n (s @ t) = (case parse_digits n s of Inl e \<Rightarrow> Inl e | Inr m \<Rightarrow> parse_digits m t)"
  by (induction n s rule: parse_digits.induct) auto

lemma show_nat_ne [simp]: "show_nat n \<noteq> []"
  by (subst show_nat.simps) simp

lemma parse_digits_show_nat: "n < 2 ^ 64 \<Longrightarrow> parse_digits 0 (show_nat n) = Inr n"
proof (induction n rule: show_nat.induct)
  case (1 n)
  show ?case
  proof (cases "n < 10")
    case True
    then show ?thesis by (subst show_nat.simps) simp
  next
    case False
    with 1 have ih: "parse_digits 0 (show_nat (n div 10)) = Inr (n div 10)" by simp
    have split: "10 * (n div 10) + n mod 10 = n" by simp
    have "show_nat n = show_nat (n div 10) @ [digit_char (n mod 10)]"
      using False by (subst show_nat.simps) simp
    then show ?thesis using ih 1(2) split by (simp add: parse_digits_append)
  qed
qed

lemma show_nat_digits: "\<forall>c \<in> set (show_nat n). is_digit c"
proof (induction n rule: show_nat.induct)
  case (1 n)
  then show ?case by (subst show_nat.simps) auto
qed

lemma hd_show_nat_digit: "is_digit (hd (show_nat n))"
  using show_nat_digits [of n] by (cases "show_nat n") auto

lemma parse_digits_bound:
  "parse_digits n s = Inr m \<Longrightarrow> n < 2 ^ 64 \<Longrightarrow> m < 2 ^ 64"
  by (induction n s rule: parse_digits.induct) (auto split: if_splits)

section \<open>Signed 64-bit integers\<close>

text \<open>\<open>strconv.FormatInt(v, 10)\<close>.\<close>

definition format_int :: "int64 \<Rightarrow> string" where
  "format_int v =
     (if sint v < 0 then CHR ''-'' # show_nat (nat (- sint v)) else show_nat (nat (sint v)))"

text \<open>\<open>strconv.ParseInt(s, 10, 64)\<close>: one optional sign, then at least one digit.\<close>

definition parse_uint :: "string \<Rightarrow> nat result" where
  "parse_uint s = (if s = [] then Inl (ErrText ''invalid syntax'') else parse_digits 0 s)"

definition parse_int :: "string \<Rightarrow> int64 result" where
  "parse_int s =
     (case s of [] \<Rightarrow> Inl (ErrText ''invalid syntax'')
      | c # t \<Rightarrow>
          (let neg = (c = CHR ''-'');
               body = (if c = CHR ''+'' \<or> c = CHR ''-'' then t else s)
           in case parse_uint body of
                Inl e \<Rightarrow> Inl e
              | Inr un \<Rightarrow>
                  if \<not> neg \<and> 2 ^ 63 \<le> un then Inl (ErrText ''value out of range'')
                  else if neg \<and> 2 ^ 63 < un then Inl (ErrText ''value out of range'')
                  else Inr (if neg then - of_nat un else of_nat un)))"

lemma digit_not_sign: "is_digit c \<Longrightarrow> c \<noteq> CHR ''+'' \<and> c \<noteq> CHR ''-''"
  by (auto simp: is_digit_def)

lemma sint64_bounds: "- (2 ^ 63) \<le> sint (v :: int64)" "sint (v :: int64) < 2 ^ 63"
  using sint_ge [of v] sint_lt [of v] by simp_all

lemma parse_int_format_int: "parse_int (format_int v) = Inr v"
proof (cases "sint v < 0")
  case True
  let ?n = "nat (- sint v)"
  have le: "?n \<le> 2 ^ 63" using sint64_bounds [of v] by simp
  then have "?n < 2 ^ 64" by (rule le_less_trans) simp
  then have p: "parse_digits 0 (show_nat ?n) = Inr ?n" by (rule parse_digits_show_nat)
  have "- (of_nat ?n) = (of_int (sint v) :: int64)" using True by (simp flip: of_int_minus)
  then have w: "- (of_nat ?n) = v" by simp
  have "parse_uint (show_nat ?n) = Inr ?n" using p by (simp add: parse_uint_def)
  moreover have "\<not> 2 ^ 63 < ?n" using le by simp
  ultimately show ?thesis using True w
    by (simp add: format_int_def parse_int_def Let_def del: power_numeral)
next
  case False
  let ?n = "nat (sint v)"
  have lt: "?n < 2 ^ 63" using sint64_bounds [of v] False by simp
  then have "?n < 2 ^ 64" by (rule less_trans) simp
  then have p: "parse_uint (show_nat ?n) = Inr ?n"
    by (simp add: parse_uint_def parse_digits_show_nat)
  obtain c t where s: "show_nat ?n = c # t" by (cases "show_nat ?n") auto
  have "is_digit c" using hd_show_nat_digit [of ?n] s by simp
  then have c: "c \<noteq> CHR ''+''" "c \<noteq> CHR ''-''" by (auto dest: digit_not_sign)
  have w: "of_nat ?n = v" using False proof -
    have "of_nat ?n = (of_int (sint v) :: int64)" using False by (metis int_nat_eq not_less of_int_of_nat_eq)
    then show ?thesis by simp
  qed
  have "\<not> 2 ^ 63 \<le> ?n" using lt by simp
  then show ?thesis using False p s c w
    by (simp add: format_int_def parse_int_def Let_def del: power_numeral)
qed

section \<open>Hexadecimal bytes\<close>

text \<open>\<open>hex.EncodeToString\<close> and \<open>hex.DecodeString\<close>.\<close>

definition hex_digit :: "nat \<Rightarrow> char" where
  "hex_digit d = (if d < 10 then char_of (48 + d) else char_of (87 + d))"

definition hex_val :: "char \<Rightarrow> nat option" where
  "hex_val c =
     (let n = (of_char c :: nat) in
      if 48 \<le> n \<and> n \<le> 57 then Some (n - 48)
      else if 97 \<le> n \<and> n \<le> 102 then Some (n - 87)
      else if 65 \<le> n \<and> n \<le> 70 then Some (n - 55)
      else None)"

fun hex_encode :: "bytes \<Rightarrow> string" where
  "hex_encode [] = []"
| "hex_encode (b # bs) =
     hex_digit (of_char b div 16) # hex_digit (of_char b mod 16) # hex_encode bs"

fun hex_decode :: "string \<Rightarrow> bytes result" where
  "hex_decode [] = Inr []"
| "hex_decode [c] =
     (case hex_val c of None \<Rightarrow> Inl (ErrText ''invalid byte'')
      | Some _ \<Rightarrow> Inl (ErrText ''odd length hex string''))"
| "hex_decode (c # d # s) =
     (case hex_val c of None \<Rightarrow> Inl (ErrText ''invalid byte'')
      | Some h \<Rightarrow>
          (case hex_val d of None \<Rightarrow> Inl (ErrText ''invalid byte'')
           | Some l \<Rightarrow>
               (case hex_decode s of Inl e \<Rightarrow> Inl e | Inr bs \<Rightarrow> Inr (char_of (16 * h + l) # bs))))"

lemma hex_val_digit [simp]: "d < 16 \<Longrightarrow> hex_val (hex_digit d) = Some d"
  by (auto simp: hex_val_def hex_digit_def Let_def)

lemma of_char_lt256: "(of_char c :: nat) < 256"
  using of_char_mod_256 [of c, where ?'a = nat] by (metis mod_less_divisor zero_less_numeral)

lemma hex_decode_encode: "hex_decode (hex_encode bs) = Inr bs"
proof (induction bs)
  case Nil
  then show ?case by simp
next
  case (Cons b bs)
  have "(of_char b :: nat) div 16 < 16"
    using of_char_lt256 [of b] by (simp only: less_mult_imp_div_less flip: power2_eq_square)
  moreover have "(of_char b :: nat) mod 16 < 16" by simp
  moreover have "16 * ((of_char b :: nat) div 16) + of_char b mod 16 = of_char b" by simp
  ultimately show ?case using Cons by (simp add: char_of_char)
qed

lemma length_hex_encode: "length (hex_encode bs) = 2 * length bs"
  by (induction bs) auto

end
