(* ===== verification/Flags.thy ===== *)
theory Flags
  imports Strconv "HOL-Library.List_Lexorder" "HOL-Library.Char_ord"
begin

text \<open>
  The parts of \<open>flag\<close>, \<open>time\<close> and \<open>strconv\<close> the configuration rests on: the command
  line grammar of a \<open>flag.FlagSet\<close>, integers in any base with underscores, booleans and
  durations.
\<close>

section \<open>Integers in base 0\<close>

definition digit_of :: "char \<Rightarrow> nat option" where
  "digit_of c =
     (let l = of_char (lower_char c) :: nat in
      if is_digit c then Some (digit_val c)
      else if 97 \<le> l \<and> l \<le> 122 then Some (l - 87)
      else None)"

text \<open>Base and digits by the prefix of the literal.\<close>

definition base_split :: "string \<Rightarrow> nat \<times> string" where
  "base_split s =
     (case s of
        a # b # c # t \<Rightarrow>
          if a \<noteq> CHR ''0'' then (10, s)
          else if lower_char b = CHR ''b'' then (2, c # t)
          else if lower_char b = CHR ''o'' then (8, c # t)
          else if lower_char b = CHR ''x'' then (16, c # t)
          else (8, b # c # t)
      | a # t \<Rightarrow> if a = CHR ''0'' then (8, t) else (10, s)
      | [] \<Rightarrow> (10, []))"

fun scan_base :: "nat \<Rightarrow> nat \<Rightarrow> string \<Rightarrow> nat result" where
  "scan_base base n [] = Inr n"
| "scan_base base n (c # s) =
     (if c = CHR ''_'' then scan_base base n s
      else case digit_of c of
             None \<Rightarrow> Inl (ErrText ''invalid syntax'')
           | Some d \<Rightarrow>
               if base \<le> d then Inl (ErrText ''invalid syntax'')
               else if 2 ^ 64 \<le> base * n + d then Inl (ErrText ''value out of range'')
               else scan_base base (base * n + d) s)"

text \<open>Underscores only between digits, the base prefix counting as a digit.\<close>

fun underscores_ok :: "bool \<Rightarrow> char \<Rightarrow> string \<Rightarrow> bool" where
  "underscores_ok hex prev [] = (prev \<noteq> CHR ''_'')"
| "underscores_ok hex prev (c # s) =
     (if is_digit c \<or> (hex \<and> lower_char c \<in> set ''abcdef'') then underscores_ok hex CHR ''0'' s
      else if c = CHR ''_'' then prev = CHR ''0'' \<and> underscores_ok hex c s
      else prev \<noteq> CHR ''_'' \<and> underscores_ok hex CHR ''!'' s)"

definition underscore_ok :: "string \<Rightarrow> bool" where
  "underscore_ok s =
     (case s of
        a # b # t \<Rightarrow>
          if a = CHR ''0'' \<and> lower_char b \<in> set ''box''
          then underscores_ok (lower_char b = CHR ''x'') CHR ''0'' t
          else underscores_ok False CHR ''^'' s
      | _ \<Rightarrow> underscores_ok False CHR ''^'' s)"

definition parse_uint0 :: "string \<Rightarrow> nat result" where
  "parse_uint0 s =
     (if s = [] then Inl (ErrText ''invalid syntax'')
      else rbind (scan_base (fst (base_split s)) 0 (snd (base_split s)))
             (\<lambda>n. if CHR ''_'' \<in> set s \<and> \<not> underscore_ok s
                  then Inl (ErrText ''invalid syntax'') else Inr n))"

text \<open>\<open>ParseInt(s, 0, 64)\<close>: what an integer flag accepts.\<close>

definition parse_int0 :: "string \<Rightarrow> int64 result" where
  "parse_int0 s =
     (case s of [] \<Rightarrow> Inl (ErrText ''invalid syntax'')
      | c # t \<Rightarrow>
          (let neg = (c = CHR ''-'');
               body = (if c = CHR ''+'' \<or> c = CHR ''-'' then t else s)
           in rbind (parse_uint0 body)
                (\<lambda>un. if \<not> neg \<and> 2 ^ 63 \<le> un then Inl (ErrText ''value out of range'')
                      else if neg \<and> 2 ^ 63 < un then Inl (ErrText ''value out of range'')
                      else Inr (if neg then - of_nat un else of_nat un))))"

text \<open>\<open>ParseBool\<close>.\<close>

definition parse_bool :: "string \<Rightarrow> bool result" where
  "parse_bool s =
     (if s \<in> {''1'', ''t'', ''T'', ''true'', ''TRUE'', ''True''} then Inr True
      else if s \<in> {''0'', ''f'', ''F'', ''false'', ''FALSE'', ''False''} then Inr False
      else Inl (ErrText ''invalid syntax''))"

section \<open>Durations\<close>

text \<open>A duration counts nanoseconds; its unit names include the two spellings of the micro sign.\<close>

type_synonym duration = int

definition time_Second :: duration where "time_Second = 1000000000"
definition time_Minute :: duration where "time_Minute = 60 * time_Second"

definition duration_unit :: "string \<Rightarrow> nat option" where
  "duration_unit u =
     (if u = ''ns'' then Some 1
      else if u = ''us'' \<or> u = [CHR 0xC2, CHR 0xB5, CHR ''s''] \<or> u = [CHR 0xCE, CHR 0xBC, CHR ''s'']
      then Some 1000
      else if u = ''ms'' then Some 1000000
      else if u = ''s'' then Some 1000000000
      else if u = ''m'' then Some 60000000000
      else if u = ''h'' then Some 3600000000000
      else None)"

text \<open>\<open>leadingInt\<close>: digits, \<open>None\<close> past \<open>2 ^ 63\<close>.\<close>

fun leading_int :: "nat \<Rightarrow> string \<Rightarrow> (nat \<times> string) option" where
  "leading_int x [] = Some (x, [])"
| "leading_int x (c # s) =
     (if \<not> is_digit c then Some (x, c # s)
      else if 2 ^ 63 div 10 < x then None
      else if 2 ^ 63 < 10 * x + digit_val c then None
      else leading_int (10 * x + digit_val c) s)"

text \<open>\<open>leadingFraction\<close>: the digits kept, how many they are, and the rest; later digits are dropped on overflow.\<close>

fun leading_fraction :: "bool \<Rightarrow> nat \<Rightarrow> nat \<Rightarrow> string \<Rightarrow> nat \<times> nat \<times> string" where
  "leading_fraction ovf x k [] = (x, k, [])"
| "leading_fraction ovf x k (c # s) =
     (if \<not> is_digit c then (x, k, c # s)
      else if ovf \<or> (2 ^ 63 - 1) div 10 < x \<or> 2 ^ 63 < 10 * x + digit_val c
      then leading_fraction True x k s
      else leading_fraction False (10 * x + digit_val c) (Suc k) s)"

lemma leading_int_length: "leading_int x s = Some (v, r) \<Longrightarrow> length r \<le> length s"
  by (induction x s rule: leading_int.induct) (auto split: if_splits)

lemma leading_fraction_length: "length (snd (snd (leading_fraction b x k s))) \<le> length s"
  by (induction b x k s rule: leading_fraction.induct) auto

text \<open>
  One \<open>[0-9]*(\.[0-9]*)?unit\<close> group: its nanoseconds and the rest. \<open>frac f unit k\<close> is the
  float expression \<open>uint64(float64(f) * (float64(unit) / scale))\<close> with \<open>scale = 10 ^ k\<close>.
\<close>

definition not_unit_end :: "char \<Rightarrow> bool" where
  "not_unit_end c \<longleftrightarrow> c \<noteq> CHR ''.'' \<and> \<not> is_digit c"

definition duration_group ::
  "(nat \<Rightarrow> nat \<Rightarrow> nat \<Rightarrow> nat) \<Rightarrow> string \<Rightarrow> (nat \<times> string) option" where
  "duration_group frac s =
     (if s = [] \<or> not_unit_end (hd s) then None
      else case leading_int 0 s of None \<Rightarrow> None
      | Some (v, s1) \<Rightarrow>
          (let pre = (length s1 \<noteq> length s);
               dot = (s1 \<noteq> [] \<and> hd s1 = CHR ''.'');
               fr = (if dot then leading_fraction False 0 0 (tl s1) else (0, 0, s1));
               f = fst fr; k = fst (snd fr); s2 = snd (snd fr);
               post = (dot \<and> length s2 \<noteq> length (tl s1));
               u = takeWhile not_unit_end s2; s3 = dropWhile not_unit_end s2
           in if \<not> pre \<and> \<not> post then None
              else if u = [] then None
              else case duration_unit u of None \<Rightarrow> None
                   | Some unit \<Rightarrow>
                       if 2 ^ 63 div unit < v then None
                       else (let w = v * unit + (if 0 < f then frac f unit k else 0)
                             in if 2 ^ 63 < w then None else Some (w, s3))))"

lemma dropWhile_shorter: "takeWhile P s \<noteq> [] \<Longrightarrow> length (dropWhile P s) < length s"
  by (cases s) (auto simp: le_imp_less_Suc length_dropWhile_le split: if_splits)

lemma duration_group_shorter:
  assumes "duration_group frac s = Some (w, r)"
  shows "length r < length s"
proof -
  from assms obtain v s1 where s1: "leading_int 0 s = Some (v, s1)"
    by (auto simp: duration_group_def split: if_splits option.splits)
  let ?s2 = "if s1 \<noteq> [] \<and> hd s1 = CHR ''.'' then snd (snd (leading_fraction False 0 0 (tl s1))) else s1"
  from assms s1 have r: "r = dropWhile not_unit_end ?s2" and u: "takeWhile not_unit_end ?s2 \<noteq> []"
    by (auto simp: duration_group_def Let_def split: if_splits option.splits)
  have "length ?s2 \<le> length s1"
    using leading_fraction_length [of False 0 0 "tl s1"] by (cases s1) auto
  with leading_int_length [OF s1] dropWhile_shorter [OF u] r show ?thesis
    by (simp only: less_le_trans)
qed

function duration_groups ::
  "(nat \<Rightarrow> nat \<Rightarrow> nat \<Rightarrow> nat) \<Rightarrow> nat \<Rightarrow> string \<Rightarrow> nat option" where
  "duration_groups frac d s =
     (if s = [] then Some d
      else case duration_group frac s of
             None \<Rightarrow> None
           | Some (w, r) \<Rightarrow>
               if 2 ^ 63 < d + w then None else duration_groups frac (d + w) r)"
  by pat_completeness auto
termination
  by (relation "measure (\<lambda>(frac, d, s). length s)") (auto simp: duration_group_shorter)

declare duration_groups.simps [simp del]

definition ParseDuration :: "(nat \<Rightarrow> nat \<Rightarrow> nat \<Rightarrow> nat) \<Rightarrow> string \<Rightarrow> duration result" where
  "ParseDuration frac s =
     (let neg = (s \<noteq> [] \<and> hd s = CHR ''-'');
          body = (if s \<noteq> [] \<and> (hd s = CHR ''-'' \<or> hd s = CHR ''+'') then tl s else s)
      in if body = ''0'' then Inr 0
         else if body = [] then Inl (ErrText ''time: invalid duration'')
         else case duration_groups frac 0 body of
                None \<Rightarrow> Inl (ErrText ''time: invalid duration'')
              | Some d \<Rightarrow>
                  if neg then Inr (- int d)
                  else if 2 ^ 63 - 1 < d then Inl (ErrText ''time: invalid duration'')
                  else Inr (int d))"

section \<open>Flag sets\<close>

datatype flag_val = FString string | FInt int64 | FBool bool | FDuration duration

text \<open>A registered flag: its name and, by its current value, its kind.\<close>

type_synonym flag_env = "(string \<times> flag_val) list"

definition flag_set ::
  "(nat \<Rightarrow> nat \<Rightarrow> nat \<Rightarrow> nat) \<Rightarrow> flag_val \<Rightarrow> string \<Rightarrow> flag_val result" where
  "flag_set frac old v =
     (case old of
        FString _ \<Rightarrow> Inr (FString v)
      | FInt _ \<Rightarrow> rbind (parse_int0 v) (\<lambda>i. Inr (FInt i))
      | FBool _ \<Rightarrow> rbind (parse_bool v) (\<lambda>b. Inr (FBool b))
      | FDuration _ \<Rightarrow> rbind (ParseDuration frac v) (\<lambda>d. Inr (FDuration d)))"

definition is_bool_flag :: "flag_val \<Rightarrow> bool" where
  "is_bool_flag v = (case v of FBool _ \<Rightarrow> True | _ \<Rightarrow> False)"

text \<open>Name and attached value of an argument that is a flag.\<close>

definition flag_name :: "string \<Rightarrow> string" where
  "flag_name s = (if s \<noteq> [] \<and> hd s = CHR ''-'' then tl s else s)"

definition split_eq :: "string \<Rightarrow> string \<times> string option" where
  "split_eq s =
     (case s of [] \<Rightarrow> ([], None)
      | c # t \<Rightarrow>
          (let nm = takeWhile (\<lambda>x. x \<noteq> CHR ''='') t; r = dropWhile (\<lambda>x. x \<noteq> CHR ''='') t
           in (c # nm, if r = [] then None else Some (tl r))))"

text \<open>
  The state of \<open>FlagSet.Parse\<close>: the registered flags with their values, the actual flags,
  and every assignment in order (two flags may write the same variable).
\<close>

record flag_state =
  formal :: "string \<rightharpoonup> flag_val"
  actual :: "string list"
  assigned :: "(string \<times> flag_val) list"

definition flag_assign :: "string \<Rightarrow> flag_val \<Rightarrow> flag_state \<Rightarrow> flag_state" where
  "flag_assign n v fs =
     fs\<lparr>formal := (formal fs)(n \<mapsto> v),
        actual := (if n \<in> set (actual fs) then actual fs else actual fs @ [n]),
        assigned := assigned fs @ [(n, v)]\<rparr>"

text \<open>
  \<open>parseOne\<close>: \<open>None\<close> when the next argument is no flag, else the flag with its new
  value and the arguments left.
\<close>

definition parse_one ::
  "(nat \<Rightarrow> nat \<Rightarrow> nat \<Rightarrow> nat) \<Rightarrow> (string \<rightharpoonup> flag_val) \<Rightarrow> string list \<Rightarrow>
   (string \<times> flag_val \<times> string list) option result" where
  "parse_one frac fm args =
     (case args of [] \<Rightarrow> Inr None
      | s # rest \<Rightarrow>
          if length s < 2 \<or> hd s \<noteq> CHR ''-'' then Inr None
          else if s = ''--'' then Inr None
          else (let name = flag_name (tl s) in
            if name = [] \<or> hd name = CHR ''-'' \<or> hd name = CHR ''='' then Inl (ErrText ''bad flag syntax'')
            else (let nm = fst (split_eq name) in
              case fm nm of
                None \<Rightarrow> if nm = ''help'' \<or> nm = ''h'' then Inl (ErrText ''flag: help requested'')
                        else Inl (ErrText ''flag provided but not defined'')
              | Some old \<Rightarrow>
                  (case snd (split_eq name) of
                     Some v \<Rightarrow> rbind (flag_set frac old v) (\<lambda>x. Inr (Some (nm, x, rest)))
                   | None \<Rightarrow>
                       if is_bool_flag old
                       then rbind (flag_set frac old ''true'') (\<lambda>x. Inr (Some (nm, x, rest)))
                       else (case rest of
                               [] \<Rightarrow> Inl (ErrText ''flag needs an argument'')
                             | v # rest' \<Rightarrow>
                                 rbind (flag_set frac old v) (\<lambda>x. Inr (Some (nm, x, rest')))))))) "

lemma parse_one_Some:
  assumes "parse_one frac fm args = Inr (Some (nm, v, rest))"
  shows "length rest < length args \<and> (\<exists>old w. fm nm = Some old \<and> flag_set frac old w = Inr v)"
  using assms
  by (auto simp: parse_one_def Let_def rbind_Inr_iff split: list.splits if_splits option.splits)

function flag_parse ::
  "(nat \<Rightarrow> nat \<Rightarrow> nat \<Rightarrow> nat) \<Rightarrow> string list \<Rightarrow> flag_state \<Rightarrow> flag_state result" where
  "flag_parse frac args fs =
     (case parse_one frac (formal fs) args of
        Inl e \<Rightarrow> Inl e
      | Inr None \<Rightarrow> Inr fs
      | Inr (Some (nm, v, rest)) \<Rightarrow> flag_parse frac rest (flag_assign nm v fs))"
  by pat_completeness auto
termination
  by (relation "measure (\<lambda>(frac, args, fs). length args)") (auto dest: parse_one_Some)

declare flag_parse.simps [simp del]

text \<open>A parse only sets registered flags, keeps their kind, and leaves the others alone.\<close>

definition same_kind :: "flag_val \<Rightarrow> flag_val \<Rightarrow> bool" where
  "same_kind u v =
     (case u of FString _ \<Rightarrow> (case v of FString _ \<Rightarrow> True | _ \<Rightarrow> False)
      | FInt _ \<Rightarrow> (case v of FInt _ \<Rightarrow> True | _ \<Rightarrow> False)
      | FBool _ \<Rightarrow> (case v of FBool _ \<Rightarrow> True | _ \<Rightarrow> False)
      | FDuration _ \<Rightarrow> (case v of FDuration _ \<Rightarrow> True | _ \<Rightarrow> False))"

lemma same_kind_refl [simp]: "same_kind v v"
  by (cases v) (simp_all add: same_kind_def)

lemma same_kind_trans: "same_kind u v \<Longrightarrow> same_kind v w \<Longrightarrow> same_kind u w"
  by (cases u; cases v; cases w) (simp_all add: same_kind_def)

lemma flag_set_kind: "flag_set frac old v = Inr x \<Longrightarrow> same_kind old x"
  by (cases old) (auto simp: flag_set_def same_kind_def rbind_Inr_iff)

lemma flag_parse_kind:
  assumes "flag_parse frac args fs = Inr fs'" "formal fs n = Some v"
  shows "\<exists>v'. formal fs' n = Some v' \<and> same_kind v v'"
  using assms
proof (induction frac args fs arbitrary: v rule: flag_parse.induct)
  case (1 frac args fs)
  show ?case
  proof (cases "parse_one frac (formal fs) args")
    case (Inl e)
    with 1 show ?thesis by (simp add: flag_parse.simps)
  next
    case (Inr o1)
    show ?thesis
    proof (cases o1)
      case None
      with 1 Inr show ?thesis by (simp add: flag_parse.simps)
    next
      case (Some x)
      obtain nm w rest where x: "x = (nm, w, rest)" by (cases x)
      obtain old z where old: "formal fs nm = Some old" "flag_set frac old z = Inr w"
        using parse_one_Some Inr Some x by blast
      have step: "flag_parse frac rest (flag_assign nm w fs) = Inr fs'"
        using 1(2) Inr Some x by (simp add: flag_parse.simps [of frac args])
      have "\<exists>u. formal (flag_assign nm w fs) n = Some u \<and> same_kind v u"
        using 1(3) old flag_set_kind by (auto simp: flag_assign_def)
      then show ?thesis
        using 1(1) [OF Inr Some x [symmetric] refl step] same_kind_trans by blast
    qed
  qed
qed

lemma flag_parse_unset:
  assumes "flag_parse frac args fs = Inr fs'"
  shows "n \<notin> set (actual fs') \<Longrightarrow> formal fs' n = formal fs n"
    and "set (actual fs) \<subseteq> set (actual fs')"
proof -
  have "(n \<notin> set (actual fs') \<longrightarrow> formal fs' n = formal fs n) \<and> set (actual fs) \<subseteq> set (actual fs')"
    using assms
  proof (induction frac args fs rule: flag_parse.induct)
    case (1 frac args fs)
    show ?case
    proof (cases "\<exists>nm w rest. parse_one frac (formal fs) args = Inr (Some (nm, w, rest))")
      case True
      then obtain nm w rest where x: "parse_one frac (formal fs) args = Inr (Some (nm, w, rest))" by blast
      have step: "flag_parse frac rest (flag_assign nm w fs) = Inr fs'"
        using 1(2) x by (simp add: flag_parse.simps [of frac args])
      from 1(1) [OF x refl refl refl step] show ?thesis by (auto simp: flag_assign_def split: if_splits)
    next
      case False
      with 1 show ?thesis
        by (auto simp: flag_parse.simps [of frac args] split: sum.splits option.splits prod.splits)
    qed
  qed
  then show "n \<notin> set (actual fs') \<Longrightarrow> formal fs' n = formal fs n"
    and "set (actual fs) \<subseteq> set (actual fs')" by blast+
qed

end
