(* ===== verification/Database.thy ===== *)
theory Database
  imports Flags
begin

text \<open>
  \<open>internal/database/database.go\<close>: the pool limits, their normalisation, and the opening
  of the pool. \<open>sql.Open\<close> and the ping are outcomes of the environment.
\<close>

record db_config =
  MaxOpenConns :: int
  MaxIdleConns :: int
  ConnMaxIdleTime :: duration
  ConnMaxLifetime :: duration
  PingTimeout :: duration

definition DefaultConfig :: db_config where
  "DefaultConfig =
     \<lparr>MaxOpenConns = 10, MaxIdleConns = 5, ConnMaxIdleTime = time_Minute,
      ConnMaxLifetime = 30 * time_Minute, PingTimeout = 5 * time_Second\<rparr>"

definition normalized :: "db_config option \<Rightarrow> db_config" where
  "normalized c =
     (case c of None \<Rightarrow> DefaultConfig
      | Some cfg0 \<Rightarrow>
          (let cfg1 = (if MaxOpenConns cfg0 \<le> 0
                       then cfg0\<lparr>MaxOpenConns := MaxOpenConns DefaultConfig\<rparr> else cfg0);
               cfg2 = (if MaxIdleConns cfg1 \<le> 0
                       then cfg1\<lparr>MaxIdleConns := MaxIdleConns DefaultConfig\<rparr> else cfg1);
               cfg3 = (if MaxOpenConns cfg2 < MaxIdleConns cfg2
                       then cfg2\<lparr>MaxIdleConns := MaxOpenConns cfg2\<rparr> else cfg2);
               cfg4 = (if ConnMaxIdleTime cfg3 < 0 then cfg3\<lparr>ConnMaxIdleTime := 0\<rparr> else cfg3);
               cfg5 = (if ConnMaxLifetime cfg4 < 0 then cfg4\<lparr>ConnMaxLifetime := 0\<rparr> else cfg4)
           in if PingTimeout cfg5 \<le> 0 then cfg5\<lparr>PingTimeout := PingTimeout DefaultConfig\<rparr> else cfg5))"

text \<open>The bounds every normalised configuration has.\<close>

definition db_config_ok :: "db_config \<Rightarrow> bool" where
  "db_config_ok c \<longleftrightarrow>
     1 \<le> MaxIdleConns c \<and> MaxIdleConns c \<le> MaxOpenConns c \<and>
     0 \<le> ConnMaxIdleTime c \<and> 0 \<le> ConnMaxLifetime c \<and> 0 < PingTimeout c"

lemma DefaultConfig_ok: "db_config_ok DefaultConfig"
  by (simp add: db_config_ok_def DefaultConfig_def time_Minute_def time_Second_def)

text \<open>A handle on an open pool carries the limits it was given.\<close>

datatype db_handle = DbHandle (db_limits: db_config)

text \<open>
  \<open>New\<close>: the handle, and whether the pool was closed again. \<open>ping t\<close> is the outcome of a
  ping under a timeout of \<open>t\<close>.
\<close>

definition db_New ::
  "go_error option \<Rightarrow> (duration \<Rightarrow> go_error option) \<Rightarrow> db_config option \<Rightarrow> db_handle result \<times> bool" where
  "db_New open_err ping cfg =
     (case open_err of
        Some e \<Rightarrow> (Inl e, False)
      | None \<Rightarrow>
          (let poolCfg = normalized cfg in
           case ping (PingTimeout poolCfg) of
             Some e \<Rightarrow> (Inl e, True)
           | None \<Rightarrow> (Inr (DbHandle poolCfg), False)))"

text \<open>
  Whatever limits are configured, a pool is only ever opened with at least one idle
  connection allowed, no more idle than open ones, no negative lifetime and a positive
  ping timeout; limits that already satisfy this are used as they are; and a pool whose
  ping fails is closed and not returned.
\<close>

theorem db_pool_limits:
  "db_config_ok (normalized c) \<and>
   (case c of None \<Rightarrow> normalized c = DefaultConfig
    | Some cfg \<Rightarrow> db_config_ok cfg = (normalized c = cfg)) \<and>
   (case db_New open_err ping c of
      (Inr h, closed) \<Rightarrow> open_err = None \<and> db_limits h = normalized c \<and> \<not> closed \<and>
                        ping (PingTimeout (normalized c)) = None
    | (Inl e, closed) \<Rightarrow> closed = (open_err = None))"
proof -
  have ok: "db_config_ok (normalized c)"
  proof (cases c)
    case None
    then show ?thesis by (simp add: normalized_def DefaultConfig_ok)
  next
    case (Some a)
    then show ?thesis
      by (simp add: normalized_def db_config_ok_def Let_def
          DefaultConfig_def time_Minute_def time_Second_def)
  qed
  have idem: "db_config_ok cfg = (normalized (Some cfg) = cfg)" for cfg
  proof
    assume "db_config_ok cfg"
    then show "normalized (Some cfg) = cfg"
      by (simp add: normalized_def db_config_ok_def Let_def)
  next
    assume "normalized (Some cfg) = cfg"
    have "db_config_ok (normalized (Some cfg))"
      by (simp add: normalized_def db_config_ok_def Let_def
          DefaultConfig_def time_Minute_def time_Second_def)
    then show "db_config_ok cfg" by (simp only: \<open>normalized (Some cfg) = cfg\<close>)
  qed
  show ?thesis using ok idem
    by (auto simp: db_New_def normalized_def [of None] Let_def split: option.splits)
qed

end
