(* ===== verification/Model.thy ===== *)
theory Model
  imports Prelude
begin

text \<open>
  \<open>internal/model/metrics.go\<close>: the metric that agent and server exchange. \<open>Delta\<close> and
  \<open>Value\<close> are pointers in Go, so that an absent field differs from zero: they are
  options here.
\<close>

definition Counter :: string where
  "Counter = ''counter''"

definition Gauge :: string where
  "Gauge = ''gauge''"

record metrics =
  ID :: string
  MType :: string
  Delta :: "int64 option"
  Value :: "float64 option"
  Hash :: string

definition zero_metrics :: metrics where
  "zero_metrics = \<lparr>ID = [], MType = [], Delta = None, Value = None, Hash = []\<rparr>"

definition NewCounter :: "string \<Rightarrow> int64 \<Rightarrow> metrics" where
  "NewCounter name delta = \<lparr>ID = name, MType = Counter, Delta = Some delta, Value = None, Hash = []\<rparr>"

definition NewGauge :: "string \<Rightarrow> float64 \<Rightarrow> metrics" where
  "NewGauge name value = \<lparr>ID = name, MType = Gauge, Delta = None, Value = Some value, Hash = []\<rparr>"

lemma mtype_distinct [simp]: "Counter \<noteq> Gauge" "Gauge \<noteq> Counter"
  by (simp_all add: Counter_def Gauge_def)

lemma mtype_nonempty [simp]: "Counter \<noteq> []" "Gauge \<noteq> []" "[] \<noteq> Counter" "[] \<noteq> Gauge"
  by (simp_all add: Counter_def Gauge_def)

lemma NewCounter_simps [simp]:
  "ID (NewCounter n v) = n" "MType (NewCounter n v) = Counter"
  "Delta (NewCounter n v) = Some v" "Value (NewCounter n v) = None"
  "Hash (NewCounter n v) = []"
  by (simp_all add: NewCounter_def)

lemma NewGauge_simps [simp]:
  "ID (NewGauge n x) = n" "MType (NewGauge n x) = Gauge"
  "Delta (NewGauge n x) = None" "Value (NewGauge n x) = Some x"
  "Hash (NewGauge n x) = []"
  by (simp_all add: NewGauge_def)

text \<open>A metric the batch handler accepts: a known type with the field of that type.\<close>

definition complete_metric :: "metrics \<Rightarrow> bool" where
  "complete_metric m \<longleftrightarrow>
     MType m = Counter \<and> Delta m \<noteq> None \<or> MType m = Gauge \<and> Value m \<noteq> None"

section \<open>What a batch does to the two maps\<close>

text \<open>
  The abstract effect of one metric, shared by every store: a counter adds its delta
  (a missing key counts as zero), a gauge replaces, anything else does nothing.
\<close>

definition add_metric :: "metrics \<Rightarrow> (string \<rightharpoonup> int64) \<Rightarrow> (string \<rightharpoonup> int64)" where
  "add_metric m c =
     (case Delta m of
        Some d \<Rightarrow> if MType m = Counter then c(ID m \<mapsto> go_index c (ID m) + d) else c
      | None \<Rightarrow> c)"

definition set_metric :: "metrics \<Rightarrow> (string \<rightharpoonup> float64) \<Rightarrow> (string \<rightharpoonup> float64)" where
  "set_metric m g =
     (case Value m of
        Some v \<Rightarrow> if MType m = Gauge then g(ID m \<mapsto> v) else g
      | None \<Rightarrow> g)"

definition batch_counters :: "metrics list \<Rightarrow> (string \<rightharpoonup> int64) \<Rightarrow> (string \<rightharpoonup> int64)" where
  "batch_counters ms c = fold add_metric ms c"

definition batch_gauges :: "metrics list \<Rightarrow> (string \<rightharpoonup> float64) \<Rightarrow> (string \<rightharpoonup> float64)" where
  "batch_gauges ms g = fold set_metric ms g"

text \<open>The delta a metric adds to one counter.\<close>

definition delta_for :: "string \<Rightarrow> metrics \<Rightarrow> int64" where
  "delta_for n m =
     (case Delta m of Some d \<Rightarrow> if MType m = Counter \<and> ID m = n then d else 0 | None \<Rightarrow> 0)"

lemma batch_simps [simp]:
  "batch_counters [] c = c" "batch_gauges [] g = g"
  "batch_counters (m # ms) c = batch_counters ms (add_metric m c)"
  "batch_gauges (m # ms) g = batch_gauges ms (set_metric m g)"
  "batch_counters (ms @ ns) c = batch_counters ns (batch_counters ms c)"
  "batch_gauges (ms @ ns) g = batch_gauges ns (batch_gauges ms g)"
  by (simp_all add: batch_counters_def batch_gauges_def)

lemma add_metric_new [simp]:
  "add_metric (NewCounter n v) c = c(n \<mapsto> go_index c n + v)"
  "add_metric (NewGauge n x) c = c"
  "set_metric (NewGauge n x) g = g(n \<mapsto> x)"
  "set_metric (NewCounter n v) g = g"
  by (simp_all add: add_metric_def set_metric_def)

lemma delta_for_new [simp]:
  "delta_for n (NewCounter k v) = (if k = n then v else 0)"
  "delta_for n (NewGauge k x) = 0"
  by (simp_all add: delta_for_def)

lemma go_index_add_metric: "go_index (add_metric m c) n = go_index c n + delta_for n m"
  by (auto simp: add_metric_def delta_for_def split: option.splits)

text \<open>A batch adds to each counter the sum of its deltas, modulo \<open>2 ^ 64\<close>.\<close>

lemma go_index_batch: "go_index (batch_counters ms c) n = go_index c n + (\<Sum>m\<leftarrow>ms. delta_for n m)"
  by (induction ms arbitrary: c) (simp_all add: go_index_add_metric add.assoc)

lemma dom_add_metric:
  "dom (add_metric m c) =
     (if MType m = Counter \<and> Delta m \<noteq> None then insert (ID m) (dom c) else dom c)"
  by (auto simp: add_metric_def split: option.splits)

lemma dom_batch_counters:
  "dom (batch_counters ms c) =
     dom c \<union> ID ` {m \<in> set ms. MType m = Counter \<and> Delta m \<noteq> None}"
proof (induction ms arbitrary: c)
  case Nil
  then show ?case by simp
next
  case (Cons m ms)
  then show ?case by (auto simp: dom_add_metric)
qed

text \<open>Two maps with the same keys and the same reads are equal.\<close>

lemma map_eq_dom_index:
  assumes "dom c = dom d" "\<And>n. go_index c n = go_index d n"
  shows "c = d"
proof (rule ext)
  fix n
  have "n \<in> dom c \<longleftrightarrow> n \<in> dom d" using assms(1) by simp
  then show "c n = d n"
    using assms(2) [of n] by (cases "c n"; cases "d n") (auto simp: go_index_def dom_def)
qed

lemma batch_counters_mset:
  assumes "mset ms = mset ns"
  shows "batch_counters ms c = batch_counters ns c"
proof (rule map_eq_dom_index)
  have "set ms = set ns" using assms by (metis set_mset_mset)
  then show "dom (batch_counters ms c) = dom (batch_counters ns c)"
    by (simp add: dom_batch_counters)
next
  fix n
  have "sum_list (map (delta_for n) ms) = sum_list (map (delta_for n) ns)"
    using assms by (metis mset_map sum_mset_sum_list)
  then show "go_index (batch_counters ms c) n = go_index (batch_counters ns c) n"
    by (simp add: go_index_batch)
qed

text \<open>A gauge ends with the last value a batch gives it.\<close>

definition gauge_values :: "string \<Rightarrow> metrics list \<Rightarrow> float64 list" where
  "gauge_values n ms =
     concat (map (\<lambda>m. if MType m = Gauge \<and> ID m = n then (case Value m of None \<Rightarrow> [] | Some v \<Rightarrow> [v]) else []) ms)"

lemma batch_gauges_last:
  "batch_gauges ms g n = (if gauge_values n ms = [] then g n else Some (last (gauge_values n ms)))"
proof (induction ms arbitrary: g)
  case Nil
  then show ?case by (simp add: gauge_values_def)
next
  case (Cons m ms)
  have vals: "gauge_values n (m # ms)
     = (if MType m = Gauge \<and> ID m = n then (case Value m of None \<Rightarrow> [] | Some v \<Rightarrow> [v]) else [])
       @ gauge_values n ms"
    by (simp add: gauge_values_def)
  have set: "set_metric m g n
     = (if MType m = Gauge \<and> ID m = n then (case Value m of None \<Rightarrow> g n | Some v \<Rightarrow> Some v) else g n)"
    by (simp add: set_metric_def split: option.split)
  show ?case
    unfolding batch_simps Cons.IH vals set by (simp split: option.split)
qed

end
