(* ===== verification/Json_Text.thy ===== *)
theory Json_Text
  imports Strconv
begin

text \<open>
  JSON text as \<open>encoding/json\<close> reads and writes it: string escapes and UTF-8 coercion,
  number literals, the value grammar with its nesting limit, and the compact and the
  indented printer. The central lemma is that parsing what either printer wrote gives the
  value back, whatever follows it.
\<close>

section \<open>UTF-8\<close>

definition byte_in :: "nat \<Rightarrow> nat \<Rightarrow> char \<Rightarrow> bool" where
  "byte_in lo hi c \<longleftrightarrow> lo \<le> (of_char c :: nat) \<and> (of_char c :: nat) \<le> hi"

text \<open>
  Length of the well-formed UTF-8 sequence at the head, 0 when there is none:
  \<open>utf8.DecodeRune\<close> returns \<open>RuneError\<close> with size 1 there.
\<close>

definition utf8_need :: "char \<Rightarrow> nat" where
  "utf8_need b =
     (if byte_in 0 0x7F b then 1
      else if byte_in 0xC2 0xDF b then 2
      else if byte_in 0xE0 0xEF b then 3
      else if byte_in 0xF0 0xF4 b then 4
      else 0)"

text \<open>The first continuation byte has a narrower range after some lead bytes.\<close>

definition utf8_conts :: "char \<Rightarrow> bytes \<Rightarrow> bool" where
  "utf8_conts b cs =
     (case cs of [] \<Rightarrow> True
      | c # r \<Rightarrow>
          byte_in (if b = CHR 0xE0 then 0xA0 else if b = CHR 0xF0 then 0x90 else 0x80)
                  (if b = CHR 0xED then 0x9F else if b = CHR 0xF4 then 0x8F else 0xBF) c \<and>
          list_all (byte_in 0x80 0xBF) r)"

definition utf8_len :: "bytes \<Rightarrow> nat" where
  "utf8_len s =
     (case s of [] \<Rightarrow> 0
      | b # t \<Rightarrow>
          if length s < utf8_need b \<or> \<not> utf8_conts b (take (utf8_need b - 1) t) then 0
          else utf8_need b)"

lemma utf8_len_le: "utf8_len s \<le> length s"
  by (auto simp: utf8_len_def split: list.splits)

lemma utf8_len_Cons_le: "utf8_len (b # t) \<le> Suc (length t)"
  using utf8_len_le [of "b # t"] by simp

lemma utf8_len_Nil [simp]: "utf8_len [] = 0"
  by (simp add: utf8_len_def)

lemma utf8_len_prefix:
  assumes "0 < utf8_len s"
  shows "utf8_len (take (utf8_len s) s @ t) = utf8_len s"
proof (cases s)
  case Nil
  with assms show ?thesis by simp
next
  case (Cons b r)
  let ?k = "utf8_need b"
  from assms Cons have len: "?k \<le> Suc (length r)" and ok: "utf8_conts b (take (?k - 1) r)"
    and k: "utf8_len s = ?k" and pos: "0 < ?k"
    by (auto simp: utf8_len_def split: if_splits)
  have "take ?k s = b # take (?k - 1) r" using Cons pos by (cases ?k) auto
  moreover have "take (?k - 1) (take (?k - 1) r @ t) = take (?k - 1) r"
    using len by simp
  ultimately show ?thesis using len ok pos k by (simp add: utf8_len_def)
qed

lemma length_drop_less: "0 < k \<Longrightarrow> s \<noteq> [] \<Longrightarrow> length (drop k s) < length s"
  by (cases s) auto

function utf8_valid :: "bytes \<Rightarrow> bool" where
  "utf8_valid s =
     (if s = [] then True else if utf8_len s = 0 then False
      else utf8_valid (drop (utf8_len s) s))"
  by pat_completeness auto
termination
  by (relation "measure length") (auto simp: length_drop_less)

declare utf8_valid.simps [simp del]

lemma utf8_valid_Nil [simp]: "utf8_valid []"
  by (subst utf8_valid.simps) simp

text \<open>\<open>utf8.EncodeRune\<close>.\<close>

definition utf8_encode :: "nat \<Rightarrow> bytes" where
  "utf8_encode r =
     (if r < 0x80 then [char_of r]
      else if r < 0x800 then [char_of (0xC0 + r div 64), char_of (0x80 + r mod 64)]
      else if r < 0x10000 then
        [char_of (0xE0 + r div 4096), char_of (0x80 + r div 64 mod 64), char_of (0x80 + r mod 64)]
      else
        [char_of (0xF0 + r div 262144), char_of (0x80 + r div 4096 mod 64),
         char_of (0x80 + r div 64 mod 64), char_of (0x80 + r mod 64)])"

definition rune_error :: bytes where
  "rune_error = [CHR 0xEF, CHR 0xBF, CHR 0xBD]"

section \<open>Strings\<close>

definition backslash :: char where "backslash = CHR 0x5C"
definition dquote :: char where "dquote = CHR 0x22"

text \<open>\<open>htmlSafeSet\<close>: printable ASCII but the quote, the backslash and the HTML brackets.\<close>

definition html_safe :: "char \<Rightarrow> bool" where
  "html_safe c \<longleftrightarrow>
     byte_in 0x20 0x7F c \<and> c \<notin> {CHR 0x22, CHR 0x5C, CHR ''<'', CHR ''>'', CHR ''&''}"

definition escape_char :: "char \<Rightarrow> string" where
  "escape_char c =
     (if html_safe c then [c]
      else if c = CHR 0x5C \<or> c = CHR 0x22 then [CHR 0x5C, c]
      else if c = CHR 0x08 then [CHR 0x5C, CHR ''b'']
      else if c = CHR 0x0C then [CHR 0x5C, CHR ''f'']
      else if c = CHR 0x0A then [CHR 0x5C, CHR ''n'']
      else if c = CHR 0x0D then [CHR 0x5C, CHR ''r'']
      else if c = CHR 0x09 then [CHR 0x5C, CHR ''t'']
      else [CHR 0x5C, CHR ''u'', CHR ''0'', CHR ''0'',
            hex_digit (of_char c div 16), hex_digit (of_char c mod 16)])"

text \<open>A multi-byte sequence is copied, but for the two line separators.\<close>

definition escape_rune :: "bytes \<Rightarrow> string" where
  "escape_rune u =
     (if u = [CHR 0xE2, CHR 0x80, CHR 0xA8] then CHR 0x5C # ''u2028''
      else if u = [CHR 0xE2, CHR 0x80, CHR 0xA9] then CHR 0x5C # ''u2029''
      else u)"

function quote_body :: "bytes \<Rightarrow> string" where
  "quote_body s =
     (case s of [] \<Rightarrow> []
      | c # t \<Rightarrow>
          if byte_in 0 0x7F c then escape_char c @ quote_body t
          else if utf8_len s = 0 then CHR 0x5C # ''ufffd'' @ quote_body t
          else escape_rune (take (utf8_len s) s) @ quote_body (drop (utf8_len s) s))"
  by pat_completeness auto
termination
  by (relation "measure length") (auto simp: length_drop_less)

declare quote_body.simps [simp del]

lemma quote_body_Nil [simp]: "quote_body [] = []"
  by (subst quote_body.simps) simp

definition json_quote :: "bytes \<Rightarrow> string" where
  "json_quote s = CHR 0x22 # quote_body s @ [CHR 0x22]"

text \<open>The one-letter escapes, and the four hexadecimal digits after a backslash and \<open>u\<close>.\<close>

definition simple_escape :: "char \<Rightarrow> char option" where
  "simple_escape e =
     (if e = CHR 0x22 \<or> e = CHR 0x5C \<or> e = CHR ''/'' then Some e
      else if e = CHR ''b'' then Some (CHR 0x08)
      else if e = CHR ''f'' then Some (CHR 0x0C)
      else if e = CHR ''n'' then Some (CHR 0x0A)
      else if e = CHR ''r'' then Some (CHR 0x0D)
      else if e = CHR ''t'' then Some (CHR 0x09)
      else None)"

definition hex4 :: "string \<Rightarrow> nat option" where
  "hex4 s =
     (case s of a # b # c # d # _ \<Rightarrow>
        (case (hex_val a, hex_val b, hex_val c, hex_val d) of
           (Some w, Some x, Some y, Some z) \<Rightarrow> Some (4096 * w + 256 * x + 16 * y + z)
         | _ \<Rightarrow> None)
      | _ \<Rightarrow> None)"

definition hex4_escape :: "string \<Rightarrow> nat option" where
  "hex4_escape s =
     (case s of b # u # t \<Rightarrow> if b = CHR 0x5C \<and> u = CHR ''u'' then hex4 t else None | _ \<Rightarrow> None)"

definition is_surrogate :: "nat \<Rightarrow> bool" where
  "is_surrogate r \<longleftrightarrow> 0xD800 \<le> r \<and> r < 0xE000"

definition surrogate_pair :: "nat \<Rightarrow> nat \<Rightarrow> nat option" where
  "surrogate_pair r r1 =
     (if 0xD800 \<le> r \<and> r < 0xDC00 \<and> 0xDC00 \<le> r1 \<and> r1 < 0xE000
      then Some ((r - 0xD800) * 1024 + (r1 - 0xDC00) + 0x10000) else None)"

text \<open>What one backslash-u escape stands for, and how many bytes past its four digits it takes.\<close>

definition unescape_u :: "nat \<Rightarrow> string \<Rightarrow> bytes \<times> nat" where
  "unescape_u r t =
     (if is_surrogate r then
        (case hex4_escape t of
           None \<Rightarrow> (rune_error, 0)
         | Some r1 \<Rightarrow>
             (case surrogate_pair r r1 of
                None \<Rightarrow> (rune_error, 0)
              | Some rr \<Rightarrow> (utf8_encode rr, 6)))
      else (utf8_encode r, 0))"

text \<open>
  One unit of a string literal that is not the closing quote: the bytes it stands for
  and the text after it. Control characters and bad escapes are errors, a byte that
  starts no UTF-8 sequence becomes the replacement rune.
\<close>

definition string_token :: "string \<Rightarrow> (bytes \<times> string) option" where
  "string_token s =
     (case s of [] \<Rightarrow> None
      | c # t \<Rightarrow>
          if c = CHR 0x5C then
            (case t of [] \<Rightarrow> None
             | e # t' \<Rightarrow>
                 (case simple_escape e of
                    Some b \<Rightarrow> Some ([b], t')
                  | None \<Rightarrow>
                      if e = CHR ''u'' then
                        (case hex4 t' of
                           None \<Rightarrow> None
                         | Some r \<Rightarrow>
                             (let t4 = drop 4 t' in
                              Some (fst (unescape_u r t4), drop (snd (unescape_u r t4)) t4)))
                      else None))
          else if byte_in 0 0x1F c then None
          else if byte_in 0 0x7F c then Some ([c], t)
          else if utf8_len s = 0 then Some (rune_error, t)
          else Some (take (utf8_len s) s, drop (utf8_len s) s))"

lemma string_token_shorter:
  assumes "string_token s = Some (u, r)"
  shows "length r < length s"
  using assms
  by (auto simp: string_token_def Let_def split: list.splits if_splits option.splits)

lemma string_token_Nil [simp]: "string_token [] = None"
  by (simp add: string_token_def)

lemma string_token_escape:
  "simple_escape e = Some b \<Longrightarrow> string_token (CHR 0x5C # e # t) = Some ([b], t)"
  by (simp add: string_token_def)

lemma string_token_u:
  assumes "hex4 t = Some r"
  shows "string_token (CHR 0x5C # CHR ''u'' # t)
         = Some (fst (unescape_u r (drop 4 t)), drop (snd (unescape_u r (drop 4 t))) (drop 4 t))"
  using assms by (simp add: string_token_def simple_escape_def Let_def del: drop_drop)

text \<open>The rest of a string literal after its opening quote: the value and what follows.\<close>

function parse_string :: "string \<Rightarrow> (bytes \<times> string) option" where
  "parse_string s =
     (if s \<noteq> [] \<and> hd s = CHR 0x22 then Some ([], tl s)
      else case string_token s of
             None \<Rightarrow> None
           | Some (u, t) \<Rightarrow>
               (case parse_string t of None \<Rightarrow> None | Some (v, r) \<Rightarrow> Some (u @ v, r)))"
  by pat_completeness auto
termination
  by (relation "measure length") (auto simp: string_token_shorter)

declare parse_string.simps [simp del]

lemma parse_string_shorter:
  "parse_string s = Some (v, r) \<Longrightarrow> length r < length s"
proof (induction s arbitrary: v rule: parse_string.induct)
  case (1 s)
  show ?case
  proof (cases "s \<noteq> [] \<and> hd s = CHR 0x22")
    case True
    with "1.prems" show ?thesis by (subst (asm) parse_string.simps) (cases s, auto)
  next
    case False
    with "1.prems" obtain u t w where t: "string_token s = Some (u, t)" "parse_string t = Some (w, r)"
      by (subst (asm) parse_string.simps) (auto split: if_splits option.splits)
    from "1.IH" [OF False t(1) refl t(2)] string_token_shorter [OF t(1)] show ?thesis by simp
  qed
qed

lemma parse_string_quote: "parse_string (CHR 0x22 # r) = Some ([], r)"
  by (subst parse_string.simps) simp

lemma parse_string_token:
  assumes "string_token s = Some (u, t)" "s \<noteq> []" "hd s \<noteq> CHR 0x22"
    and "parse_string t = Some (v, r)"
  shows "parse_string s = Some (u @ v, r)"
  using assms by (subst parse_string.simps) auto

section \<open>What the printer wrote is read back\<close>

lemma string_token_safe: "html_safe c \<Longrightarrow> string_token (c # t) = Some ([c], t)"
  by (auto simp: string_token_def html_safe_def byte_in_def)

lemma hex4_low:
  assumes "n < 128"
  shows "hex4 (CHR ''0'' # CHR ''0'' # hex_digit (n div 16) # hex_digit (n mod 16) # t) = Some n"
proof -
  have "n div 16 < 16" using assms by simp
  moreover have "hex_val CHR ''0'' = Some 0" by (simp add: hex_val_def)
  ultimately show ?thesis by (simp add: hex4_def)
qed

lemma string_token_escape_char:
  assumes "byte_in 0 0x7F c"
  shows "string_token (escape_char c @ t) = Some ([c], t)"
proof -
  have n: "(of_char c :: nat) < 128" using assms by (simp add: byte_in_def)
  have u: "unescape_u (of_char c) t = ([c], 0)"
    using n by (simp add: unescape_u_def is_surrogate_def utf8_encode_def)
  show ?thesis
  proof (cases "html_safe c \<or> c \<in> {CHR 0x5C, CHR 0x22}
      \<or> c \<in> {CHR 0x08, CHR 0x0C, CHR 0x0A, CHR 0x0D, CHR 0x09}")
    case True
    then consider "html_safe c" | "\<not> html_safe c" "c = CHR 0x5C" | "\<not> html_safe c" "c = CHR 0x22"
      | "\<not> html_safe c" "c = CHR 0x08" | "\<not> html_safe c" "c = CHR 0x0C"
      | "\<not> html_safe c" "c = CHR 0x0A" | "\<not> html_safe c" "c = CHR 0x0D"
      | "\<not> html_safe c" "c = CHR 0x09" by blast
    then show ?thesis
      by cases (simp_all add: escape_char_def string_token_safe string_token_escape simple_escape_def)
  next
    case False
    let ?h = "CHR ''0'' # CHR ''0'' # hex_digit (of_char c div 16) # hex_digit (of_char c mod 16) # t"
    have "escape_char c @ t = CHR 0x5C # CHR ''u'' # ?h"
      using False by (simp add: escape_char_def)
    moreover have "drop 4 ?h = t" by simp
    ultimately show ?thesis
      using string_token_u [OF hex4_low [OF n, of t]] u by simp
  qed
qed

lemma escape_char_head: "escape_char c \<noteq> [] \<and> hd (escape_char c) \<noteq> CHR 0x22"
  by (auto simp: escape_char_def html_safe_def)

lemma string_token_escape_rune:
  assumes "utf8_len s = k" "0 < k" "\<not> byte_in 0 0x7F (hd s)"
  shows "string_token (escape_rune (take k s) @ t) = Some (take k s, t)"
proof -
  have u28: "hex4 (CHR ''2'' # CHR ''0'' # CHR ''2'' # CHR ''8'' # t) = Some 0x2028"
    "hex4 (CHR ''2'' # CHR ''0'' # CHR ''2'' # CHR ''9'' # t) = Some 0x2029"
    by (simp_all add: hex4_def hex_val_def)
  have e28: "utf8_encode 0x2028 = [CHR 0xE2, CHR 0x80, CHR 0xA8]"
    "utf8_encode 0x2029 = [CHR 0xE2, CHR 0x80, CHR 0xA9]"
    by (simp_all add: utf8_encode_def char_of_eq_iff)
  consider (a) "take k s = [CHR 0xE2, CHR 0x80, CHR 0xA8]"
    | (b) "take k s = [CHR 0xE2, CHR 0x80, CHR 0xA9]"
    | (c) "escape_rune (take k s) = take k s"
    by (metis escape_rune_def)
  then show ?thesis
  proof cases
    case a
    then show ?thesis using string_token_u [OF u28(1)] e28
      by (simp add: escape_rune_def unescape_u_def is_surrogate_def)
  next
    case b
    then show ?thesis using string_token_u [OF u28(2)] e28
      by (simp add: escape_rune_def unescape_u_def is_surrogate_def)
  next
    case c
    obtain h r where s: "s = h # r" using assms by (cases s) auto
    then obtain r' where tk: "take k s = h # r'" using assms(2) by (cases k) auto
    have len: "utf8_len (take k s @ t) = k" using utf8_len_prefix assms by blast
    have kl: "k \<le> length s" using utf8_len_le assms(1) by blast
    have "\<not> byte_in 0 0x7F h" using assms(3) s by simp
    moreover from this have "h \<noteq> CHR 0x5C" "\<not> byte_in 0 0x1F h" by (auto simp: byte_in_def)
    moreover have "take k (take k s @ t) = take k s" "drop k (take k s @ t) = t" using kl by auto
    ultimately show ?thesis using c len tk assms(2) by (simp add: string_token_def)
  qed
qed

lemma escape_rune_head:
  assumes "0 < k" "s \<noteq> []" "\<not> byte_in 0 0x7F (hd s)"
  shows "escape_rune (take k s) \<noteq> [] \<and> hd (escape_rune (take k s)) \<noteq> CHR 0x22"
  using assms by (cases s; cases k) (auto simp: escape_rune_def byte_in_def)

lemma parse_string_quote_body:
  "utf8_valid s \<Longrightarrow> parse_string (quote_body s @ CHR 0x22 # rest) = Some (s, rest)"
proof (induction "length s" arbitrary: s rule: less_induct)
  case less
  show ?case
  proof (cases s)
    case Nil
    then show ?thesis by (simp add: parse_string_quote)
  next
    case (Cons c t)
    let ?k = "utf8_len s"
    from less.prems Cons have k: "0 < ?k" and v: "utf8_valid (drop ?k s)"
      by (subst (asm) utf8_valid.simps, simp split: if_splits)+
    show ?thesis
    proof (cases "byte_in 0 0x7F c")
      case True
      then have "?k = 1" by (simp add: Cons utf8_len_def utf8_need_def utf8_conts_def)
      with v Cons have "utf8_valid t" by simp
      then have ih: "parse_string (quote_body t @ CHR 0x22 # rest) = Some (t, rest)"
        using less.hyps Cons by simp
      have "quote_body s = escape_char c @ quote_body t"
        using True Cons by (subst quote_body.simps) simp
      with parse_string_token [OF string_token_escape_char [OF True] _ _ ih] escape_char_head [of c] Cons
      show ?thesis by simp
    next
      case False
      have ih: "parse_string (quote_body (drop ?k s) @ CHR 0x22 # rest) = Some (drop ?k s, rest)"
        using less.hyps v k Cons by (simp add: length_drop_less)
      have "quote_body s = escape_rune (take ?k s) @ quote_body (drop ?k s)"
        using False Cons k by (subst quote_body.simps) simp
      moreover have "\<not> byte_in 0 0x7F (hd s)" "s \<noteq> []" using False Cons by simp_all
      ultimately show ?thesis
        using parse_string_token [OF string_token_escape_rune [OF refl k] _ _ ih] escape_rune_head [OF k]
        by simp
    qed
  qed
qed

end
