(* ===== verification/Json.thy ===== *)
theory Json
  imports Json_Text
begin

text \<open>
  JSON values, the recursive-descent reading of \<open>encoding/json\<close> and its two printers.
  \<open>json.Decoder.Decode\<close> takes the first value of the body and leaves what follows,
  \<open>json.Unmarshal\<close> wants one value and white space. The reader carries a fuel argument,
  bounded by the length of the text, and the nesting limit of the package.
\<close>

section \<open>Number literals\<close>

definition digits_split :: "string \<Rightarrow> string \<times> string" where
  "digits_split s = (takeWhile is_digit s, dropWhile is_digit s)"

definition parse_intpart :: "string \<Rightarrow> (string \<times> string) option" where
  "parse_intpart s =
     (case s of [] \<Rightarrow> None
      | c # t \<Rightarrow> if \<not> is_digit c then None
          else if c = CHR ''0'' then Some ([c], t)
          else Some (digits_split s))"

definition parse_frac :: "string \<Rightarrow> (string \<times> string) option" where
  "parse_frac s =
     (case s of [] \<Rightarrow> Some ([], [])
      | c # t \<Rightarrow> if c \<noteq> CHR ''.'' then Some ([], s)
          else if fst (digits_split t) = [] then None
          else Some (c # fst (digits_split t), snd (digits_split t)))"

definition parse_expsign :: "string \<Rightarrow> string \<times> string" where
  "parse_expsign s =
     (case s of [] \<Rightarrow> ([], [])
      | c # t \<Rightarrow> if c = CHR ''+'' \<or> c = CHR ''-'' then ([c], t) else ([], s))"

definition parse_exp :: "string \<Rightarrow> (string \<times> string) option" where
  "parse_exp s =
     (case s of [] \<Rightarrow> Some ([], [])
      | c # t \<Rightarrow> if c \<noteq> CHR ''e'' \<and> c \<noteq> CHR ''E'' then Some ([], s)
          else (case parse_expsign t of
                  (sg, u) \<Rightarrow> if fst (digits_split u) = [] then None
                            else Some (c # sg @ fst (digits_split u), snd (digits_split u))))"

definition parse_sign :: "string \<Rightarrow> string \<times> string" where
  "parse_sign s = (case s of [] \<Rightarrow> ([], []) | c # t \<Rightarrow> if c = CHR ''-'' then ([c], t) else ([], s))"

definition parse_number :: "string \<Rightarrow> (string \<times> string) option" where
  "parse_number s =
     (case parse_sign s of (sg, s1) \<Rightarrow>
        (case parse_intpart s1 of None \<Rightarrow> None
         | Some (ip, s2) \<Rightarrow>
             (case parse_frac s2 of None \<Rightarrow> None
              | Some (fr, s3) \<Rightarrow>
                  (case parse_exp s3 of None \<Rightarrow> None
                   | Some (ex, s4) \<Rightarrow> Some (sg @ ip @ fr @ ex, s4)))))"

definition json_number :: "string \<Rightarrow> bool" where
  "json_number lit \<longleftrightarrow> parse_number lit = Some (lit, [])"

text \<open>A text that cannot continue a number.\<close>

definition number_stop :: "string \<Rightarrow> bool" where
  "number_stop s \<longleftrightarrow>
     (case s of [] \<Rightarrow> True
      | c # _ \<Rightarrow> \<not> is_digit c \<and> c \<notin> {CHR ''.'', CHR ''e'', CHR ''E''})"

lemma digits_split_append:
  "number_stop r \<Longrightarrow> digits_split (s @ r) = (fst (digits_split s), snd (digits_split s) @ r)"
  by (induction s) (auto simp: digits_split_def number_stop_def split: list.splits)

lemma digits_split_concat: "fst (digits_split s) @ snd (digits_split s) = s"
  by (simp add: digits_split_def)

lemma parse_sign_concat: "fst (parse_sign s) @ snd (parse_sign s) = s"
  by (auto simp: parse_sign_def split: list.splits)

lemma parse_intpart_concat: "parse_intpart s = Some (u, r) \<Longrightarrow> u @ r = s \<and> u \<noteq> []"
  by (auto simp: parse_intpart_def digits_split_def split: list.splits if_splits)

lemma parse_frac_concat: "parse_frac s = Some (u, r) \<Longrightarrow> u @ r = s"
  by (auto simp: parse_frac_def digits_split_def split: list.splits if_splits)

lemma parse_exp_concat: "parse_exp s = Some (u, r) \<Longrightarrow> u @ r = s"
  by (auto simp: parse_exp_def parse_expsign_def digits_split_def split: list.splits if_splits)

lemma parse_number_concat:
  "parse_number s = Some (u, r) \<Longrightarrow> u @ r = s \<and> u \<noteq> []"
  using parse_sign_concat [of s]
  by (auto simp: parse_number_def split: option.splits prod.splits
           dest!: parse_intpart_concat parse_frac_concat parse_exp_concat)

lemma parse_intpart_append:
  "parse_intpart s = Some (u, v) \<Longrightarrow> number_stop r \<Longrightarrow> parse_intpart (s @ r) = Some (u, v @ r)"
  using digits_split_append [of r s]
  by (auto simp: parse_intpart_def split: list.splits if_splits)

lemma parse_frac_append:
  "parse_frac s = Some (u, v) \<Longrightarrow> number_stop r \<Longrightarrow> parse_frac (s @ r) = Some (u, v @ r)"
  by (auto simp: parse_frac_def number_stop_def digits_split_append split: list.splits if_splits)

lemma parse_expsign_append:
  "s \<noteq> [] \<Longrightarrow> parse_expsign (s @ r) = (fst (parse_expsign s), snd (parse_expsign s) @ r)"
  by (auto simp: parse_expsign_def split: list.splits)

lemma parse_exp_append:
  assumes "parse_exp s = Some (u, v)" "number_stop r"
  shows "parse_exp (s @ r) = Some (u, v @ r)"
proof (cases s)
  case Nil
  with assms show ?thesis
    by (auto simp: parse_exp_def number_stop_def split: list.splits)
next
  case (Cons c t)
  show ?thesis
  proof (cases "c \<noteq> CHR ''e'' \<and> c \<noteq> CHR ''E''")
    case True
    with assms Cons show ?thesis by (auto simp: parse_exp_def)
  next
    case False
    with assms(1) Cons have "t \<noteq> []"
      by (auto simp: parse_exp_def parse_expsign_def digits_split_def split: if_splits)
    with False assms Cons show ?thesis
      by (auto simp: parse_exp_def parse_expsign_append digits_split_append split: prod.splits if_splits)
  qed
qed

lemma parse_number_append:
  assumes "json_number lit" "number_stop r"
  shows "parse_number (lit @ r) = Some (lit, r)"
proof -
  from assms(1) obtain sg s1 ip s2 fr s3 ex where
    sg: "parse_sign lit = (sg, s1)" and ip: "parse_intpart s1 = Some (ip, s2)"
    and fr: "parse_frac s2 = Some (fr, s3)" and ex: "parse_exp s3 = Some (ex, [])"
    and lit: "lit = sg @ ip @ fr @ ex"
    by (auto simp: json_number_def parse_number_def split: prod.splits option.splits)
  have "lit \<noteq> []" using assms(1) by (auto simp: json_number_def dest: parse_number_concat)
  then have "parse_sign (lit @ r) = (sg, s1 @ r)"
    using sg by (auto simp: parse_sign_def split: list.splits if_splits)
  with parse_intpart_append [OF ip assms(2)] parse_frac_append [OF fr assms(2)]
    parse_exp_append [OF ex assms(2)] lit
  show ?thesis by (simp add: parse_number_def)
qed

text \<open>Decimal integers are number literals.\<close>

lemma show_nat_head: "0 < n \<Longrightarrow> hd (show_nat n) \<noteq> CHR ''0''"
proof (induction n rule: show_nat.induct)
  case (1 n)
  show ?case
  proof (cases "n < 10")
    case True
    have "digit_val CHR ''0'' = 0" by (simp add: digit_val_def)
    then have "digit_char n \<noteq> CHR ''0''"
      using True 1(2) digit_char_simps(2) [of n] by (metis less_numeral_extra(3))
    with True show ?thesis by (subst show_nat.simps) simp
  next
    case False
    then have "0 < n div 10" by simp
    with 1 False have "hd (show_nat (n div 10)) \<noteq> CHR ''0''" by simp
    with False show ?thesis by (subst show_nat.simps) simp
  qed
qed

lemma parse_intpart_show_nat: "parse_intpart (show_nat n) = Some (show_nat n, [])"
proof (cases "n = 0")
  case True
  have "show_nat 0 = ''0''" by (subst show_nat.simps) (simp add: digit_char_def char_of_eq_iff)
  with True show ?thesis by (simp add: parse_intpart_def is_digit_def)
next
  case False
  obtain c t where s: "show_nat n = c # t" by (cases "show_nat n") auto
  have d: "\<forall>x \<in> set (show_nat n). is_digit x" by (rule show_nat_digits)
  then have "takeWhile is_digit (show_nat n) = show_nat n" "dropWhile is_digit (show_nat n) = []"
    by (simp_all add: takeWhile_eq_all_conv dropWhile_eq_Nil_conv)
  moreover have "c \<noteq> CHR ''0''" using show_nat_head [of n] False s by simp
  moreover have "is_digit c" using d s by simp
  ultimately show ?thesis using s by (simp add: parse_intpart_def digits_split_def)
qed

lemma json_number_format_int: "json_number (format_int v)"
proof (cases "sint v < 0")
  case True
  then show ?thesis
    by (simp add: json_number_def parse_number_def format_int_def parse_sign_def
          parse_intpart_show_nat parse_frac_def parse_exp_def)
next
  case False
  let ?s = "show_nat (nat (sint v))"
  obtain c t where s: "?s = c # t" by (cases ?s) auto
  have "is_digit (hd ?s)" by (rule hd_show_nat_digit)
  then have "parse_sign ?s = ([], ?s)" using s by (auto simp: parse_sign_def is_digit_def)
  with False show ?thesis
    by (simp add: json_number_def parse_number_def format_int_def parse_intpart_show_nat
          parse_frac_def parse_exp_def)
qed

section \<open>Values\<close>

datatype json =
    JNull
  | JBool bool
  | JNum string
  | JStr bytes
  | JArr "json list"
  | JObj "(bytes \<times> json) list"

definition is_ws :: "char \<Rightarrow> bool" where
  "is_ws c \<longleftrightarrow> c \<in> {CHR 0x20, CHR 0x09, CHR 0x0A, CHR 0x0D}"

definition skip_ws :: "string \<Rightarrow> string" where
  "skip_ws s = dropWhile is_ws s"

lemma skip_ws_length: "length (skip_ws s) \<le> length s"
  by (simp add: skip_ws_def length_dropWhile_le)

definition maxNestingDepth :: nat where
  "maxNestingDepth = 10000"

text \<open>
  One value at the head of the text, elements up to the closing bracket, members up to
  the closing brace. The first argument is fuel, the second the nesting still allowed.
\<close>

fun parse_value :: "nat \<Rightarrow> nat \<Rightarrow> string \<Rightarrow> (json \<times> string) option"
  and parse_elems :: "nat \<Rightarrow> nat \<Rightarrow> string \<Rightarrow> (json list \<times> string) option"
  and parse_members :: "nat \<Rightarrow> nat \<Rightarrow> string \<Rightarrow> ((bytes \<times> json) list \<times> string) option" where
  "parse_value 0 d s = None"
| "parse_value (Suc n) d s =
     (case s of [] \<Rightarrow> None
      | c # t \<Rightarrow>
          if c = CHR ''{'' then
            (if d = 0 then None
             else if skip_ws t \<noteq> [] \<and> hd (skip_ws t) = CHR ''}'' then Some (JObj [], tl (skip_ws t))
             else map_option (\<lambda>(ms, r). (JObj ms, r)) (parse_members n (d - 1) (skip_ws t)))
          else if c = CHR ''['' then
            (if d = 0 then None
             else if skip_ws t \<noteq> [] \<and> hd (skip_ws t) = CHR '']'' then Some (JArr [], tl (skip_ws t))
             else map_option (\<lambda>(vs, r). (JArr vs, r)) (parse_elems n (d - 1) (skip_ws t)))
          else if c = CHR 0x22 then map_option (\<lambda>(b, r). (JStr b, r)) (parse_string t)
          else if has_prefix s ''true'' then Some (JBool True, drop 4 s)
          else if has_prefix s ''false'' then Some (JBool False, drop 5 s)
          else if has_prefix s ''null'' then Some (JNull, drop 4 s)
          else map_option (\<lambda>(lit, r). (JNum lit, r)) (parse_number s))"
| "parse_elems 0 d s = None"
| "parse_elems (Suc n) d s =
     (case parse_value n d s of None \<Rightarrow> None
      | Some (v, r) \<Rightarrow>
          (case skip_ws r of [] \<Rightarrow> None
           | c # r' \<Rightarrow>
               if c = CHR '','' then map_option (\<lambda>(vs, q). (v # vs, q)) (parse_elems n d (skip_ws r'))
               else if c = CHR '']'' then Some ([v], r')
               else None))"
| "parse_members 0 d s = None"
| "parse_members (Suc n) d s =
     (case s of [] \<Rightarrow> None
      | q # t \<Rightarrow>
          if q \<noteq> CHR 0x22 then None
          else (case parse_string t of None \<Rightarrow> None
                | Some (k, r) \<Rightarrow>
                    if skip_ws r = [] \<or> hd (skip_ws r) \<noteq> CHR '':'' then None
                    else (case parse_value n d (skip_ws (tl (skip_ws r))) of None \<Rightarrow> None
                          | Some (v, r1) \<Rightarrow>
                              (case skip_ws r1 of [] \<Rightarrow> None
                               | c # r' \<Rightarrow>
                                   if c = CHR '','' then
                                     map_option (\<lambda>(ms, q). ((k, v) # ms, q)) (parse_members n d (skip_ws r'))
                                   else if c = CHR ''}'' then Some ([(k, v)], r')
                                   else None))))"

definition json_fuel :: "string \<Rightarrow> nat" where
  "json_fuel s = 2 * length s + 1"

text \<open>\<open>json.Decoder.Decode\<close> into a value, and \<open>json.Unmarshal\<close>.\<close>

definition json_decode_first :: "bytes \<Rightarrow> json result" where
  "json_decode_first body =
     (case parse_value (json_fuel (skip_ws body)) maxNestingDepth (skip_ws body) of
        None \<Rightarrow> Inl (ErrText ''json syntax'') | Some (v, r) \<Rightarrow> Inr v)"

definition json_decode_all :: "bytes \<Rightarrow> json result" where
  "json_decode_all body =
     (case parse_value (json_fuel (skip_ws body)) maxNestingDepth (skip_ws body) of
        None \<Rightarrow> Inl (ErrText ''json syntax'')
      | Some (v, r) \<Rightarrow> if skip_ws r = [] then Inr v else Inl (ErrText ''json syntax''))"

end
