(* ===== verification/Json_Print.thy ===== *)
theory Json_Print
  imports Json
begin

text \<open>
  The compact printer of \<open>json.Marshal\<close> and the indented one of an encoder with
  \<open>SetIndent("", "  ")\<close>, as one printer with the line break and the space after a colon
  as arguments, and the proof that the reader gives back what was printed.
\<close>

section \<open>Fuel\<close>

lemma skip_ws_tl_length: "skip_ws s \<noteq> [] \<Longrightarrow> length (tl (skip_ws s)) < length s"
  using skip_ws_length [of s] by (cases "skip_ws s") auto

lemma skip_ws_Cons_length: "skip_ws s = c # r \<Longrightarrow> length r < length s"
  using skip_ws_length [of s] by simp

lemma parse_number_shorter: "parse_number s = Some (u, r) \<Longrightarrow> length r < length s"
  using parse_number_concat [of s u r] by auto

lemma parse_shorter:
  "parse_value n d s = Some (v, r) \<Longrightarrow> length r < length s"
  "parse_elems n d s = Some (vs, r) \<Longrightarrow> length r < length s"
  "parse_members n d s = Some (ms, r) \<Longrightarrow> length r < length s"
proof (induction n arbitrary: d s v vs ms r)
  case 0
  { case 1 then show ?case by simp next
    case 2 then show ?case by simp next
    case 3 then show ?case by simp }
next
  case (Suc n)
  { case 1
    then show ?case
      using skip_ws_length [of "tl s"]
      by (auto split: list.splits if_splits dest!: Suc.IH parse_string_shorter parse_number_shorter
               skip_ws_tl_length)
  next
    case 2
    then show ?case
      by (auto split: list.splits if_splits option.splits dest!: Suc.IH skip_ws_Cons_length
)
         (meson less_le_trans order.strict_trans skip_ws_length)
  next
    case 3
    have v: "length r1 < length q"
      if "parse_value n d (skip_ws (tl (skip_ws q))) = Some (w, r1)" "skip_ws q \<noteq> []" for q w r1
      using Suc.IH(1) [OF that(1)] skip_ws_tl_length [OF that(2)] skip_ws_length [of "tl (skip_ws q)"]
      by simp
    have m: "length r1 < length q" if "parse_members n d (skip_ws q) = Some (w, r1)" for q w r1
      using Suc.IH(3) [OF that] skip_ws_length [of q] by simp
    from 3 show ?case
      by (auto split: list.splits if_splits option.splits
               dest!: v m skip_ws_Cons_length parse_string_shorter)
  }
qed

declare parse_value.simps [simp del] parse_elems.simps [simp del] parse_members.simps [simp del]

text \<open>More fuel than twice the length of the text changes nothing.\<close>

lemma parse_fuel_Suc:
  "2 * length s < n \<Longrightarrow> parse_value (Suc n) d s = parse_value n d s"
  "2 * length s + 1 < n \<Longrightarrow> parse_elems (Suc n) d s = parse_elems n d s"
  "2 * length s + 1 < n \<Longrightarrow> parse_members (Suc n) d s = parse_members n d s"
proof (induction n arbitrary: d s)
  case 0
  { case 1 then show ?case by simp next
    case 2 then show ?case by simp next
    case 3 then show ?case by simp }
next
  case (Suc n)
  { case 1
    have "parse_elems (Suc n) (d - 1) (skip_ws t) = parse_elems n (d - 1) (skip_ws t)"
      "parse_members (Suc n) (d - 1) (skip_ws t) = parse_members n (d - 1) (skip_ws t)"
      if "s = c # t" for c t
      using 1 that skip_ws_length [of t] by (auto intro!: Suc.IH)
    then show ?case
      unfolding parse_value.simps(2) [of "Suc n" d s] parse_value.simps(2) [of n d s]
      by (cases s) auto
  next
    case 2
    have v: "parse_value (Suc n) d s = parse_value n d s" using 2 by (intro Suc.IH) simp
    have e: "parse_elems (Suc n) d (skip_ws q) = parse_elems n d (skip_ws q)"
      if "parse_value n d s = Some (w, r)" "skip_ws r = c # q" for w r c q
      using 2 parse_shorter(1) [OF that(1)] skip_ws_Cons_length [OF that(2)] skip_ws_length [of q]
      by (intro Suc.IH) simp
    show ?case
      unfolding parse_elems.simps(2) [of "Suc n" d s] parse_elems.simps(2) [of n d s] v
      using e by (auto split: option.split list.split)
  next
    case 3
    have v: "parse_value (Suc n) d (skip_ws (tl (skip_ws r))) = parse_value n d (skip_ws (tl (skip_ws r)))"
      if "s = q # t" "parse_string t = Some (k, r)" "skip_ws r \<noteq> []" for q t k r
      using 3 that(1) parse_string_shorter [OF that(2)] skip_ws_tl_length [OF that(3)]
        skip_ws_length [of "tl (skip_ws r)"]
      by (intro Suc.IH) simp
    have e: "parse_members (Suc n) d (skip_ws x) = parse_members n d (skip_ws x)"
      if "s = q # t" "parse_string t = Some (k, r)" "skip_ws r \<noteq> []"
        "parse_value n d (skip_ws (tl (skip_ws r))) = Some (w, r1)" "skip_ws r1 = c # x" for q t k r w r1 c x
      using 3 that(1) parse_string_shorter [OF that(2)] skip_ws_tl_length [OF that(3)]
        skip_ws_length [of "tl (skip_ws r)"] parse_shorter(1) [OF that(4)]
        skip_ws_Cons_length [OF that(5)] skip_ws_length [of x]
      by (intro Suc.IH) simp
    show ?case
      unfolding parse_members.simps(2) [of "Suc n" d s] parse_members.simps(2) [of n d s]
      using v e by (auto split: option.split list.split)
  }
qed

lemma parse_value_fuel:
  assumes "2 * length s < n"
  shows "parse_value n d s = parse_value (json_fuel s) d s"
proof -
  have "parse_value (json_fuel s + k) d s = parse_value (json_fuel s) d s" for k
    by (induction k) (simp_all add: json_fuel_def parse_fuel_Suc(1))
  from this [of "n - json_fuel s"] assms show ?thesis by (simp add: json_fuel_def)
qed

section \<open>Printers\<close>

text \<open>
  \<open>nl d\<close> is what precedes an element at depth \<open>d\<close> and the closing bracket above it,
  \<open>col\<close> what follows a colon. Empty arrays and objects have no inner white space.
\<close>

fun json_print :: "(nat \<Rightarrow> string) \<Rightarrow> string \<Rightarrow> nat \<Rightarrow> json \<Rightarrow> string"
  and print_elems :: "(nat \<Rightarrow> string) \<Rightarrow> string \<Rightarrow> nat \<Rightarrow> json list \<Rightarrow> string"
  and print_members :: "(nat \<Rightarrow> string) \<Rightarrow> string \<Rightarrow> nat \<Rightarrow> (bytes \<times> json) list \<Rightarrow> string" where
  "json_print nl col d JNull = ''null''"
| "json_print nl col d (JBool b) = (if b then ''true'' else ''false'')"
| "json_print nl col d (JNum lit) = lit"
| "json_print nl col d (JStr s) = json_quote s"
| "json_print nl col d (JArr vs) =
     (if vs = [] then ''[]'' else CHR ''['' # print_elems nl col (Suc d) vs @ nl d @ '']'')"
| "json_print nl col d (JObj ms) =
     (if ms = [] then ''{}'' else CHR ''{'' # print_members nl col (Suc d) ms @ nl d @ ''}'')"
| "print_elems nl col d [] = []"
| "print_elems nl col d (v # vs) =
     nl d @ json_print nl col d v @ (if vs = [] then [] else CHR '','' # print_elems nl col d vs)"
| "print_members nl col d [] = []"
| "print_members nl col d ((k, v) # ms) =
     nl d @ json_quote k @ CHR '':'' # col @ json_print nl col d v @
     (if ms = [] then [] else CHR '','' # print_members nl col d ms)"

text \<open>\<open>json.Marshal\<close>, and \<open>Encode\<close> of an encoder with two-space indentation.\<close>

definition json_compact :: "json \<Rightarrow> string" where
  "json_compact v = json_print (\<lambda>_. []) [] 0 v"

definition json_indent :: "json \<Rightarrow> string" where
  "json_indent v =
     json_print (\<lambda>d. CHR 0x0A # replicate (2 * d) (CHR '' '')) '' '' 0 v @ [CHR 0x0A]"

text \<open>Values that print to text the reader takes back: depth, UTF-8 strings, number literals.\<close>

fun json_ok :: "nat \<Rightarrow> json \<Rightarrow> bool" where
  "json_ok d JNull = True"
| "json_ok d (JBool b) = True"
| "json_ok d (JNum lit) = json_number lit"
| "json_ok d (JStr s) = utf8_valid s"
| "json_ok d (JArr vs) = (0 < d \<and> list_all (json_ok (d - 1)) vs)"
| "json_ok d (JObj ms) = (0 < d \<and> list_all (\<lambda>(k, v). utf8_valid k \<and> json_ok (d - 1) v) ms)"

definition style_ok :: "(nat \<Rightarrow> string) \<Rightarrow> string \<Rightarrow> bool" where
  "style_ok nl col \<longleftrightarrow> (\<forall>d. list_all is_ws (nl d)) \<and> list_all is_ws col"

section \<open>Round trip\<close>

lemma skip_ws_append: "list_all is_ws u \<Longrightarrow> skip_ws (u @ s) = skip_ws s"
  by (induction u) (simp_all add: skip_ws_def)

lemma skip_ws_id: "s = [] \<or> \<not> is_ws (hd s) \<Longrightarrow> skip_ws s = s"
  by (cases s) (simp_all add: skip_ws_def)

lemma json_number_head:
  assumes "json_number lit"
  obtains c t where "lit = c # t" "is_digit c \<or> c = CHR ''-''"
proof -
  have ne: "lit \<noteq> []" using assms parse_number_concat by (auto simp: json_number_def)
  then obtain c t where "lit = c # t" by (cases lit) auto
  with assms that show ?thesis
    by (cases "c = CHR ''-''")
       (auto simp: json_number_def parse_number_def parse_sign_def parse_intpart_def
             split: option.splits if_splits)
qed

text \<open>The first byte of a printed value.\<close>

definition value_start :: "char \<Rightarrow> bool" where
  "value_start c \<longleftrightarrow>
     is_digit c \<or> c \<in> {CHR ''-'', CHR ''n'', CHR ''t'', CHR ''f'', CHR 0x22, CHR ''['', CHR ''{''}"

lemma value_start_not: "value_start c \<Longrightarrow> \<not> is_ws c \<and> c \<noteq> CHR '']'' \<and> c \<noteq> CHR ''}''"
  by (auto simp: value_start_def is_ws_def is_digit_def)

lemma json_print_start:
  assumes "json_ok dd v"
  shows "json_print nl col d v \<noteq> [] \<and> value_start (hd (json_print nl col d v))"
proof (cases v)
  case (JNum lit)
  with assms have "json_number lit" by simp
  then obtain c t where "lit = c # t" "is_digit c \<or> c = CHR ''-''" by (rule json_number_head)
  with JNum show ?thesis by (auto simp: value_start_def)
qed (auto simp: value_start_def json_quote_def)

lemma skip_ws_print:
  assumes "json_ok dd v"
  shows "skip_ws (json_print nl col d v @ r) = json_print nl col d v @ r"
  using json_print_start [OF assms, of nl col d] value_start_not
  by (intro skip_ws_id) auto

lemma parse_value_lit [simp]:
  "parse_value (Suc n) d (CHR ''n'' # CHR ''u'' # CHR ''l'' # CHR ''l'' # r) = Some (JNull, r)"
  "parse_value (Suc n) d (CHR ''t'' # CHR ''r'' # CHR ''u'' # CHR ''e'' # r) = Some (JBool True, r)"
  "parse_value (Suc n) d (CHR ''f'' # CHR ''a'' # CHR ''l'' # CHR ''s'' # CHR ''e'' # r) = Some (JBool False, r)"
  by (simp_all add: parse_value.simps has_prefix_def)

lemma parse_value_num:
  assumes "json_number lit" "number_stop r"
  shows "parse_value (Suc n) d (lit @ r) = Some (JNum lit, r)"
proof -
  from assms(1) obtain c t where c: "lit = c # t" "is_digit c \<or> c = CHR ''-''"
    by (rule json_number_head)
  then have "c \<notin> {CHR ''{'', CHR ''['', CHR 0x22, CHR ''t'', CHR ''f'', CHR ''n''}"
    by (auto simp: is_digit_def)
  moreover from this have "\<not> has_prefix (c # x) ''true''" "\<not> has_prefix (c # x) ''false''"
      "\<not> has_prefix (c # x) ''null''" for x
    by (auto simp: has_prefix_def)
  ultimately show ?thesis
    using parse_number_append [OF assms] c(1) by (simp add: parse_value.simps)
qed

lemma parse_value_str:
  "utf8_valid s \<Longrightarrow> parse_value (Suc n) d (json_quote s @ r) = Some (JStr s, r)"
  by (simp add: parse_value.simps json_quote_def parse_string_quote_body)

lemma number_stop_simps [simp]:
  "number_stop []" "number_stop (CHR '','' # r)" "number_stop (CHR '']'' # r)" "number_stop (CHR ''}'' # r)"
  by (simp_all add: number_stop_def is_digit_def)

lemma number_stop_ws: "list_all is_ws u \<Longrightarrow> number_stop r \<Longrightarrow> number_stop (u @ r)"
  by (cases u) (auto simp: number_stop_def is_ws_def is_digit_def)

lemma parse_elems_step:
  assumes "parse_value n d s = Some (v, r)"
  shows "skip_ws r = CHR '']'' # q \<Longrightarrow> parse_elems (Suc n) d s = Some ([v], q)"
    and "skip_ws r = CHR '','' # q \<Longrightarrow> parse_elems n d (skip_ws q) = Some (vs, z) \<Longrightarrow>
         parse_elems (Suc n) d s = Some (v # vs, z)"
  using assms by (simp_all add: parse_elems.simps)

lemma parse_members_step:
  assumes "parse_string t = Some (k, CHR '':'' # r)" "parse_value n d (skip_ws r) = Some (v, r1)"
  shows "skip_ws r1 = CHR ''}'' # q \<Longrightarrow> parse_members (Suc n) d (CHR 0x22 # t) = Some ([(k, v)], q)"
    and "skip_ws r1 = CHR '','' # q \<Longrightarrow> parse_members n d (skip_ws q) = Some (ms, z) \<Longrightarrow>
         parse_members (Suc n) d (CHR 0x22 # t) = Some ((k, v) # ms, z)"
  using assms by (simp_all add: parse_members.simps skip_ws_def is_ws_def)

lemma not_ws_simps [simp]:
  "\<not> is_ws CHR '']''" "\<not> is_ws CHR ''}''" "\<not> is_ws CHR '',''" "\<not> is_ws CHR '':''" "\<not> is_ws CHR 0x22"
  by (simp_all add: is_ws_def)

lemma skip_ws_Cons [simp]: "\<not> is_ws c \<Longrightarrow> skip_ws (c # s) = c # s"
  by (simp add: skip_ws_def)

lemma skip_ws_print_elems:
  assumes "style_ok nl col" "vs \<noteq> []" "list_all (json_ok dd) vs"
  shows "skip_ws (print_elems nl col d vs @ r) \<noteq> [] \<and>
         value_start (hd (skip_ws (print_elems nl col d vs @ r)))"
proof -
  obtain v ws where vs: "vs = v # ws" using assms(2) by (cases vs) auto
  have ok: "json_ok dd v" using assms(3) vs by simp
  show ?thesis
    using assms(1) json_print_start [OF ok, of nl col d] skip_ws_print [OF ok, of nl col d]
    by (simp add: vs skip_ws_append style_ok_def)
qed

lemma skip_ws_print_members:
  assumes "style_ok nl col" "ms \<noteq> []"
  shows "skip_ws (print_members nl col d ms @ r) \<noteq> [] \<and>
         hd (skip_ws (print_members nl col d ms @ r)) = CHR 0x22"
proof -
  obtain k v ws where "ms = (k, v) # ws" using assms(2) by (cases ms) auto
  then show ?thesis
    using assms(1) by (simp add: skip_ws_append style_ok_def json_quote_def)
qed

text \<open>One element and one member of the printed text, given how the value and the rest are read.\<close>

lemma parse_elems_Cons:
  assumes style: "style_ok nl col" and ok: "json_ok dd v"
    and len: "2 * length (print_elems nl col d (v # vs) @ nl e @ CHR '']'' # r) + 1 < Suc m"
    and val: "\<And>R. number_stop R \<Longrightarrow> 2 * length (json_print nl col d v @ R) < m \<Longrightarrow>
      parse_value m dd (json_print nl col d v @ R) = Some (v, R)"
    and rest: "vs \<noteq> [] \<Longrightarrow> parse_elems m dd (skip_ws (print_elems nl col d vs @ nl e @ CHR '']'' # r)) = Some (vs, r)"
  shows "parse_elems (Suc m) dd (skip_ws (print_elems nl col d (v # vs) @ nl e @ CHR '']'' # r)) = Some (v # vs, r)"
proof -
  have nl: "list_all is_ws (nl x)" for x using style by (simp add: style_ok_def)
  let ?x = "print_elems nl col d vs @ nl e @ CHR '']'' # r"
  let ?R = "if vs = [] then nl e @ CHR '']'' # r else CHR '','' # ?x"
  have shape: "skip_ws (print_elems nl col d (v # vs) @ nl e @ CHR '']'' # r) = json_print nl col d v @ ?R"
    using skip_ws_print [OF ok, of nl col d] nl by (simp add: skip_ws_append)
  have "number_stop ?R" using nl by (simp add: number_stop_ws)
  then have pv: "parse_value m dd (json_print nl col d v @ ?R) = Some (v, ?R)"
    using len by (intro val) (simp_all split: if_splits)
  show ?thesis
  proof (cases "vs = []")
    case True
    with pv shape nl parse_elems_step(1) [OF pv, of r] show ?thesis by (simp add: skip_ws_append)
  next
    case False
    with rest pv shape parse_elems_step(2) [OF pv] show ?thesis by simp
  qed
qed

lemma parse_members_Cons:
  assumes style: "style_ok nl col" and ok: "utf8_valid k" "json_ok dd v"
    and len: "2 * length (print_members nl col d ((k, v) # ms) @ nl e @ CHR ''}'' # r) + 1 < Suc m"
    and val: "\<And>R. number_stop R \<Longrightarrow> 2 * length (json_print nl col d v @ R) < m \<Longrightarrow>
      parse_value m dd (json_print nl col d v @ R) = Some (v, R)"
    and rest: "ms \<noteq> [] \<Longrightarrow> parse_members m dd (skip_ws (print_members nl col d ms @ nl e @ CHR ''}'' # r)) = Some (ms, r)"
  shows "parse_members (Suc m) dd (skip_ws (print_members nl col d ((k, v) # ms) @ nl e @ CHR ''}'' # r)) =
    Some ((k, v) # ms, r)"
proof -
  have nl: "list_all is_ws (nl x)" "list_all is_ws col" for x using style by (simp_all add: style_ok_def)
  let ?x = "print_members nl col d ms @ nl e @ CHR ''}'' # r"
  let ?R = "if ms = [] then nl e @ CHR ''}'' # r else CHR '','' # ?x"
  let ?V = "col @ json_print nl col d v @ ?R"
  have shape: "skip_ws (print_members nl col d ((k, v) # ms) @ nl e @ CHR ''}'' # r)
      = CHR 0x22 # quote_body k @ CHR 0x22 # CHR '':'' # ?V"
    using nl by (simp add: skip_ws_append json_quote_def)
  have str: "parse_string (quote_body k @ CHR 0x22 # CHR '':'' # ?V) = Some (k, CHR '':'' # ?V)"
    by (rule parse_string_quote_body [OF ok(1)])
  have "number_stop ?R" using nl by (simp add: number_stop_ws)
  then have "parse_value m dd (json_print nl col d v @ ?R) = Some (v, ?R)"
    using len by (intro val) (simp_all split: if_splits)
  then have pv: "parse_value m dd (skip_ws ?V) = Some (v, ?R)"
    using nl skip_ws_print [OF ok(2), of nl col d ?R] by (simp add: skip_ws_append)
  show ?thesis
  proof (cases "ms = []")
    case True
    with shape nl parse_members_step(1) [OF str pv, of r] show ?thesis by (simp add: skip_ws_append)
  next
    case False
    with rest shape parse_members_step(2) [OF str pv] show ?thesis by simp
  qed
qed

lemma parse_arr:
  assumes "style_ok nl col" "json_ok dd (JArr vs)"
    and "vs \<noteq> [] \<Longrightarrow>
      parse_elems m (dd - 1) (skip_ws (print_elems nl col (Suc d) vs @ nl d @ CHR '']'' # r)) = Some (vs, r)"
  shows "parse_value (Suc m) dd (json_print nl col d (JArr vs) @ r) = Some (JArr vs, r)"
proof (cases "vs = []")
  case True
  with assms(2) show ?thesis by (simp add: parse_value.simps)
next
  case False
  let ?t = "print_elems nl col (Suc d) vs @ nl d @ CHR '']'' # r"
  have "list_all (json_ok (dd - 1)) vs" using assms(2) by simp
  then have "skip_ws ?t \<noteq> []" "hd (skip_ws ?t) \<noteq> CHR '']''"
    using skip_ws_print_elems [OF assms(1) False] value_start_not by blast+
  then show ?thesis using assms(2) assms(3) [OF False] False by (simp add: parse_value.simps)
qed

lemma parse_obj:
  assumes "style_ok nl col" "json_ok dd (JObj ms)"
    and "ms \<noteq> [] \<Longrightarrow>
      parse_members m (dd - 1) (skip_ws (print_members nl col (Suc d) ms @ nl d @ CHR ''}'' # r)) = Some (ms, r)"
  shows "parse_value (Suc m) dd (json_print nl col d (JObj ms) @ r) = Some (JObj ms, r)"
proof (cases "ms = []")
  case True
  with assms(2) show ?thesis by (simp add: parse_value.simps)
next
  case False
  let ?t = "print_members nl col (Suc d) ms @ nl d @ CHR ''}'' # r"
  have "skip_ws ?t \<noteq> []" "hd (skip_ws ?t) \<noteq> CHR ''}''"
    using skip_ws_print_members [OF assms(1) False, of "Suc d" "nl d @ CHR ''}'' # r"] by auto
  then show ?thesis using assms(2) assms(3) [OF False] False by (simp add: parse_value.simps)
qed

lemma parse_print:
  assumes style: "style_ok nl col"
  shows "json_ok dd v \<Longrightarrow> number_stop r \<Longrightarrow> 2 * length (json_print nl col d v @ r) < n \<Longrightarrow>
         parse_value n dd (json_print nl col d v @ r) = Some (v, r)"
    and "vs \<noteq> [] \<Longrightarrow> list_all (json_ok dd) vs \<Longrightarrow>
         2 * length (print_elems nl col d vs @ nl e @ CHR '']'' # r) + 1 < n \<Longrightarrow>
         parse_elems n dd (skip_ws (print_elems nl col d vs @ nl e @ CHR '']'' # r)) = Some (vs, r)"
    and "ms \<noteq> [] \<Longrightarrow> list_all (\<lambda>(k, v). utf8_valid k \<and> json_ok dd v) ms \<Longrightarrow>
         2 * length (print_members nl col d ms @ nl e @ CHR ''}'' # r) + 1 < n \<Longrightarrow>
         parse_members n dd (skip_ws (print_members nl col d ms @ nl e @ CHR ''}'' # r)) = Some (ms, r)"
  using style
proof (induction nl col d v and nl col d vs and nl col d ms arbitrary: dd r n and dd r n e and dd r n e
       rule: json_print_print_elems_print_members.induct)
  case (1 nl col d)
  then show ?case by (cases n) simp_all
next
  case (2 nl col d b)
  then show ?case by (cases n) simp_all
next
  case (3 nl col d lit)
  then show ?case by (cases n) (simp_all add: parse_value_num)
next
  case (4 nl col d s)
  then show ?case by (cases n) (simp_all add: parse_value_str)
next
  case (5 nl col d vs)
  then obtain m where n: "n = Suc m" by (cases n) auto
  with 5 show ?case unfolding n by (intro parse_arr "5.IH") simp_all
next
  case (6 nl col d ms)
  then obtain m where n: "n = Suc m" by (cases n) auto
  with 6 show ?case unfolding n by (intro parse_obj "6.IH") simp_all
next
  case (7 nl col d)
  then show ?case by simp
next
  case (8 nl col d v vs)
  then obtain m where n: "n = Suc m" by (cases n) auto
  show ?case unfolding n
  proof (rule parse_elems_Cons [OF 8(6)])
    show "vs \<noteq> [] \<Longrightarrow> parse_elems m dd (skip_ws (print_elems nl col d vs @ nl e @ CHR '']'' # r)) = Some (vs, r)"
      using 8 n by (intro "8.IH"(2)) simp_all
  qed (use 8 n in \<open>simp_all add: "8.IH"(1)\<close>)
next
  case (9 nl col d)
  then show ?case by simp
next
  case (10 nl col d k v ms)
  then obtain m where n: "n = Suc m" by (cases n) auto
  show ?case unfolding n
  proof (rule parse_members_Cons [OF 10(6)])
    show "ms \<noteq> [] \<Longrightarrow> parse_members m dd (skip_ws (print_members nl col d ms @ nl e @ CHR ''}'' # r)) = Some (ms, r)"
      using 10 n by (intro "10.IH"(2)) simp_all
  qed (use 10 n in \<open>simp_all add: "10.IH"(1)\<close>)
qed

lemma style_ok_compact: "style_ok (\<lambda>_. []) []"
  by (simp add: style_ok_def)

lemma style_ok_indent: "style_ok (\<lambda>d. CHR 0x0A # replicate (2 * d) (CHR '' '')) '' ''"
  by (simp add: style_ok_def is_ws_def list_all_iff)

lemma parse_print_top:
  assumes "style_ok nl col" "json_ok maxNestingDepth v" "list_all is_ws r"
  shows "json_decode_first (json_print nl col 0 v @ r) = Inr v"
    and "json_decode_all (json_print nl col 0 v @ r) = Inr v"
proof -
  let ?s = "json_print nl col 0 v @ r"
  have "number_stop r" using number_stop_ws [OF assms(3), of "[]"] by simp
  then have "parse_value (json_fuel ?s) maxNestingDepth ?s = Some (v, r)"
    using parse_print(1) [OF assms(1,2)] by (simp add: json_fuel_def)
  moreover have "skip_ws r = []" using skip_ws_append [OF assms(3), of "[]"] by (simp add: skip_ws_def)
  ultimately show "json_decode_first ?s = Inr v" "json_decode_all ?s = Inr v"
    using skip_ws_print [OF assms(2)] by (simp_all add: json_decode_first_def json_decode_all_def)
qed

lemma decode_compact:
  assumes "json_ok maxNestingDepth v"
  shows "json_decode_first (json_compact v) = Inr v" "json_decode_all (json_compact v) = Inr v"
  using parse_print_top [OF style_ok_compact assms, of "[]"] by (simp_all add: json_compact_def)

lemma decode_indent:
  assumes "json_ok maxNestingDepth v"
  shows "json_decode_all (json_indent v) = Inr v"
  using parse_print_top(2) [OF style_ok_indent assms, of "[CHR 0x0A]"]
  by (simp add: json_indent_def is_ws_def)

end
