(* ===== verification/Codec.thy ===== *)
theory Codec
  imports Model Json_Print
begin

text \<open>
  How \<open>encoding/json\<close> maps \<open>model.Metrics\<close> to JSON and back, by the struct tags of
  \<open>internal/model/metrics.go\<close>: field names match without regard to case, unknown fields
  are skipped, a null leaves a string alone and clears a pointer, absent pointers are
  omitted, and a NaN or an infinity cannot be encoded. The decimal text of a \<open>float64\<close>
  is a parameter: the record of the \<open>strconv\<close> functions for floats.
\<close>

section \<open>Floating-point text\<close>

text \<open>
  \<open>ParseFloat(s, 64)\<close>, \<open>FormatFloat(x, 'f', -1, 64)\<close> and the form \<open>encoding/json\<close>
  prints, as functions of the bit pattern.
\<close>

record float_codec =
  ParseFloat :: "string \<Rightarrow> float64 result"
  FormatFloat :: "float64 \<Rightarrow> string"
  JsonFloat :: "float64 \<Rightarrow> string"

text \<open>
  The documented behaviour of the shortest formatting: reading back what was formatted
  gives the same float, and the JSON form is a JSON number.
\<close>

definition float_codec_ok :: "float_codec \<Rightarrow> bool" where
  "float_codec_ok fc \<longleftrightarrow>
     (\<forall>x. is_finite_float x \<longrightarrow>
        ParseFloat fc (FormatFloat fc x) = Inr x \<and>
        ParseFloat fc (JsonFloat fc x) = Inr x \<and> json_number (JsonFloat fc x))"

text \<open>An instance with the law: the bit pattern in decimal, for concrete evaluations.\<close>

definition bits_codec :: float_codec where
  "bits_codec = \<lparr>ParseFloat = parse_int, FormatFloat = format_int, JsonFloat = format_int\<rparr>"

lemma bits_codec_ok: "float_codec_ok bits_codec"
  by (simp add: float_codec_ok_def bits_codec_def parse_int_format_int json_number_format_int)

section \<open>Encoding\<close>

definition float_field_ok :: "metrics \<Rightarrow> bool" where
  "float_field_ok m \<longleftrightarrow> (case Value m of None \<Rightarrow> True | Some x \<Rightarrow> is_finite_float x)"

definition metrics_json :: "float_codec \<Rightarrow> metrics \<Rightarrow> json" where
  "metrics_json fc m =
     JObj ([(''id'', JStr (ID m)), (''type'', JStr (MType m))] @
           (case Delta m of None \<Rightarrow> [] | Some d \<Rightarrow> [(''delta'', JNum (format_int d))]) @
           (case Value m of None \<Rightarrow> [] | Some x \<Rightarrow> [(''value'', JNum (JsonFloat fc x))]) @
           (if Hash m = [] then [] else [(''hash'', JStr (Hash m))]))"

definition encode_metrics :: "float_codec \<Rightarrow> metrics \<Rightarrow> json result" where
  "encode_metrics fc m =
     (if float_field_ok m then Inr (metrics_json fc m) else Inl (ErrText ''json: unsupported value''))"

definition encode_list :: "float_codec \<Rightarrow> metrics list \<Rightarrow> json result" where
  "encode_list fc ms = rbind (map_result (encode_metrics fc) ms) (\<lambda>vs. Inr (JArr vs))"

text \<open>\<open>json.Marshal\<close> of one metric and of a slice, and \<open>Encode\<close> (one line, then a newline).\<close>

definition marshal_metrics :: "float_codec \<Rightarrow> metrics \<Rightarrow> bytes result" where
  "marshal_metrics fc m = rbind (encode_metrics fc m) (\<lambda>v. Inr (json_compact v))"

definition marshal_list :: "float_codec \<Rightarrow> metrics list \<Rightarrow> bytes result" where
  "marshal_list fc ms = rbind (encode_list fc ms) (\<lambda>v. Inr (json_compact v))"

definition encoder_encode :: "float_codec \<Rightarrow> metrics \<Rightarrow> bytes result" where
  "encoder_encode fc m = rbind (encode_metrics fc m) (\<lambda>v. Inr (json_compact v @ [CHR 0x0A]))"

section \<open>Decoding\<close>

text \<open>
  Field names are compared after simple case folding; the long s (C5 BF) folds to an s
  and the Kelvin sign (E2 84 AA) to a k.
\<close>

fun fold_name :: "bytes \<Rightarrow> bytes" where
  "fold_name [] = []"
| "fold_name (a # s) =
     (case s of
        b # t \<Rightarrow>
          if a = CHR 0xC5 \<and> b = CHR 0xBF then CHR ''s'' # fold_name t
          else if a = CHR 0xE2 \<and> b = CHR 0x84 \<and> t \<noteq> [] \<and> hd t = CHR 0xAA
          then CHR ''k'' # fold_name (tl t)
          else lower_char a # fold_name s
      | [] \<Rightarrow> [lower_char a])"

definition type_error :: "'a result" where
  "type_error = Inl (ErrText ''json: cannot unmarshal'')"

definition decode_string :: "json \<Rightarrow> string \<Rightarrow> string result" where
  "decode_string v old = (case v of JStr s \<Rightarrow> Inr s | JNull \<Rightarrow> Inr old | _ \<Rightarrow> type_error)"

definition decode_int_ptr :: "json \<Rightarrow> int64 option result" where
  "decode_int_ptr v =
     (case v of JNull \<Rightarrow> Inr None
      | JNum lit \<Rightarrow> (case parse_int lit of Inl e \<Rightarrow> type_error | Inr i \<Rightarrow> Inr (Some i))
      | _ \<Rightarrow> type_error)"

definition decode_float_ptr :: "float_codec \<Rightarrow> json \<Rightarrow> float64 option result" where
  "decode_float_ptr fc v =
     (case v of JNull \<Rightarrow> Inr None
      | JNum lit \<Rightarrow> (case ParseFloat fc lit of Inl e \<Rightarrow> type_error | Inr x \<Rightarrow> Inr (Some x))
      | _ \<Rightarrow> type_error)"

text \<open>
  One member of the object. The package keeps the first type error and goes on, and
  every caller drops the value when there is one, so the model stops at it.
\<close>

definition decode_member :: "float_codec \<Rightarrow> bytes \<Rightarrow> json \<Rightarrow> metrics \<Rightarrow> metrics result" where
  "decode_member fc k v m =
     (if fold_name k = ''id'' then rbind (decode_string v (ID m)) (\<lambda>s. Inr (m\<lparr>ID := s\<rparr>))
      else if fold_name k = ''type'' then rbind (decode_string v (MType m)) (\<lambda>s. Inr (m\<lparr>MType := s\<rparr>))
      else if fold_name k = ''delta'' then rbind (decode_int_ptr v) (\<lambda>d. Inr (m\<lparr>Delta := d\<rparr>))
      else if fold_name k = ''value'' then rbind (decode_float_ptr fc v) (\<lambda>x. Inr (m\<lparr>Value := x\<rparr>))
      else if fold_name k = ''hash'' then rbind (decode_string v (Hash m)) (\<lambda>s. Inr (m\<lparr>Hash := s\<rparr>))
      else Inr m)"

fun decode_members :: "float_codec \<Rightarrow> (bytes \<times> json) list \<Rightarrow> metrics \<Rightarrow> metrics result" where
  "decode_members fc [] m = Inr m"
| "decode_members fc ((k, v) # kvs) m = rbind (decode_member fc k v m) (decode_members fc kvs)"

text \<open>Into a struct, into a pointer to a struct, into slices of either.\<close>

definition decode_metrics :: "float_codec \<Rightarrow> json \<Rightarrow> metrics result" where
  "decode_metrics fc v =
     (case v of JNull \<Rightarrow> Inr zero_metrics
      | JObj kvs \<Rightarrow> decode_members fc kvs zero_metrics
      | _ \<Rightarrow> type_error)"

definition decode_metrics_ptr :: "float_codec \<Rightarrow> json \<Rightarrow> metrics option result" where
  "decode_metrics_ptr fc v =
     (if v = JNull then Inr None else rbind (decode_metrics fc v) (\<lambda>m. Inr (Some m)))"

definition decode_slice :: "(json \<Rightarrow> 'a result) \<Rightarrow> json \<Rightarrow> 'a list result" where
  "decode_slice f v =
     (case v of JNull \<Rightarrow> Inr [] | JArr vs \<Rightarrow> map_result f vs | _ \<Rightarrow> type_error)"

section \<open>Round trips\<close>

text \<open>Metrics whose text survives: UTF-8 strings and a finite value.\<close>

definition metrics_text_ok :: "metrics \<Rightarrow> bool" where
  "metrics_text_ok m \<longleftrightarrow>
     utf8_valid (ID m) \<and> utf8_valid (MType m) \<and> utf8_valid (Hash m) \<and> float_field_ok m"

lemma fold_name_lower: "list_all (byte_in 0x61 0x7A) s \<Longrightarrow> fold_name s = s"
proof (induction s)
  case Nil
  then show ?case by simp
next
  case (Cons a s)
  then have a: "a \<noteq> CHR 0xC5" "a \<noteq> CHR 0xE2" "lower_char a = a"
    by (auto simp: byte_in_def lower_char_def Let_def)
  with Cons show ?case by (cases s) auto
qed

lemma fold_name_fields [simp]:
  "fold_name ''id'' = ''id''" "fold_name ''type'' = ''type''" "fold_name ''delta'' = ''delta''"
  "fold_name ''value'' = ''value''" "fold_name ''hash'' = ''hash''"
  by (rule fold_name_lower, simp add: byte_in_def)+

declare fold_name.simps [simp del]

lemma utf8_valid_ascii: "list_all (byte_in 0 0x7F) s \<Longrightarrow> utf8_valid s"
proof (induction s)
  case Nil
  then show ?case by simp
next
  case (Cons c s)
  then have "utf8_len (c # s) = 1" by (simp add: utf8_len_def utf8_need_def utf8_conts_def)
  with Cons show ?case by (subst utf8_valid.simps) simp
qed

lemma utf8_valid_fields [simp]:
  "utf8_valid ''id''" "utf8_valid ''type''" "utf8_valid ''delta''" "utf8_valid ''value''"
  "utf8_valid ''hash''" "utf8_valid Counter" "utf8_valid Gauge"
  by (rule utf8_valid_ascii, simp add: byte_in_def Counter_def Gauge_def)+

lemma metrics_json_ok:
  assumes "float_codec_ok fc" "metrics_text_ok m" "0 < d"
  shows "json_ok d (metrics_json fc m)"
  using assms
  by (auto simp: metrics_json_def metrics_text_ok_def float_field_ok_def float_codec_ok_def
        json_number_format_int split: option.splits)

lemma decode_metrics_json:
  assumes "float_codec_ok fc" "float_field_ok m"
  shows "decode_metrics fc (metrics_json fc m) = Inr m"
proof -
  have "decode_members fc
      ([(''id'', JStr (ID m)), (''type'', JStr (MType m))] @
       (case Delta m of None \<Rightarrow> [] | Some d \<Rightarrow> [(''delta'', JNum (format_int d))]) @
       (case Value m of None \<Rightarrow> [] | Some x \<Rightarrow> [(''value'', JNum (JsonFloat fc x))]) @
       (if Hash m = [] then [] else [(''hash'', JStr (Hash m))])) zero_metrics = Inr m"
    using assms
    by (cases m) (auto simp: decode_member_def decode_string_def decode_int_ptr_def decode_float_ptr_def
          parse_int_format_int zero_metrics_def float_field_ok_def float_codec_ok_def split: option.splits)
  then show ?thesis by (simp add: decode_metrics_def metrics_json_def)
qed

lemma metrics_json_not_null [simp]: "metrics_json fc m \<noteq> JNull"
  by (simp add: metrics_json_def)

lemma encode_list_ok:
  assumes "list_all float_field_ok ms"
  shows "encode_list fc ms = Inr (JArr (map (metrics_json fc) ms))"
proof -
  have "map_result (encode_metrics fc) ms = Inr (map (metrics_json fc) ms)"
    using assms by (intro map_result_Inr) (simp add: encode_metrics_def list_all_iff)
  then show ?thesis by (simp add: encode_list_def)
qed

lemma json_ok_list:
  assumes "float_codec_ok fc" "list_all metrics_text_ok ms"
  shows "json_ok maxNestingDepth (JArr (map (metrics_json fc) ms))"
  using assms by (auto simp: list_all_iff maxNestingDepth_def intro: metrics_json_ok)

lemma decode_slice_list:
  assumes "float_codec_ok fc" "list_all float_field_ok ms"
  shows "decode_slice (decode_metrics fc) (JArr (map (metrics_json fc) ms)) = Inr ms"
    and "decode_slice (decode_metrics_ptr fc) (JArr (map (metrics_json fc) ms)) = Inr (map Some ms)"
proof -
  have d: "decode_metrics fc (metrics_json fc m) = Inr m" if "m \<in> set ms" for m
    using assms that by (intro decode_metrics_json) (auto simp: list_all_iff)
  have "map_result (decode_metrics fc) (map (metrics_json fc) ms) = Inr ms"
    using d by (induction ms) simp_all
  then show "decode_slice (decode_metrics fc) (JArr (map (metrics_json fc) ms)) = Inr ms"
    by (simp add: decode_slice_def)
  have "map_result (decode_metrics_ptr fc) (map (metrics_json fc) ms) = Inr (map Some ms)"
    using d by (induction ms) (simp_all add: decode_metrics_ptr_def)
  then show "decode_slice (decode_metrics_ptr fc) (JArr (map (metrics_json fc) ms)) = Inr (map Some ms)"
    by (simp add: decode_slice_def)
qed

lemma text_ok_float_ok: "list_all metrics_text_ok ms \<Longrightarrow> list_all float_field_ok ms"
  by (auto simp: list_all_iff metrics_text_ok_def)

text \<open>The agent's batch text is read back by the batch handler's decoder.\<close>

lemma marshal_list_decode:
  assumes "float_codec_ok fc" "list_all metrics_text_ok ms"
  obtains data where "marshal_list fc ms = Inr data"
    "rbind (json_decode_first data) (decode_slice (decode_metrics fc)) = Inr ms"
proof
  note ok = text_ok_float_ok [OF assms(2)]
  show "marshal_list fc ms = Inr (json_compact (JArr (map (metrics_json fc) ms)))"
    by (simp add: marshal_list_def encode_list_ok [OF ok])
  show "rbind (json_decode_first (json_compact (JArr (map (metrics_json fc) ms))))
          (decode_slice (decode_metrics fc)) = Inr ms"
    by (simp add: decode_compact(1) [OF json_ok_list [OF assms]] decode_slice_list(1) [OF assms(1) ok])
qed

end
