(* ===== verification/Config_Common.thy ===== *)
theory Config_Common
  imports Flags Codec
begin

text \<open>
  \<open>internal/config/common\<close>: the pieces the two configurations share. The environment is a
  function from variable names (\<open>os.LookupEnv\<close>), the disk a map from paths to contents.
\<close>

type_synonym environ = "string \<Rightarrow> string option"
type_synonym disk = "string \<rightharpoonup> bytes"

section \<open>Logger and build information\<close>

definition EnvLocal :: string where "EnvLocal = ''local''"
definition EnvProd :: string where "EnvProd = ''prod''"

datatype log_handler = JSONHandler | TextHandler

text \<open>Both handlers log from level Info on.\<close>

definition SetupLogger :: "string \<Rightarrow> log_handler" where
  "SetupLogger e = (if e = EnvProd then JSONHandler else TextHandler)"

definition orNA :: "string \<Rightarrow> string" where
  "orNA v = (if v = [] then ''N/A'' else v)"

definition PrintBuildInfo :: "string \<Rightarrow> string \<Rightarrow> string \<Rightarrow> string list" where
  "PrintBuildInfo version date commit =
     [''Build version: '' @ orNA version, ''Build date: '' @ orNA date, ''Build commit: '' @ orNA commit]"

section \<open>Assignment of optional fields\<close>

text \<open>\<open>Assign\<close> and \<open>AssignFunc\<close> return the new destination, the latter with its error.\<close>

definition Assign :: "'a \<Rightarrow> 'a option \<Rightarrow> 'a" where
  "Assign dest src = (case src of None \<Rightarrow> dest | Some v \<Rightarrow> v)"

definition AssignFunc :: "'d \<Rightarrow> 's option \<Rightarrow> ('s \<Rightarrow> 'd result) \<Rightarrow> 'd \<times> go_error option" where
  "AssignFunc dest src conv =
     (case src of None \<Rightarrow> (dest, None)
      | Some s \<Rightarrow> (case conv s of Inl e \<Rightarrow> (dest, Some e) | Inr v \<Rightarrow> (v, None)))"

definition errors_join :: "go_error option list \<Rightarrow> go_error option" where
  "errors_join es =
     (case concat (map (\<lambda>e. case e of None \<Rightarrow> [] | Some x \<Rightarrow> [x]) es) of
        [] \<Rightarrow> None | xs \<Rightarrow> Some (ErrJoin xs))"

lemma errors_join_None_iff: "errors_join es = None \<longleftrightarrow> (\<forall>e \<in> set es. e = None)"
  by (induction es) (auto simp: errors_join_def split: option.splits list.splits)

section \<open>Configuration file\<close>

definition ResolveConfigPath :: "environ \<Rightarrow> string \<Rightarrow> string" where
  "ResolveConfigPath env flagPath =
     (case env ''CONFIG'' of Some v \<Rightarrow> if v \<noteq> [] then v else flagPath | None \<Rightarrow> flagPath)"

definition LoadJSON :: "disk \<Rightarrow> string \<Rightarrow> json result" where
  "LoadJSON files path =
     (case files path of
        None \<Rightarrow> Inl (ErrWrap ''read config file'' (ErrText path))
      | Some data \<Rightarrow> wrap_err ''parse config file'' (json_decode_all data))"

text \<open>Pointer fields of a JSON object: null leaves the field nil.\<close>

definition decode_str_ptr :: "json \<Rightarrow> string option result" where
  "decode_str_ptr v = (case v of JNull \<Rightarrow> Inr None | JStr s \<Rightarrow> Inr (Some s) | _ \<Rightarrow> type_error)"

definition decode_bool_ptr :: "json \<Rightarrow> bool option result" where
  "decode_bool_ptr v = (case v of JNull \<Rightarrow> Inr None | JBool b \<Rightarrow> Inr (Some b) | _ \<Rightarrow> type_error)"

text \<open>Fields of a JSON object by tag, the last member of a name winning.\<close>

fun decode_object ::
  "(bytes \<Rightarrow> json \<Rightarrow> 'c \<Rightarrow> 'c result) \<Rightarrow> (bytes \<times> json) list \<Rightarrow> 'c \<Rightarrow> 'c result" where
  "decode_object f [] c = Inr c"
| "decode_object f ((k, v) # kvs) c = rbind (f (fold_name k) v c) (decode_object f kvs)"

definition decode_struct ::
  "(bytes \<Rightarrow> json \<Rightarrow> 'c \<Rightarrow> 'c result) \<Rightarrow> 'c \<Rightarrow> json \<Rightarrow> 'c result" where
  "decode_struct f zero v =
     (case v of JNull \<Rightarrow> Inr zero | JObj kvs \<Rightarrow> decode_object f kvs zero | _ \<Rightarrow> type_error)"

section \<open>Intervals\<close>

text \<open>A duration in whole seconds, truncated towards zero, or a plain integer.\<close>

definition trunc_div :: "int \<Rightarrow> int \<Rightarrow> int" where
  "trunc_div a b = sgn a * sgn b * (\<bar>a\<bar> div \<bar>b\<bar>)"

definition ParseIntervalSeconds :: "(nat \<Rightarrow> nat \<Rightarrow> nat \<Rightarrow> nat) \<Rightarrow> string \<Rightarrow> int result" where
  "ParseIntervalSeconds frac s =
     (if s = [] then Inl (ErrText ''empty duration'')
      else case ParseDuration frac s of
             Inr d \<Rightarrow> Inr (trunc_div d time_Second)
           | Inl _ \<Rightarrow> (case parse_int s of Inr n \<Rightarrow> Inr (sint n) | Inl _ \<Rightarrow> Inl (ErrText ''invalid duration'')))"

section \<open>Flag bindings\<close>

text \<open>
  A binding registers a flag with its default and remembers how to write the parsed
  value to the configuration. \<open>Apply\<close> writes those of the actual flags only, in
  lexicographic order as \<open>Visit\<close> does.
\<close>

record 'c binding =
  bname :: string
  bdefault :: flag_val
  bset :: "flag_val \<Rightarrow> 'c \<Rightarrow> 'c"

definition bind_string :: "string \<Rightarrow> string \<Rightarrow> (string \<Rightarrow> 'c \<Rightarrow> 'c) \<Rightarrow> 'c binding" where
  "bind_string n v f =
     \<lparr>bname = n, bdefault = FString v, bset = (\<lambda>x c. case x of FString s \<Rightarrow> f s c | _ \<Rightarrow> c)\<rparr>"

definition bind_int :: "string \<Rightarrow> int \<Rightarrow> (int \<Rightarrow> 'c \<Rightarrow> 'c) \<Rightarrow> 'c binding" where
  "bind_int n v f =
     \<lparr>bname = n, bdefault = FInt (word_of_int v), bset = (\<lambda>x c. case x of FInt i \<Rightarrow> f (sint i) c | _ \<Rightarrow> c)\<rparr>"

definition bind_bool :: "string \<Rightarrow> bool \<Rightarrow> (bool \<Rightarrow> 'c \<Rightarrow> 'c) \<Rightarrow> 'c binding" where
  "bind_bool n v f =
     \<lparr>bname = n, bdefault = FBool v, bset = (\<lambda>x c. case x of FBool b \<Rightarrow> f b c | _ \<Rightarrow> c)\<rparr>"

definition bind_duration :: "string \<Rightarrow> duration \<Rightarrow> (duration \<Rightarrow> 'c \<Rightarrow> 'c) \<Rightarrow> 'c binding" where
  "bind_duration n v f =
     \<lparr>bname = n, bdefault = FDuration v, bset = (\<lambda>x c. case x of FDuration d \<Rightarrow> f d c | _ \<Rightarrow> c)\<rparr>"

lemmas binding_defs = bind_string_def bind_int_def bind_bool_def bind_duration_def

text \<open>The flag set of the bindings, with the two names of the configuration path.\<close>

definition register_flags :: "'c binding list \<Rightarrow> flag_state" where
  "register_flags bs =
     \<lparr>formal = (map_of (map (\<lambda>b. (bname b, bdefault b)) bs))
                 (''c'' \<mapsto> FString [], ''config'' \<mapsto> FString []),
      actual = [], assigned = []\<rparr>"

definition config_path :: "flag_state \<Rightarrow> string" where
  "config_path fs =
     (case filter (\<lambda>(n, v). n = ''c'' \<or> n = ''config'') (assigned fs) of
        [] \<Rightarrow> []
      | xs \<Rightarrow> (case snd (last xs) of FString p \<Rightarrow> p | _ \<Rightarrow> []))"

definition binding_for :: "'c binding list \<Rightarrow> string \<Rightarrow> 'c binding option" where
  "binding_for bs n = find (\<lambda>b. bname b = n) bs"

definition apply_flag :: "'c binding list \<Rightarrow> flag_state \<Rightarrow> string \<Rightarrow> 'c \<Rightarrow> 'c" where
  "apply_flag bs fs n c =
     (case binding_for bs n of None \<Rightarrow> c
      | Some b \<Rightarrow> (case formal fs n of None \<Rightarrow> c | Some v \<Rightarrow> bset b v c))"

definition ApplyVisited :: "'c binding list \<Rightarrow> flag_state \<Rightarrow> 'c \<Rightarrow> 'c" where
  "ApplyVisited bs fs c = fold (apply_flag bs fs) (sort (actual fs)) c"

definition VisitedFlags :: "flag_state \<Rightarrow> string set" where
  "VisitedFlags fs = set (actual fs)"

definition FlagPassed :: "string set \<Rightarrow> string list \<Rightarrow> bool" where
  "FlagPassed visited names \<longleftrightarrow> list_ex (\<lambda>n. n \<in> visited) names"

text \<open>
  A field that only the flag \<open>n\<close> writes keeps its value unless that flag was passed, and
  then has the value the flag set gave it, whatever the order of the others.
\<close>

lemma ApplyVisited_field:
  assumes own: "\<And>m v c. m \<noteq> n \<Longrightarrow> get (apply_flag bs fs m c) = get c"
    and set: "\<And>c. get (apply_flag bs fs n c) = x"
  shows "get (ApplyVisited bs fs c) = (if n \<in> VisitedFlags fs then x else get c)"
proof -
  have "get (fold (apply_flag bs fs) ns c) = (if n \<in> set ns then x else get c)" for ns
  proof (induction ns arbitrary: c)
    case Nil
    then show ?case by simp
  next
    case (Cons m ns)
    then show ?case by (cases "m = n") (auto simp: own set)
  qed
  from this [of "sort (actual fs)"] show ?thesis
    by (simp add: ApplyVisited_def VisitedFlags_def)
qed

lemma binding_for_name: "binding_for bs n = Some b \<Longrightarrow> b \<in> set bs \<and> bname b = n"
  by (auto simp: binding_for_def find_Some_iff)

text \<open>The value a string flag gives when it was passed.\<close>

definition flag_string :: "flag_state \<Rightarrow> string \<Rightarrow> string \<Rightarrow> string" where
  "flag_string fs n old =
     (if n \<in> VisitedFlags fs then (case formal fs n of Some (FString s) \<Rightarrow> s | _ \<Rightarrow> old) else old)"

text \<open>
  The flag \<open>n\<close> owns a string field: its binding writes it, and no other binding does.
\<close>

definition owns_string :: "'c binding list \<Rightarrow> string \<Rightarrow> ('c \<Rightarrow> string) \<Rightarrow> bool" where
  "owns_string bs n get \<longleftrightarrow>
     n \<noteq> ''c'' \<and> n \<noteq> ''config'' \<and>
     (case binding_for bs n of None \<Rightarrow> False
      | Some b \<Rightarrow> same_kind (FString []) (bdefault b) \<and> (\<forall>x c. get (bset b (FString x) c) = x)) \<and>
     (\<forall>b \<in> set bs. \<forall>v c. bname b \<noteq> n \<longrightarrow> get (bset b v c) = get c)"

lemma register_flags_binding:
  "n \<noteq> ''c'' \<Longrightarrow> n \<noteq> ''config'' \<Longrightarrow>
   formal (register_flags bs) n = map_option bdefault (binding_for bs n)"
proof -
  have "map_of (map (\<lambda>b. (bname b, bdefault b)) bs) n = map_option bdefault (binding_for bs n)"
    by (induction bs) (simp_all add: binding_for_def)
  then show "n \<noteq> ''c'' \<Longrightarrow> n \<noteq> ''config'' \<Longrightarrow> ?thesis"
    by (simp add: register_flags_def)
qed

lemma parsed_flag_string:
  assumes fs: "flag_parse frac args (register_flags bs) = Inr fs" and own: "owns_string bs n get"
  shows "get (ApplyVisited bs fs c) = flag_string fs n (get c)"
proof -
  from own obtain b where b: "binding_for bs n = Some b" "same_kind (FString []) (bdefault b)"
      "\<And>x c. get (bset b (FString x) c) = x"
    and other: "\<And>b v c. b \<in> set bs \<Longrightarrow> bname b \<noteq> n \<Longrightarrow> get (bset b v c) = get c"
    by (auto simp: owns_string_def split: option.splits)
  have "formal (register_flags bs) n = Some (bdefault b)"
    using own b by (simp add: owns_string_def register_flags_binding)
  from flag_parse_kind [OF fs this] same_kind_trans [OF b(2)]
  obtain v where v: "formal fs n = Some v" "same_kind (FString []) v" by blast
  then obtain s where s: "v = FString s" by (cases v) (simp_all add: same_kind_def)
  have "get (ApplyVisited bs fs c) = (if n \<in> VisitedFlags fs then s else get c)"
  proof (rule ApplyVisited_field)
    show "get (apply_flag bs fs m c) = get c" if "m \<noteq> n" for m c
      using that by (auto simp: apply_flag_def other binding_for_name split: option.splits)
    show "get (apply_flag bs fs n c) = s" for c
      by (simp add: apply_flag_def b v s)
  qed
  then show ?thesis by (simp add: flag_string_def v s)
qed

section \<open>Environment overlay\<close>

text \<open>
  The configuration structs are filled from the environment by the \<open>env\<close> package: a
  parameter of the model. A tag table lists the string fields of a configuration with the
  variable of their tag. The documented behaviour relied on: a string field takes the value
  of its variable when that is set and not empty, and keeps its value otherwise.
\<close>

type_synonym 'c env_tag = "string \<times> ('c \<Rightarrow> string) \<times> (string \<Rightarrow> 'c \<Rightarrow> 'c)"

definition env_string :: "string option \<Rightarrow> string \<Rightarrow> string" where
  "env_string v old = (case v of None \<Rightarrow> old | Some s \<Rightarrow> if s = [] then old else s)"

definition env_strings_law :: "'c env_tag list \<Rightarrow> (environ \<Rightarrow> 'c \<Rightarrow> 'c result) \<Rightarrow> bool" where
  "env_strings_law tags envp \<longleftrightarrow>
     (\<forall>env c c'. envp env c = Inr c' \<longrightarrow>
        list_all (\<lambda>(v, get, set). get c' = env_string (env v) (get c)) tags)"

definition env_reference :: "'c env_tag list \<Rightarrow> environ \<Rightarrow> 'c \<Rightarrow> 'c result" where
  "env_reference tags env c =
     Inr (fold (\<lambda>(v, get, set) c. set (env_string (env v) (get c)) c) tags c)"

section \<open>Signals\<close>

datatype signal = SIGINT | SIGTERM | SIGQUIT

definition ShutdownSignals_unix :: "signal list" where
  "ShutdownSignals_unix = [SIGINT, SIGTERM, SIGQUIT]"

definition ShutdownSignals_windows :: "signal list" where
  "ShutdownSignals_windows = [SIGINT, SIGTERM]"

end
