(* ===== verification/Config_Server.thy ===== *)
theory Config_Server
  imports Config_Common Database
begin

text \<open>
  \<open>internal/config/server\<close>: the server's configuration and its layers, defaults, then the
  JSON file, then the command line, then the environment.
\<close>

record http_server_config =
  hs_Address :: string
  hs_ReadTimeout :: duration
  hs_WriteTimeout :: duration
  hs_IdleTimeout :: duration

record server_config =
  sv_Env :: string
  sv_HTTPServer :: http_server_config
  sv_Database :: db_config
  sv_StoreInterval :: int
  sv_FileStoragePath :: string
  sv_Restore :: bool
  sv_DatabaseDSN :: string
  sv_Key :: string
  sv_CryptoKey :: string
  sv_AuditFile :: string
  sv_AuditURL :: string
  sv_TrustedSubnet :: string
  sv_GRPCAddress :: string
  sv_GRPCCert :: string
  sv_GRPCKey :: string

definition server_defaults :: server_config where
  "server_defaults =
     \<lparr>sv_Env = EnvLocal,
      sv_HTTPServer = \<lparr>hs_Address = ''localhost:8080'', hs_ReadTimeout = 10 * time_Second,
                       hs_WriteTimeout = 10 * time_Second, hs_IdleTimeout = 60 * time_Second\<rparr>,
      sv_Database = DefaultConfig,
      sv_StoreInterval = 300,
      sv_FileStoragePath = ''./tmp/data'',
      sv_Restore = False,
      sv_DatabaseDSN = [], sv_Key = [], sv_CryptoKey = [], sv_AuditFile = [], sv_AuditURL = [],
      sv_TrustedSubnet = [], sv_GRPCAddress = [], sv_GRPCCert = [], sv_GRPCKey = []\<rparr>"

text \<open>Updates of the nested structs.\<close>

definition set_address :: "string \<Rightarrow> server_config \<Rightarrow> server_config" where
  "set_address a c = c\<lparr>sv_HTTPServer := (sv_HTTPServer c)\<lparr>hs_Address := a\<rparr>\<rparr>"

definition get_address :: "server_config \<Rightarrow> string" where
  "get_address c = hs_Address (sv_HTTPServer c)"

definition set_db :: "(db_config \<Rightarrow> db_config) \<Rightarrow> server_config \<Rightarrow> server_config" where
  "set_db f c = c\<lparr>sv_Database := f (sv_Database c)\<rparr>"

lemmas nested_defs = set_address_def get_address_def set_db_def

section \<open>File\<close>

record server_file =
  sf_Address :: "string option"
  sf_Restore :: "bool option"
  sf_StoreInterval :: "string option"
  sf_StoreFile :: "string option"
  sf_DatabaseDSN :: "string option"
  sf_CryptoKey :: "string option"
  sf_Key :: "string option"
  sf_AuditFile :: "string option"
  sf_AuditURL :: "string option"
  sf_TrustedSubnet :: "string option"
  sf_GRPCAddress :: "string option"
  sf_GRPCCert :: "string option"
  sf_GRPCKey :: "string option"
  sf_MaxOpenConns :: "int64 option"
  sf_MaxIdleConns :: "int64 option"
  sf_ConnMaxIdleTime :: "string option"
  sf_ConnMaxLifetime :: "string option"
  sf_PingTimeout :: "string option"

definition empty_server_file :: server_file where
  "empty_server_file =
     \<lparr>sf_Address = None, sf_Restore = None, sf_StoreInterval = None, sf_StoreFile = None,
      sf_DatabaseDSN = None, sf_CryptoKey = None, sf_Key = None, sf_AuditFile = None,
      sf_AuditURL = None, sf_TrustedSubnet = None, sf_GRPCAddress = None, sf_GRPCCert = None,
      sf_GRPCKey = None, sf_MaxOpenConns = None, sf_MaxIdleConns = None,
      sf_ConnMaxIdleTime = None, sf_ConnMaxLifetime = None, sf_PingTimeout = None\<rparr>"

text \<open>The members by their tags.\<close>

definition server_file_member :: "bytes \<Rightarrow> json \<Rightarrow> server_file \<Rightarrow> server_file result" where
  "server_file_member k v f =
     (if k = ''address'' then rbind (decode_str_ptr v) (\<lambda>x. Inr (f\<lparr>sf_Address := x\<rparr>))
      else if k = ''restore'' then rbind (decode_bool_ptr v) (\<lambda>x. Inr (f\<lparr>sf_Restore := x\<rparr>))
      else if k = ''store_interval'' then rbind (decode_str_ptr v) (\<lambda>x. Inr (f\<lparr>sf_StoreInterval := x\<rparr>))
      else if k = ''store_file'' then rbind (decode_str_ptr v) (\<lambda>x. Inr (f\<lparr>sf_StoreFile := x\<rparr>))
      else if k = ''database_dsn'' then rbind (decode_str_ptr v) (\<lambda>x. Inr (f\<lparr>sf_DatabaseDSN := x\<rparr>))
      else if k = ''crypto_key'' then rbind (decode_str_ptr v) (\<lambda>x. Inr (f\<lparr>sf_CryptoKey := x\<rparr>))
      else if k = ''key'' then rbind (decode_str_ptr v) (\<lambda>x. Inr (f\<lparr>sf_Key := x\<rparr>))
      else if k = ''audit_file'' then rbind (decode_str_ptr v) (\<lambda>x. Inr (f\<lparr>sf_AuditFile := x\<rparr>))
      else if k = ''audit_url'' then rbind (decode_str_ptr v) (\<lambda>x. Inr (f\<lparr>sf_AuditURL := x\<rparr>))
      else if k = ''trusted_subnet'' then rbind (decode_str_ptr v) (\<lambda>x. Inr (f\<lparr>sf_TrustedSubnet := x\<rparr>))
      else if k = ''grpc_address'' then rbind (decode_str_ptr v) (\<lambda>x. Inr (f\<lparr>sf_GRPCAddress := x\<rparr>))
      else if k = ''grpc_cert'' then rbind (decode_str_ptr v) (\<lambda>x. Inr (f\<lparr>sf_GRPCCert := x\<rparr>))
      else if k = ''grpc_key'' then rbind (decode_str_ptr v) (\<lambda>x. Inr (f\<lparr>sf_GRPCKey := x\<rparr>))
      else if k = ''database_max_open_conns'' then rbind (decode_int_ptr v) (\<lambda>x. Inr (f\<lparr>sf_MaxOpenConns := x\<rparr>))
      else if k = ''database_max_idle_conns'' then rbind (decode_int_ptr v) (\<lambda>x. Inr (f\<lparr>sf_MaxIdleConns := x\<rparr>))
      else if k = ''database_conn_max_idle_time''
      then rbind (decode_str_ptr v) (\<lambda>x. Inr (f\<lparr>sf_ConnMaxIdleTime := x\<rparr>))
      else if k = ''database_conn_max_lifetime''
      then rbind (decode_str_ptr v) (\<lambda>x. Inr (f\<lparr>sf_ConnMaxLifetime := x\<rparr>))
      else if k = ''database_ping_timeout'' then rbind (decode_str_ptr v) (\<lambda>x. Inr (f\<lparr>sf_PingTimeout := x\<rparr>))
      else Inr f)"

definition server_overlayFile ::
  "(nat \<Rightarrow> nat \<Rightarrow> nat \<Rightarrow> nat) \<Rightarrow> server_config \<Rightarrow> server_file \<Rightarrow> server_config \<times> go_error option" where
  "server_overlayFile frac c f =
     (let c = set_address (Assign (get_address c) (sf_Address f)) c;
          c = c\<lparr>sv_Restore := Assign (sv_Restore c) (sf_Restore f),
                sv_FileStoragePath := Assign (sv_FileStoragePath c) (sf_StoreFile f),
                sv_DatabaseDSN := Assign (sv_DatabaseDSN c) (sf_DatabaseDSN f),
                sv_CryptoKey := Assign (sv_CryptoKey c) (sf_CryptoKey f),
                sv_Key := Assign (sv_Key c) (sf_Key f),
                sv_AuditFile := Assign (sv_AuditFile c) (sf_AuditFile f),
                sv_AuditURL := Assign (sv_AuditURL c) (sf_AuditURL f),
                sv_TrustedSubnet := Assign (sv_TrustedSubnet c) (sf_TrustedSubnet f),
                sv_GRPCAddress := Assign (sv_GRPCAddress c) (sf_GRPCAddress f),
                sv_GRPCCert := Assign (sv_GRPCCert c) (sf_GRPCCert f),
                sv_GRPCKey := Assign (sv_GRPCKey c) (sf_GRPCKey f)\<rparr>;
          c = set_db (\<lambda>d. d\<lparr>MaxOpenConns := Assign (MaxOpenConns d) (map_option sint (sf_MaxOpenConns f)),
                            MaxIdleConns := Assign (MaxIdleConns d) (map_option sint (sf_MaxIdleConns f))\<rparr>) c;
          d = sv_Database c;
          (si, e1) = AssignFunc (sv_StoreInterval c) (sf_StoreInterval f) (ParseIntervalSeconds frac);
          (it, e2) = AssignFunc (ConnMaxIdleTime d) (sf_ConnMaxIdleTime f) (ParseDuration frac);
          (lt, e3) = AssignFunc (ConnMaxLifetime d) (sf_ConnMaxLifetime f) (ParseDuration frac);
          (pt, e4) = AssignFunc (PingTimeout d) (sf_PingTimeout f) (ParseDuration frac)
      in (set_db (\<lambda>d. d\<lparr>ConnMaxIdleTime := it, ConnMaxLifetime := lt, PingTimeout := pt\<rparr>)
            (c\<lparr>sv_StoreInterval := si\<rparr>),
          errors_join [e1, e2, e3, e4]))"

definition server_applyFile ::
  "(nat \<Rightarrow> nat \<Rightarrow> nat \<Rightarrow> nat) \<Rightarrow> disk \<Rightarrow> server_config \<Rightarrow> string \<Rightarrow> server_config result" where
  "server_applyFile frac files c path =
     rbind (LoadJSON files path) (\<lambda>v.
     rbind (wrap_err ''parse config file'' (decode_struct server_file_member empty_server_file v)) (\<lambda>f.
       case server_overlayFile frac c f of (c', None) \<Rightarrow> Inr c' | (_, Some e) \<Rightarrow> Inl e))"

section \<open>Flags\<close>

definition server_bindings :: "server_config \<Rightarrow> server_config binding list" where
  "server_bindings c =
     [bind_string ''a'' (get_address c) set_address,
      bind_int ''i'' (sv_StoreInterval c) (\<lambda>x c. c\<lparr>sv_StoreInterval := x\<rparr>),
      bind_string ''f'' (sv_FileStoragePath c) (\<lambda>x c. c\<lparr>sv_FileStoragePath := x\<rparr>),
      bind_bool ''r'' (sv_Restore c) (\<lambda>x c. c\<lparr>sv_Restore := x\<rparr>),
      bind_string ''d'' (sv_DatabaseDSN c) (\<lambda>x c. c\<lparr>sv_DatabaseDSN := x\<rparr>),
      bind_string ''k'' (sv_Key c) (\<lambda>x c. c\<lparr>sv_Key := x\<rparr>),
      bind_string ''crypto-key'' (sv_CryptoKey c) (\<lambda>x c. c\<lparr>sv_CryptoKey := x\<rparr>),
      bind_string ''audit-file'' (sv_AuditFile c) (\<lambda>x c. c\<lparr>sv_AuditFile := x\<rparr>),
      bind_string ''audit-url'' (sv_AuditURL c) (\<lambda>x c. c\<lparr>sv_AuditURL := x\<rparr>),
      bind_string ''t'' (sv_TrustedSubnet c) (\<lambda>x c. c\<lparr>sv_TrustedSubnet := x\<rparr>),
      bind_string ''g'' (sv_GRPCAddress c) (\<lambda>x c. c\<lparr>sv_GRPCAddress := x\<rparr>),
      bind_string ''grpc-cert'' (sv_GRPCCert c) (\<lambda>x c. c\<lparr>sv_GRPCCert := x\<rparr>),
      bind_string ''grpc-key'' (sv_GRPCKey c) (\<lambda>x c. c\<lparr>sv_GRPCKey := x\<rparr>),
      bind_int ''db-max-open-conns'' (MaxOpenConns (sv_Database c)) (\<lambda>x. set_db (\<lambda>d. d\<lparr>MaxOpenConns := x\<rparr>)),
      bind_int ''db-max-idle-conns'' (MaxIdleConns (sv_Database c)) (\<lambda>x. set_db (\<lambda>d. d\<lparr>MaxIdleConns := x\<rparr>)),
      bind_duration ''db-conn-max-idle-time'' (ConnMaxIdleTime (sv_Database c))
        (\<lambda>x. set_db (\<lambda>d. d\<lparr>ConnMaxIdleTime := x\<rparr>)),
      bind_duration ''db-conn-max-lifetime'' (ConnMaxLifetime (sv_Database c))
        (\<lambda>x. set_db (\<lambda>d. d\<lparr>ConnMaxLifetime := x\<rparr>)),
      bind_duration ''db-ping-timeout'' (PingTimeout (sv_Database c))
        (\<lambda>x. set_db (\<lambda>d. d\<lparr>PingTimeout := x\<rparr>))]"

definition applyStoreFileEnv :: "environ \<Rightarrow> server_config \<Rightarrow> server_config" where
  "applyStoreFileEnv env c =
     (if env ''FILE_STORAGE_PATH'' \<noteq> None then c
      else case env ''STORE_FILE'' of None \<Rightarrow> c | Some v \<Rightarrow> c\<lparr>sv_FileStoragePath := v\<rparr>)"

definition server_parse ::
  "(nat \<Rightarrow> nat \<Rightarrow> nat \<Rightarrow> nat) \<Rightarrow> (environ \<Rightarrow> server_config \<Rightarrow> server_config result) \<Rightarrow> disk \<Rightarrow> environ \<Rightarrow>
   string list \<Rightarrow> server_config result" where
  "server_parse frac envp files env args =
     (let cfg = server_defaults; flags = server_bindings cfg in
      rbind (flag_parse frac args (register_flags flags)) (\<lambda>fs.
      let path = ResolveConfigPath env (config_path fs) in
      rbind (if path \<noteq> [] then server_applyFile frac files cfg path else Inr cfg) (\<lambda>cfg.
      rbind (envp env (ApplyVisited flags fs cfg)) (\<lambda>cfg.
      Inr (applyStoreFileEnv env cfg)))))"

section \<open>Precedence\<close>

text \<open>The string fields: their variable, accessor and update; with their flag and file field.\<close>

definition server_env_tags :: "server_config env_tag list" where
  "server_env_tags =
     [(''ADDRESS'', get_address, set_address),
      (''FILE_STORAGE_PATH'', sv_FileStoragePath, \<lambda>x c. c\<lparr>sv_FileStoragePath := x\<rparr>),
      (''DATABASE_DSN'', sv_DatabaseDSN, \<lambda>x c. c\<lparr>sv_DatabaseDSN := x\<rparr>),
      (''KEY'', sv_Key, \<lambda>x c. c\<lparr>sv_Key := x\<rparr>),
      (''CRYPTO_KEY'', sv_CryptoKey, \<lambda>x c. c\<lparr>sv_CryptoKey := x\<rparr>),
      (''AUDIT_FILE'', sv_AuditFile, \<lambda>x c. c\<lparr>sv_AuditFile := x\<rparr>),
      (''AUDIT_URL'', sv_AuditURL, \<lambda>x c. c\<lparr>sv_AuditURL := x\<rparr>),
      (''TRUSTED_SUBNET'', sv_TrustedSubnet, \<lambda>x c. c\<lparr>sv_TrustedSubnet := x\<rparr>),
      (''GRPC_ADDRESS'', sv_GRPCAddress, \<lambda>x c. c\<lparr>sv_GRPCAddress := x\<rparr>),
      (''GRPC_CERT'', sv_GRPCCert, \<lambda>x c. c\<lparr>sv_GRPCCert := x\<rparr>),
      (''GRPC_KEY'', sv_GRPCKey, \<lambda>x c. c\<lparr>sv_GRPCKey := x\<rparr>)]"

lemma env_reference_server: "env_strings_law server_env_tags (env_reference server_env_tags)"
  by (simp add: env_strings_law_def env_reference_def server_env_tags_def nested_defs)

text \<open>Every string field but the storage path: its flag, its variable, the file's field.\<close>

definition server_string_fields ::
  "(string \<times> string \<times> (server_config \<Rightarrow> string) \<times> (server_file \<Rightarrow> string option)) list" where
  "server_string_fields =
     [(''a'', ''ADDRESS'', get_address, sf_Address),
      (''d'', ''DATABASE_DSN'', sv_DatabaseDSN, sf_DatabaseDSN),
      (''k'', ''KEY'', sv_Key, sf_Key),
      (''crypto-key'', ''CRYPTO_KEY'', sv_CryptoKey, sf_CryptoKey),
      (''audit-file'', ''AUDIT_FILE'', sv_AuditFile, sf_AuditFile),
      (''audit-url'', ''AUDIT_URL'', sv_AuditURL, sf_AuditURL),
      (''t'', ''TRUSTED_SUBNET'', sv_TrustedSubnet, sf_TrustedSubnet),
      (''g'', ''GRPC_ADDRESS'', sv_GRPCAddress, sf_GRPCAddress),
      (''grpc-cert'', ''GRPC_CERT'', sv_GRPCCert, sf_GRPCCert),
      (''grpc-key'', ''GRPC_KEY'', sv_GRPCKey, sf_GRPCKey)]"


text \<open>The file layer: the empty file when no path is given.\<close>

definition server_read_file :: "disk \<Rightarrow> string \<Rightarrow> server_file result" where
  "server_read_file files path =
     (if path = [] then Inr empty_server_file
      else rbind (LoadJSON files path) (\<lambda>v.
             wrap_err ''parse config file'' (decode_struct server_file_member empty_server_file v)))"

lemma overlay_empty: "server_overlayFile frac c empty_server_file = (c, None)"
  by (simp add: server_overlayFile_def empty_server_file_def Assign_def AssignFunc_def nested_defs
      Let_def errors_join_def)

lemma server_file_layer:
  "(if path \<noteq> [] then server_applyFile frac files c path else Inr c) =
   rbind (server_read_file files path) (\<lambda>f.
     case server_overlayFile frac c f of (c', None) \<Rightarrow> Inr c' | (_, Some e) \<Rightarrow> Inl e)"
  by (cases "LoadJSON files path")
    (simp_all add: server_read_file_def server_applyFile_def overlay_empty)

lemma overlay_strings:
  "list_all (\<lambda>(n, v, get, fget). get (fst (server_overlayFile frac c f)) = Assign (get c) (fget f))
     server_string_fields"
  "sv_FileStoragePath (fst (server_overlayFile frac c f)) = Assign (sv_FileStoragePath c) (sf_StoreFile f)"
  by (simp_all add: server_string_fields_def server_overlayFile_def nested_defs Let_def split_beta)

text \<open>Each binding writes its own field.\<close>

lemmas server_binding_simps = server_bindings_def binding_defs nested_defs

lemma server_fields_owned:
  "list_all (\<lambda>(n, v, get, fget). owns_string (server_bindings d) n get) server_string_fields"
  "owns_string (server_bindings d) ''f'' sv_FileStoragePath"
  unfolding server_string_fields_def
  by (simp_all add: owns_string_def binding_for_def same_kind_def server_binding_simps split: flag_val.split)

lemma server_flag_strings:
  assumes fs: "flag_parse frac args (register_flags (server_bindings d)) = Inr fs"
  shows "list_all (\<lambda>(n, v, get, fget).
           get (ApplyVisited (server_bindings d) fs c) = flag_string fs n (get c)) server_string_fields"
    and "sv_FileStoragePath (ApplyVisited (server_bindings d) fs c) =
         flag_string fs ''f'' (sv_FileStoragePath c)"
  using server_fields_owned [of d] parsed_flag_string [OF fs]
  by (auto simp: list_all_iff)

lemma server_env_strings:
  assumes "env_strings_law server_env_tags envp" "envp env c = Inr c'"
  shows "list_all (\<lambda>(n, v, get, fget). get c' = env_string (env v) (get c)) server_string_fields"
    and "sv_FileStoragePath c' = env_string (env ''FILE_STORAGE_PATH'') (sv_FileStoragePath c)"
proof -
  have all: "list_all (\<lambda>(v, get, set). get c' = env_string (env v) (get c)) server_env_tags"
    using assms unfolding env_strings_law_def by blast
  show "list_all (\<lambda>(n, v, get, fget). get c' = env_string (env v) (get c)) server_string_fields"
    using all by (simp add: server_env_tags_def server_string_fields_def)
  show "sv_FileStoragePath c' = env_string (env ''FILE_STORAGE_PATH'') (sv_FileStoragePath c)"
    using all by (simp add: server_env_tags_def)
qed

lemma server_parse_steps:
  assumes "server_parse frac envp files env args = Inr cfg"
  obtains fs f c1 c3 where
    "flag_parse frac args (register_flags (server_bindings server_defaults)) = Inr fs"
    "server_read_file files (ResolveConfigPath env (config_path fs)) = Inr f"
    "server_overlayFile frac server_defaults f = (c1, None)"
    "envp env (ApplyVisited (server_bindings server_defaults) fs c1) = Inr c3"
    "cfg = applyStoreFileEnv env c3"
proof -
  from assms obtain fs f c1 c3 where
      fs: "flag_parse frac args (register_flags (server_bindings server_defaults)) = Inr fs"
    and f: "server_read_file files (ResolveConfigPath env (config_path fs)) = Inr f"
    and ov: "(case server_overlayFile frac server_defaults f of (c', None) \<Rightarrow> Inr c' | (_, Some e) \<Rightarrow> Inl e)
             = Inr c1"
    and c3: "envp env (ApplyVisited (server_bindings server_defaults) fs c1) = Inr c3"
    and cfg: "cfg = applyStoreFileEnv env c3"
    unfolding server_parse_def Let_def server_file_layer rbind_Inr_iff by blast
  from ov have "server_overlayFile frac server_defaults f = (c1, None)"
    by (simp split: prod.splits option.splits)
  with fs f c3 cfg that show thesis by blast
qed

text \<open>Composing the layers of one field.\<close>

lemma layers_compose:
  assumes "list_all (\<lambda>(n, v, get, fget). get c1 = Assign (get c0) (fget f)) xs"
    and "list_all (\<lambda>(n, v, get, fget). get c2 = flag_string fs n (get c1)) xs"
    and "list_all (\<lambda>(n, v, get, fget). get c3 = env_string (env v) (get c2)) xs"
  shows "list_all (\<lambda>(n, v, get, fget).
           get c3 = env_string (env v) (flag_string fs n (Assign (get c0) (fget f)))) xs"
  using assms by (induction xs) auto



end
