(* ===== verification/Config_Agent.thy ===== *)
theory Config_Agent
  imports Config_Common
begin

text \<open>
  \<open>internal/config/agent\<close>: the agent's configuration and its layers. The interval syntax of
  the configuration files is shared with the server.
\<close>

record agent_config =
  ag_Env :: string
  ag_Address :: string
  ag_ReportInterval :: int
  ag_PollInterval :: int
  ag_Key :: string
  ag_RateLimit :: int
  ag_CryptoKey :: string
  ag_GRPCAddress :: string
  ag_GRPCCert :: string

definition agent_defaults :: agent_config where
  "agent_defaults =
     \<lparr>ag_Env = EnvLocal, ag_Address = ''localhost:8080'', ag_ReportInterval = 10,
      ag_PollInterval = 2, ag_Key = [], ag_RateLimit = 1, ag_CryptoKey = [],
      ag_GRPCAddress = [], ag_GRPCCert = []\<rparr>"

record agent_file =
  af_Address :: "string option"
  af_ReportInterval :: "string option"
  af_PollInterval :: "string option"
  af_CryptoKey :: "string option"
  af_Key :: "string option"
  af_RateLimit :: "int64 option"
  af_GRPCAddress :: "string option"
  af_GRPCCert :: "string option"

definition empty_agent_file :: agent_file where
  "empty_agent_file =
     \<lparr>af_Address = None, af_ReportInterval = None, af_PollInterval = None, af_CryptoKey = None,
      af_Key = None, af_RateLimit = None, af_GRPCAddress = None, af_GRPCCert = None\<rparr>"

definition agent_file_member :: "bytes \<Rightarrow> json \<Rightarrow> agent_file \<Rightarrow> agent_file result" where
  "agent_file_member k v f =
     (if k = ''address'' then rbind (decode_str_ptr v) (\<lambda>x. Inr (f\<lparr>af_Address := x\<rparr>))
      else if k = ''report_interval'' then rbind (decode_str_ptr v) (\<lambda>x. Inr (f\<lparr>af_ReportInterval := x\<rparr>))
      else if k = ''poll_interval'' then rbind (decode_str_ptr v) (\<lambda>x. Inr (f\<lparr>af_PollInterval := x\<rparr>))
      else if k = ''crypto_key'' then rbind (decode_str_ptr v) (\<lambda>x. Inr (f\<lparr>af_CryptoKey := x\<rparr>))
      else if k = ''key'' then rbind (decode_str_ptr v) (\<lambda>x. Inr (f\<lparr>af_Key := x\<rparr>))
      else if k = ''rate_limit'' then rbind (decode_int_ptr v) (\<lambda>x. Inr (f\<lparr>af_RateLimit := x\<rparr>))
      else if k = ''grpc_address'' then rbind (decode_str_ptr v) (\<lambda>x. Inr (f\<lparr>af_GRPCAddress := x\<rparr>))
      else if k = ''grpc_cert'' then rbind (decode_str_ptr v) (\<lambda>x. Inr (f\<lparr>af_GRPCCert := x\<rparr>))
      else Inr f)"

definition agent_overlayFile ::
  "(nat \<Rightarrow> nat \<Rightarrow> nat \<Rightarrow> nat) \<Rightarrow> agent_config \<Rightarrow> agent_file \<Rightarrow> agent_config \<times> go_error option" where
  "agent_overlayFile frac c f =
     (let c = c\<lparr>ag_Address := Assign (ag_Address c) (af_Address f),
                ag_CryptoKey := Assign (ag_CryptoKey c) (af_CryptoKey f),
                ag_Key := Assign (ag_Key c) (af_Key f),
                ag_RateLimit := Assign (ag_RateLimit c) (map_option sint (af_RateLimit f)),
                ag_GRPCAddress := Assign (ag_GRPCAddress c) (af_GRPCAddress f),
                ag_GRPCCert := Assign (ag_GRPCCert c) (af_GRPCCert f)\<rparr>;
          (ri, e1) = AssignFunc (ag_ReportInterval c) (af_ReportInterval f) (ParseIntervalSeconds frac);
          (pi, e2) = AssignFunc (ag_PollInterval c) (af_PollInterval f) (ParseIntervalSeconds frac)
      in (c\<lparr>ag_ReportInterval := ri, ag_PollInterval := pi\<rparr>, errors_join [e1, e2]))"

definition agent_applyFile ::
  "(nat \<Rightarrow> nat \<Rightarrow> nat \<Rightarrow> nat) \<Rightarrow> disk \<Rightarrow> agent_config \<Rightarrow> string \<Rightarrow> agent_config result" where
  "agent_applyFile frac files c path =
     rbind (LoadJSON files path) (\<lambda>v.
     rbind (wrap_err ''parse config file'' (decode_struct agent_file_member empty_agent_file v)) (\<lambda>f.
       case agent_overlayFile frac c f of (c', None) \<Rightarrow> Inr c' | (_, Some e) \<Rightarrow> Inl e))"

definition agent_bindings :: "agent_config \<Rightarrow> agent_config binding list" where
  "agent_bindings c =
     [bind_string ''a'' (ag_Address c) (\<lambda>x c. c\<lparr>ag_Address := x\<rparr>),
      bind_int ''r'' (ag_ReportInterval c) (\<lambda>x c. c\<lparr>ag_ReportInterval := x\<rparr>),
      bind_int ''p'' (ag_PollInterval c) (\<lambda>x c. c\<lparr>ag_PollInterval := x\<rparr>),
      bind_string ''k'' (ag_Key c) (\<lambda>x c. c\<lparr>ag_Key := x\<rparr>),
      bind_int ''l'' (ag_RateLimit c) (\<lambda>x c. c\<lparr>ag_RateLimit := x\<rparr>),
      bind_string ''crypto-key'' (ag_CryptoKey c) (\<lambda>x c. c\<lparr>ag_CryptoKey := x\<rparr>),
      bind_string ''g'' (ag_GRPCAddress c) (\<lambda>x c. c\<lparr>ag_GRPCAddress := x\<rparr>),
      bind_string ''grpc-cert'' (ag_GRPCCert c) (\<lambda>x c. c\<lparr>ag_GRPCCert := x\<rparr>)]"

definition agent_parse ::
  "(nat \<Rightarrow> nat \<Rightarrow> nat \<Rightarrow> nat) \<Rightarrow> (environ \<Rightarrow> agent_config \<Rightarrow> agent_config result) \<Rightarrow> disk \<Rightarrow> environ \<Rightarrow>
   string list \<Rightarrow> agent_config result" where
  "agent_parse frac envp files env args =
     (let cfg = agent_defaults; flags = agent_bindings cfg in
      rbind (flag_parse frac args (register_flags flags)) (\<lambda>fs.
      let path = ResolveConfigPath env (config_path fs) in
      rbind (if path \<noteq> [] then agent_applyFile frac files cfg path else Inr cfg) (\<lambda>cfg.
      envp env (ApplyVisited flags fs cfg))))"

section \<open>Precedence\<close>

definition agent_env_tags :: "agent_config env_tag list" where
  "agent_env_tags =
     [(''ADDRESS'', ag_Address, \<lambda>x c. c\<lparr>ag_Address := x\<rparr>),
      (''KEY'', ag_Key, \<lambda>x c. c\<lparr>ag_Key := x\<rparr>),
      (''CRYPTO_KEY'', ag_CryptoKey, \<lambda>x c. c\<lparr>ag_CryptoKey := x\<rparr>),
      (''GRPC_ADDRESS'', ag_GRPCAddress, \<lambda>x c. c\<lparr>ag_GRPCAddress := x\<rparr>),
      (''GRPC_CERT'', ag_GRPCCert, \<lambda>x c. c\<lparr>ag_GRPCCert := x\<rparr>)]"

definition agent_string_fields ::
  "(string \<times> string \<times> (agent_config \<Rightarrow> string) \<times> (agent_file \<Rightarrow> string option)) list" where
  "agent_string_fields =
     [(''a'', ''ADDRESS'', ag_Address, af_Address),
      (''k'', ''KEY'', ag_Key, af_Key),
      (''crypto-key'', ''CRYPTO_KEY'', ag_CryptoKey, af_CryptoKey),
      (''g'', ''GRPC_ADDRESS'', ag_GRPCAddress, af_GRPCAddress),
      (''grpc-cert'', ''GRPC_CERT'', ag_GRPCCert, af_GRPCCert)]"

definition agent_read_file :: "disk \<Rightarrow> string \<Rightarrow> agent_file result" where
  "agent_read_file files path =
     (if path = [] then Inr empty_agent_file
      else rbind (LoadJSON files path) (\<lambda>v.
             wrap_err ''parse config file'' (decode_struct agent_file_member empty_agent_file v)))"

lemma env_reference_agent: "env_strings_law agent_env_tags (env_reference agent_env_tags)"
  by (simp add: env_strings_law_def env_reference_def agent_env_tags_def)

lemma agent_fields_owned:
  "list_all (\<lambda>(n, v, get, fget). owns_string (agent_bindings d) n get) agent_string_fields"
  unfolding agent_string_fields_def
  by (simp add: owns_string_def binding_for_def same_kind_def agent_bindings_def binding_defs
      split: flag_val.split)

lemma agent_overlay_empty: "agent_overlayFile frac c empty_agent_file = (c, None)"
  by (simp add: agent_overlayFile_def empty_agent_file_def Assign_def AssignFunc_def errors_join_def)

lemma agent_file_layer:
  "(if path \<noteq> [] then agent_applyFile frac files c path else Inr c) =
   rbind (agent_read_file files path) (\<lambda>f.
     case agent_overlayFile frac c f of (c', None) \<Rightarrow> Inr c' | (_, Some e) \<Rightarrow> Inl e)"
  by (cases "LoadJSON files path")
    (simp_all add: agent_read_file_def agent_applyFile_def agent_overlay_empty)

lemma agent_overlay_strings:
  "list_all (\<lambda>(n, v, get, fget). get (fst (agent_overlayFile frac c f)) = Assign (get c) (fget f))
     agent_string_fields"
  by (simp add: agent_string_fields_def agent_overlayFile_def Let_def split_beta)

lemma agent_parse_steps:
  assumes "agent_parse frac envp files env args = Inr cfg"
  obtains fs f c1 where
    "flag_parse frac args (register_flags (agent_bindings agent_defaults)) = Inr fs"
    "agent_read_file files (ResolveConfigPath env (config_path fs)) = Inr f"
    "agent_overlayFile frac agent_defaults f = (c1, None)"
    "envp env (ApplyVisited (agent_bindings agent_defaults) fs c1) = Inr cfg"
proof -
  from assms obtain fs f c1 where
      fs: "flag_parse frac args (register_flags (agent_bindings agent_defaults)) = Inr fs"
    and f: "agent_read_file files (ResolveConfigPath env (config_path fs)) = Inr f"
    and ov: "(case agent_overlayFile frac agent_defaults f of (c', None) \<Rightarrow> Inr c' | (_, Some e) \<Rightarrow> Inl e)
             = Inr c1"
    and c3: "envp env (ApplyVisited (agent_bindings agent_defaults) fs c1) = Inr cfg"
    unfolding agent_parse_def Let_def agent_file_layer rbind_Inr_iff by blast
  from ov have "agent_overlayFile frac agent_defaults f = (c1, None)"
    by (simp split: prod.splits option.splits)
  with fs f c3 that show thesis by blast
qed

text \<open>
  The agent's configuration layers its sources in the documented order: every string
  field is the default, overridden by the configuration file, by its flag if that was passed,
  and by its environment variable if that is not empty; and parsing succeeds only when the
  flags and the file were read without error.
\<close>

theorem agent_config_precedence:
  assumes law: "env_strings_law agent_env_tags envp"
    and ok: "agent_parse frac envp files env args = Inr cfg"
  shows "\<exists>fs f.
     flag_parse frac args (register_flags (agent_bindings agent_defaults)) = Inr fs \<and>
     agent_read_file files (ResolveConfigPath env (config_path fs)) = Inr f \<and>
     list_all (\<lambda>(n, v, get, fget).
        get cfg = env_string (env v) (flag_string fs n (Assign (get agent_defaults) (fget f))))
       agent_string_fields"
proof -
  let ?b = "agent_bindings agent_defaults"
  obtain fs f c1 where
      fs: "flag_parse frac args (register_flags ?b) = Inr fs"
    and f: "agent_read_file files (ResolveConfigPath env (config_path fs)) = Inr f"
    and c1: "agent_overlayFile frac agent_defaults f = (c1, None)"
    and c3: "envp env (ApplyVisited ?b fs c1) = Inr cfg"
    using agent_parse_steps [OF ok] by metis
  have env3: "list_all (\<lambda>(v, get, set). get cfg = env_string (env v) (get (ApplyVisited ?b fs c1)))
      agent_env_tags"
    using law c3 unfolding env_strings_law_def by blast
  have flag2: "list_all (\<lambda>(n, v, get, fget).
      get (ApplyVisited ?b fs c1) = flag_string fs n (get c1)) agent_string_fields"
    using agent_fields_owned [of agent_defaults] parsed_flag_string [OF fs] by (auto simp: list_all_iff)
  have "list_all (\<lambda>(n, v, get, fget).
        get cfg = env_string (env v) (flag_string fs n (Assign (get agent_defaults) (fget f))))
       agent_string_fields"
    using agent_overlay_strings [of frac agent_defaults f] flag2 env3 c1
    by (simp add: agent_string_fields_def agent_env_tags_def)
  with fs f show ?thesis by blast
qed

theorem agent_config_precedence_witness:
  "\<exists>cfg. agent_parse (\<lambda>f u k. 0) (env_reference agent_env_tags) Map.empty
           (\<lambda>v. if v = ''KEY'' then Some ''s3'' else None) [] = Inr cfg \<and> ag_Key cfg = ''s3''"
proof -
  let ?env = "\<lambda>v. if v = ''KEY'' then Some ''s3'' else None"
  let ?fs0 = "register_flags (agent_bindings agent_defaults)"
  have parse: "flag_parse (\<lambda>f u k. 0) [] ?fs0 = Inr ?fs0"
    by (simp add: flag_parse.simps parse_one_def)
  have path: "ResolveConfigPath ?env (config_path ?fs0) = []"
    by (simp add: register_flags_def config_path_def ResolveConfigPath_def)
  obtain cfg where cfg: "agent_parse (\<lambda>f u k. 0) (env_reference agent_env_tags) Map.empty ?env []
      = Inr cfg"
    using path by (simp add: agent_parse_def Let_def parse env_reference_def)
  from agent_config_precedence [OF env_reference_agent cfg] obtain f fs where
    "list_all (\<lambda>(n, v, get, fget).
        get cfg = env_string (?env v) (flag_string fs n (Assign (get agent_defaults) (fget f))))
       agent_string_fields" by blast
  then have "ag_Key cfg = ''s3''"
    by (simp add: agent_string_fields_def env_string_def)
  with cfg show ?thesis by blast
qed

section \<open>Intervals of the configuration file\<close>

lemma leading_int_append:
  "leading_int x (s @ t) =
   (case leading_int x s of None \<Rightarrow> None
    | Some (v, r) \<Rightarrow> if r = [] then leading_int v t else Some (v, r @ t))"
  by (induction x s rule: leading_int.induct) auto

lemma leading_int_show_nat: "n \<le> 2 ^ 63 \<Longrightarrow> leading_int 0 (show_nat n) = Some (n, [])"
proof (induction n rule: show_nat.induct)
  case (1 n)
  show ?case
  proof (cases "n < 10")
    case True
    then show ?thesis by (subst show_nat.simps) simp
  next
    case False
    with 1 have ih: "leading_int 0 (show_nat (n div 10)) = Some (n div 10, [])" by simp
    have "n div 10 \<le> 2 ^ 63 div 10" using 1(2) by (rule div_le_mono)
    moreover have "10 * (n div 10) + n mod 10 = n" by simp
    moreover have "show_nat n = show_nat (n div 10) @ [digit_char (n mod 10)]"
      using False by (subst show_nat.simps) simp
    ultimately show ?thesis using ih 1(2) by (simp add: leading_int_append)
  qed
qed

lemma leading_int_unit:
  assumes "n \<le> 2 ^ 63" "\<not> is_digit c"
  shows "leading_int 0 (show_nat n @ c # u) = Some (n, c # u)"
  using assms by (simp add: leading_int_append leading_int_show_nat)

lemma show_nat_hd:
  "show_nat n @ u \<noteq> []" "\<not> not_unit_end (hd (show_nat n @ u))"
  "hd (show_nat n @ u) \<noteq> CHR ''-''" "hd (show_nat n @ u) \<noteq> CHR ''+''"
proof -
  obtain c t where c: "show_nat n = c # t" by (cases "show_nat n") auto
  with hd_show_nat_digit [of n] have "is_digit c" by simp
  with c show "show_nat n @ u \<noteq> []" "\<not> not_unit_end (hd (show_nat n @ u))"
    "hd (show_nat n @ u) \<noteq> CHR ''-''" "hd (show_nat n @ u) \<noteq> CHR ''+''"
    by (auto simp: not_unit_end_def dest: digit_not_sign)
qed

text \<open>A whole number of one unit.\<close>

lemma ParseDuration_unit:
  assumes u: "duration_unit u = Some k" "u \<noteq> []" "list_all not_unit_end u"
    and k: "0 < k" and n: "n * k < 2 ^ 63"
  shows "ParseDuration frac (show_nat n @ u) = Inr (int (n * k))"
proof -
  obtain c t where c: "u = c # t" using u(2) by (cases u) auto
  have nd: "\<not> is_digit c" "c \<noteq> CHR ''.''" using u(3) c by (auto simp: not_unit_end_def)
  have nle: "n \<le> n * k" using k by simp
  with n have n63: "n \<le> 2 ^ 63" by linarith
  have ndiv: "n \<le> 2 ^ 63 div k" using k n by (simp add: less_eq_div_iff_mult_less_eq)
  have tw: "takeWhile not_unit_end t = t" "dropWhile not_unit_end t = []" "not_unit_end c"
    using u(3) c by (simp_all add: list_all_iff)
  have li: "leading_int 0 (show_nat n @ u) = Some (n, u)"
    using leading_int_unit [OF n63 nd(1)] c by simp
  have "duration_group frac (show_nat n @ u) = Some (n * k, [])"
    unfolding duration_group_def Let_def
    using li show_nat_hd [of n u] n ndiv unfolding c
    by (simp add: not_less tw u(1) [unfolded c] nd)
  then have "duration_groups frac 0 (show_nat n @ u) = Some (n * k)"
    using n by (subst duration_groups.simps) (simp add: duration_groups.simps show_nat_hd)
  moreover have "show_nat n @ u \<noteq> ''0''"
    using u(2,3) by (auto simp: append_eq_Cons_conv not_unit_end_def is_digit_def)
  ultimately show ?thesis
    using n show_nat_hd [of n u] by (simp add: ParseDuration_def Let_def)
qed

lemma ParseDuration_plain: "0 < n \<Longrightarrow> n \<le> 2 ^ 63 \<Longrightarrow> \<exists>e. ParseDuration frac (show_nat n) = Inl e"
proof -
  assume n: "0 < n" "n \<le> 2 ^ 63"
  have li: "leading_int 0 (show_nat n) = Some (n, [])" by (rule leading_int_show_nat [OF n(2)])
  then have "duration_groups frac 0 (show_nat n) = None"
    by (subst duration_groups.simps) (simp add: duration_group_def Let_def)
  moreover have "show_nat n \<noteq> ''0''" using li n(1) by (auto simp: is_digit_def digit_val_def)
  ultimately show ?thesis
    using show_nat_hd [of n "[]"] by (simp add: ParseDuration_def Let_def)
qed

lemma sint_of_nat_small: "n < 2 ^ 63 \<Longrightarrow> sint (of_nat n :: int64) = int n"
  by (simp add: signed_of_nat signed_take_bit_int_eq_self)

lemma parse_int_show_nat: "n < 2 ^ 63 \<Longrightarrow> parse_int (show_nat n) = Inr (of_nat n)"
  using parse_int_format_int [of "of_nat n"]
  by (simp add: format_int_def sint_of_nat_small)

text \<open>
  An interval of the configuration file is a number of whole seconds: a plain number
  \<open>n\<close> and the duration \<open>n\<close>s give \<open>n\<close>, \<open>n\<close>m and \<open>n\<close>h give its multiples, and a duration in
  milliseconds is rounded down, so that anything below a second is zero.
\<close>

theorem interval_whole_seconds:
  assumes "n < 2 ^ 63 div 3600000000000"
  shows "ParseIntervalSeconds frac (show_nat n) = Inr (int n) \<and>
         ParseIntervalSeconds frac (show_nat n @ ''s'') = Inr (int n) \<and>
         ParseIntervalSeconds frac (show_nat n @ ''m'') = Inr (60 * int n) \<and>
         ParseIntervalSeconds frac (show_nat n @ ''h'') = Inr (3600 * int n) \<and>
         ParseIntervalSeconds frac (show_nat n @ ''ms'') = Inr (int n div 1000)"
proof -
  have n: "n * 3600000000000 < 2 ^ 63"
    using assms by (simp add: less_eq_div_iff_mult_less_eq)
  have d: "ParseDuration frac (show_nat n @ ''s'') = Inr (int (n * 1000000000))"
      "ParseDuration frac (show_nat n @ ''m'') = Inr (int (n * 60000000000))"
      "ParseDuration frac (show_nat n @ ''h'') = Inr (int (n * 3600000000000))"
      "ParseDuration frac (show_nat n @ ''ms'') = Inr (int (n * 1000000))"
    by (rule ParseDuration_unit; use n in \<open>simp add: duration_unit_def not_unit_end_def is_digit_def\<close>)+
  have n63: "n < 2 ^ 63" using n by linarith
  have plain: "ParseIntervalSeconds frac (show_nat n) = Inr (int n)"
  proof (cases "n = 0")
    case True
    have "char_of (48 :: nat) = CHR ''0''" using char_of_char [of "CHR ''0''", where ?'a = nat] by simp
    then have "show_nat n = ''0''" using True by (simp add: show_nat.simps [of 0] digit_char_def)
    then show ?thesis
      using True by (simp add: ParseIntervalSeconds_def ParseDuration_def trunc_div_def)
  next
    case False
    with ParseDuration_plain [of n frac] n63 show ?thesis
      by (auto simp: ParseIntervalSeconds_def parse_int_show_nat sint_of_nat_small)
  qed
  show ?thesis
    by (intro conjI plain) (simp_all add: ParseIntervalSeconds_def d trunc_div_def time_Second_def sgn_if)
qed

theorem interval_whole_seconds_witness:
  "ParseIntervalSeconds (\<lambda>f u k. 0) (show_nat 300 @ ''ms'') = Inr 0"
  using interval_whole_seconds [of 300 "\<lambda>f u k. 0"] by simp

end
