(* ===== verification/Repository.thy ===== *)
theory Repository
  imports Model
begin

text \<open>
  \<open>internal/repository/metrics_repository.go\<close> and \<open>internal/service/service.go\<close>: the
  interface of a metric store as a record of operations over an explicit state, the
  service that forwards to it, and the contract every store promises as a locale. The
  memory store, the store with synchronous snapshots and the PostgreSQL store interpret
  it in their own theories; what clients rely on is proved here once.
\<close>

section \<open>The interface\<close>

record 's repository =
  SaveCounter :: "string \<Rightarrow> int64 \<Rightarrow> 's \<Rightarrow> int64 result \<times> 's"
  SaveGauge :: "string \<Rightarrow> float64 \<Rightarrow> 's \<Rightarrow> float64 result \<times> 's"
  GetCounter :: "string \<Rightarrow> 's \<Rightarrow> int64 result \<times> 's"
  GetGauge :: "string \<Rightarrow> 's \<Rightarrow> float64 result \<times> 's"
  GetAllCounters :: "'s \<Rightarrow> (string \<rightharpoonup> int64) result \<times> 's"
  GetAllGauges :: "'s \<Rightarrow> (string \<rightharpoonup> float64) result \<times> 's"
  SaveBatch :: "metrics list \<Rightarrow> 's \<Rightarrow> unit result \<times> 's"

section \<open>The service\<close>

definition UpdateCounter :: "'s repository \<Rightarrow> string \<Rightarrow> int64 \<Rightarrow> 's \<Rightarrow> int64 result \<times> 's" where
  "UpdateCounter repo name value s = SaveCounter repo name value s"

definition UpdateGauge :: "'s repository \<Rightarrow> string \<Rightarrow> float64 \<Rightarrow> 's \<Rightarrow> float64 result \<times> 's" where
  "UpdateGauge repo name value s = SaveGauge repo name value s"

definition UpdateBatch :: "'s repository \<Rightarrow> metrics list \<Rightarrow> 's \<Rightarrow> unit result \<times> 's" where
  "UpdateBatch repo ms s = SaveBatch repo ms s"

definition svc_GetCounter :: "'s repository \<Rightarrow> string \<Rightarrow> 's \<Rightarrow> int64 result \<times> 's" where
  "svc_GetCounter repo name s = GetCounter repo name s"

definition svc_GetGauge :: "'s repository \<Rightarrow> string \<Rightarrow> 's \<Rightarrow> float64 result \<times> 's" where
  "svc_GetGauge repo name s = GetGauge repo name s"

definition svc_GetAllCounters :: "'s repository \<Rightarrow> 's \<Rightarrow> (string \<rightharpoonup> int64) result \<times> 's" where
  "svc_GetAllCounters repo s = GetAllCounters repo s"

definition svc_GetAllGauges :: "'s repository \<Rightarrow> 's \<Rightarrow> (string \<rightharpoonup> float64) result \<times> 's" where
  "svc_GetAllGauges repo s = GetAllGauges repo s"

lemmas service_defs =
  UpdateCounter_def UpdateGauge_def UpdateBatch_def
  svc_GetCounter_def svc_GetGauge_def svc_GetAllCounters_def svc_GetAllGauges_def

section \<open>Sequences of updates\<close>

text \<open>
  The updates clients issue, each atomic under the lock or the transaction of the store,
  and the run of a sequence of them: one interleaving of the clients. A failed update
  reports an error to its own caller and the others go on.
\<close>

datatype update =
    UpdCounter string int64
  | UpdGauge string float64
  | UpdBatch "metrics list"

fun update_metrics :: "update \<Rightarrow> metrics list" where
  "update_metrics (UpdCounter n v) = [NewCounter n v]"
| "update_metrics (UpdGauge n x) = [NewGauge n x]"
| "update_metrics (UpdBatch ms) = ms"

fun run_update :: "'s repository \<Rightarrow> update \<Rightarrow> 's \<Rightarrow> 's" where
  "run_update repo (UpdCounter n v) s = snd (UpdateCounter repo n v s)"
| "run_update repo (UpdGauge n x) s = snd (UpdateGauge repo n x s)"
| "run_update repo (UpdBatch ms) s = snd (UpdateBatch repo ms s)"

definition run_updates :: "'s repository \<Rightarrow> update list \<Rightarrow> 's \<Rightarrow> 's" where
  "run_updates repo us s = fold (run_update repo) us s"

lemma run_updates_simps [simp]:
  "run_updates repo [] s = s"
  "run_updates repo (u # us) s = run_updates repo us (run_update repo u s)"
  by (simp_all add: run_updates_def)

text \<open>Which additions a store accepts: any in memory, those within \<open>bigint\<close> in SQL.\<close>

fun batch_accepts ::
  "(int64 \<Rightarrow> int64 \<Rightarrow> bool) \<Rightarrow> (string \<rightharpoonup> int64) \<Rightarrow> metrics list \<Rightarrow> bool" where
  "batch_accepts acc c [] = True"
| "batch_accepts acc c (m # ms) =
     ((case Delta m of
         Some d \<Rightarrow> MType m = Counter \<longrightarrow> acc (go_index c (ID m)) d
       | None \<Rightarrow> True) \<and>
      batch_accepts acc (add_metric m c) ms)"

lemma batch_accepts_append:
  "batch_accepts acc c (ms @ ns) \<longleftrightarrow>
     batch_accepts acc c ms \<and> batch_accepts acc (batch_counters ms c) ns"
  by (induction ms arbitrary: c) auto

lemma batch_accepts_True [simp]: "batch_accepts (\<lambda>_ _. True) c ms"
  by (induction ms arbitrary: c) (auto split: option.splits)

section \<open>The contract of a store\<close>

text \<open>
  \<open>ctr\<close> and \<open>gau\<close> read the abstract maps off the state, \<open>ok\<close> is the invariant of the
  store (with no failure of its medium pending), \<open>acc\<close> the additions it accepts.
\<close>

locale metrics_repository =
  fixes repo :: "'s repository"
    and ctr :: "'s \<Rightarrow> string \<rightharpoonup> int64"
    and gau :: "'s \<Rightarrow> string \<rightharpoonup> float64"
    and ok :: "'s \<Rightarrow> bool"
    and acc :: "int64 \<Rightarrow> int64 \<Rightarrow> bool"
  assumes save_counter:
    "ok s \<Longrightarrow> acc (go_index (ctr s) n) v \<Longrightarrow>
       \<exists>s'. SaveCounter repo n v s = (Inr (go_index (ctr s) n + v), s') \<and> ok s' \<and>
            ctr s' = add_metric (NewCounter n v) (ctr s) \<and> gau s' = gau s"
    and save_gauge:
    "ok s \<Longrightarrow>
       \<exists>s'. SaveGauge repo n x s = (Inr x, s') \<and> ok s' \<and>
            ctr s' = ctr s \<and> gau s' = set_metric (NewGauge n x) (gau s)"
    and save_batch:
    "ok s \<Longrightarrow> batch_accepts acc (ctr s) ms \<Longrightarrow>
       \<exists>s'. SaveBatch repo ms s = (Inr (), s') \<and> ok s' \<and>
            ctr s' = batch_counters ms (ctr s) \<and> gau s' = batch_gauges ms (gau s)"
    and get_counter_found:
    "ok s \<Longrightarrow> ctr s n = Some v \<Longrightarrow>
       \<exists>s'. GetCounter repo n s = (Inr v, s') \<and> ok s' \<and> ctr s' = ctr s \<and> gau s' = gau s"
    and get_counter_missing:
    "ok s \<Longrightarrow> ctr s n = None \<Longrightarrow>
       \<exists>e s'. GetCounter repo n s = (Inl e, s') \<and> ok s' \<and> ctr s' = ctr s \<and> gau s' = gau s"
    and get_gauge_found:
    "ok s \<Longrightarrow> gau s n = Some x \<Longrightarrow>
       \<exists>s'. GetGauge repo n s = (Inr x, s') \<and> ok s' \<and> ctr s' = ctr s \<and> gau s' = gau s"
    and get_gauge_missing:
    "ok s \<Longrightarrow> gau s n = None \<Longrightarrow>
       \<exists>e s'. GetGauge repo n s = (Inl e, s') \<and> ok s' \<and> ctr s' = ctr s \<and> gau s' = gau s"
    and get_all_counters:
    "ok s \<Longrightarrow> \<exists>s'. GetAllCounters repo s = (Inr (ctr s), s') \<and> ok s' \<and> ctr s' = ctr s \<and> gau s' = gau s"
    and get_all_gauges:
    "ok s \<Longrightarrow> \<exists>s'. GetAllGauges repo s = (Inr (gau s), s') \<and> ok s' \<and> ctr s' = ctr s \<and> gau s' = gau s"
begin

lemma run_update_view:
  assumes "ok s" "batch_accepts acc (ctr s) (update_metrics u)"
  shows "ok (run_update repo u s) \<and>
         ctr (run_update repo u s) = batch_counters (update_metrics u) (ctr s) \<and>
         gau (run_update repo u s) = batch_gauges (update_metrics u) (gau s)"
proof (cases u)
  case (UpdCounter n v)
  with assms save_counter [of s n v] show ?thesis by (auto simp: service_defs)
next
  case (UpdGauge n x)
  with assms save_gauge [of s n x] show ?thesis by (auto simp: service_defs)
next
  case (UpdBatch ms)
  with assms save_batch [of s ms] show ?thesis by (auto simp: service_defs)
qed

text \<open>The refinement: running updates on the store is folding the batch on the maps.\<close>

lemma run_updates_view:
  assumes "ok s" "batch_accepts acc (ctr s) (concat (map update_metrics us))"
  shows "ok (run_updates repo us s) \<and>
         ctr (run_updates repo us s) = batch_counters (concat (map update_metrics us)) (ctr s) \<and>
         gau (run_updates repo us s) = batch_gauges (concat (map update_metrics us)) (gau s)"
  using assms
proof (induction us arbitrary: s)
  case Nil
  then show ?case by simp
next
  case (Cons u us)
  from Cons.prems have acc: "batch_accepts acc (ctr s) (update_metrics u)"
    and rest: "batch_accepts acc (batch_counters (update_metrics u) (ctr s))
                 (concat (map update_metrics us))"
    by (simp_all add: batch_accepts_append)
  note step = run_update_view [OF Cons.prems(1) acc]
  with rest Cons.IH [of "run_update repo u s"] show ?case by simp
qed

text \<open>What was saved is what is read.\<close>

lemma save_get_counter:
  assumes "ok s" "acc (go_index (ctr s) n) v"
  shows "fst (svc_GetCounter repo n (snd (UpdateCounter repo n v s)))
         = Inr (go_index (ctr s) n + v)"
proof -
  obtain s' where s': "SaveCounter repo n v s = (Inr (go_index (ctr s) n + v), s')" "ok s'"
      "ctr s' = add_metric (NewCounter n v) (ctr s)"
    using save_counter [OF assms] by blast
  then have "ctr s' n = Some (go_index (ctr s) n + v)" by simp
  from get_counter_found [OF s'(2) this] s'(1) show ?thesis by (auto simp: service_defs)
qed

lemma save_get_gauge:
  assumes "ok s"
  shows "fst (svc_GetGauge repo n (snd (UpdateGauge repo n x s))) = Inr x"
proof -
  obtain s' where s': "SaveGauge repo n x s = (Inr x, s')" "ok s'"
      "gau s' = set_metric (NewGauge n x) (gau s)"
    using save_gauge [OF assms] by blast
  then have "gau s' n = Some x" by simp
  from get_gauge_found [OF s'(2) this] s'(1) show ?thesis by (auto simp: service_defs)
qed

end

end
