(* ===== verification/Mem_Storage.thy ===== *)
theory Mem_Storage
  imports Repository
begin

text \<open>
  \<open>internal/storage/mem_storage.go\<close>: the in-memory store. Every operation holds the
  read-write mutex from its first to its last statement, so a concurrent execution is a
  sequence of whole operations, each one a function of the state here; \<open>Mem_Locks\<close> proves this.
\<close>

record mem_storage =
  Counters :: "string \<rightharpoonup> int64"
  Gauges :: "string \<rightharpoonup> float64"

definition New :: mem_storage where
  "New = \<lparr>Counters = Map.empty, Gauges = Map.empty\<rparr>"

definition mem_SaveCounter :: "string \<Rightarrow> int64 \<Rightarrow> mem_storage \<Rightarrow> int64 result \<times> mem_storage" where
  "mem_SaveCounter name value s =
     (let s' = s\<lparr>Counters := (Counters s)(name \<mapsto> go_index (Counters s) name + value)\<rparr>
      in (Inr (go_index (Counters s') name), s'))"

definition mem_SaveGauge :: "string \<Rightarrow> float64 \<Rightarrow> mem_storage \<Rightarrow> float64 result \<times> mem_storage" where
  "mem_SaveGauge name value s = (Inr value, s\<lparr>Gauges := (Gauges s)(name \<mapsto> value)\<rparr>)"

fun mem_batch_step :: "metrics \<Rightarrow> mem_storage \<Rightarrow> mem_storage" where
  "mem_batch_step m s =
     (if MType m = Counter then
        (case Delta m of
           None \<Rightarrow> s
         | Some d \<Rightarrow> s\<lparr>Counters := (Counters s)(ID m \<mapsto> go_index (Counters s) (ID m) + d)\<rparr>)
      else if MType m = Gauge then
        (case Value m of
           None \<Rightarrow> s
         | Some v \<Rightarrow> s\<lparr>Gauges := (Gauges s)(ID m \<mapsto> v)\<rparr>)
      else s)"

definition mem_SaveBatch :: "metrics list \<Rightarrow> mem_storage \<Rightarrow> unit result \<times> mem_storage" where
  "mem_SaveBatch ms s = (Inr (), fold mem_batch_step ms s)"

definition mem_GetCounter :: "string \<Rightarrow> mem_storage \<Rightarrow> int64 result \<times> mem_storage" where
  "mem_GetCounter name s =
     (case Counters s name of
        Some v \<Rightarrow> (Inr v, s)
      | None \<Rightarrow> (Inl (ErrWrap name ErrCounterNotFound), s))"

definition mem_GetGauge :: "string \<Rightarrow> mem_storage \<Rightarrow> float64 result \<times> mem_storage" where
  "mem_GetGauge name s =
     (case Gauges s name of
        Some v \<Rightarrow> (Inr v, s)
      | None \<Rightarrow> (Inl (ErrWrap name ErrGaugeNotFound), s))"

text \<open>The copies the caller may change: maps are values here, so a copy is the map.\<close>

definition mem_GetAllCounters :: "mem_storage \<Rightarrow> (string \<rightharpoonup> int64) result \<times> mem_storage" where
  "mem_GetAllCounters s = (Inr (Counters s), s)"

definition mem_GetAllGauges :: "mem_storage \<Rightarrow> (string \<rightharpoonup> float64) result \<times> mem_storage" where
  "mem_GetAllGauges s = (Inr (Gauges s), s)"

text \<open>\<open>Restore\<close> replaces each map unless the argument is nil (\<open>None\<close>).\<close>

definition Restore ::
  "(string \<rightharpoonup> int64) option \<Rightarrow> (string \<rightharpoonup> float64) option \<Rightarrow> mem_storage \<Rightarrow> mem_storage" where
  "Restore counters gauges s =
     (let s1 = (case counters of None \<Rightarrow> s | Some c \<Rightarrow> s\<lparr>Counters := c\<rparr>)
      in (case gauges of None \<Rightarrow> s1 | Some g \<Rightarrow> s1\<lparr>Gauges := g\<rparr>))"

definition mem_repo :: "mem_storage repository" where
  "mem_repo =
     \<lparr>SaveCounter = mem_SaveCounter, SaveGauge = mem_SaveGauge,
      GetCounter = mem_GetCounter, GetGauge = mem_GetGauge,
      GetAllCounters = mem_GetAllCounters, GetAllGauges = mem_GetAllGauges,
      SaveBatch = mem_SaveBatch\<rparr>"

lemmas mem_defs [repo_defs] =
  mem_repo_def mem_SaveCounter_def mem_SaveGauge_def mem_SaveBatch_def
  mem_GetCounter_def mem_GetGauge_def mem_GetAllCounters_def mem_GetAllGauges_def

section \<open>The store keeps the contract\<close>

lemma mem_batch_step_view [store_simps]:
  "Counters (mem_batch_step m s) = add_metric m (Counters s)"
  "Gauges (mem_batch_step m s) = set_metric m (Gauges s)"
  by (auto simp: add_metric_def set_metric_def split: option.splits)

declare mem_batch_step.simps [simp del]

lemma mem_batch_view [store_simps]:
  "Counters (fold mem_batch_step ms s) = batch_counters ms (Counters s)"
  "Gauges (fold mem_batch_step ms s) = batch_gauges ms (Gauges s)"
  by (induction ms arbitrary: s) (simp_all add: store_simps)

interpretation mem: metrics_repository mem_repo Counters Gauges "\<lambda>_. True" "\<lambda>_ _. True"
proof (unfold_locales, goal_cases)
  case (1 s n v)
  then show ?case by (simp add: repo_defs Let_def)
next
  case (2 s n x)
  then show ?case by (simp add: repo_defs)
next
  case (3 s ms)
  then show ?case by (simp add: repo_defs store_simps)
qed (simp_all add: repo_defs)

lemma mem_ext: "Counters s = Counters t \<Longrightarrow> Gauges s = Gauges t \<Longrightarrow> s = (t :: mem_storage)"
  by simp

lemma mem_run_updates:
  "Counters (run_updates mem_repo us s) = batch_counters (concat (map update_metrics us)) (Counters s)"
  "Gauges (run_updates mem_repo us s) = batch_gauges (concat (map update_metrics us)) (Gauges s)"
  using mem.run_updates_view [of s us] by simp_all

text \<open>
  C10: Interleavings of the updates of any number of clients of the in-memory store agree on every counter: two
  executions that apply the same updates in different orders end with the same counters,
  and each counter is the old value plus the sum of all deltas sent to it, modulo
  \<open>2 ^ 64\<close>. A gauge ends with the last value the execution wrote to it, and with its old value
  when it wrote none.
\<close>

theorem mem_interleaving:
  assumes "mset us = mset vs"
  shows "Counters (run_updates mem_repo us s) = Counters (run_updates mem_repo vs s) \<and>
         go_index (Counters (run_updates mem_repo us s)) n
           = go_index (Counters s) n + (\<Sum>m\<leftarrow>concat (map update_metrics us). delta_for n m) \<and>
         Gauges (run_updates mem_repo us s) n
           = (let xs = gauge_values n (concat (map update_metrics us))
              in if xs = [] then Gauges s n else Some (last xs))"
proof -
  have "mset (concat (map update_metrics us)) = mset (concat (map update_metrics vs))"
    using assms by (rule mset_concat_map)
  then have "batch_counters (concat (map update_metrics us)) (Counters s)
             = batch_counters (concat (map update_metrics vs)) (Counters s)"
    by (rule batch_counters_mset)
  then have "Counters (run_updates mem_repo us s) = Counters (run_updates mem_repo vs s)"
    by (simp only: mem_run_updates)
  moreover have "go_index (Counters (run_updates mem_repo us s)) n
      = go_index (Counters s) n + (\<Sum>m\<leftarrow>concat (map update_metrics us). delta_for n m)"
    by (simp only: mem_run_updates go_index_batch)
  moreover have "Gauges (run_updates mem_repo us s) n
      = (let xs = gauge_values n (concat (map update_metrics us))
         in if xs = [] then Gauges s n else Some (last xs))"
    by (simp only: mem_run_updates batch_gauges_last Let_def)
  ultimately show ?thesis by blast
qed

theorem mem_interleaving_witness:
  "Counters (run_updates mem_repo [UpdCounter ''a'' 5, UpdCounter ''a'' (- 1)] New)
     = Counters (run_updates mem_repo [UpdCounter ''a'' (- 1), UpdCounter ''a'' 5] New) \<and>
   go_index (Counters (run_updates mem_repo [UpdCounter ''a'' 5, UpdCounter ''a'' (- 1)] New)) ''a'' = 4"
proof -
  have h: "mset [UpdCounter ''a'' 5, UpdCounter ''a'' (- 1)]
           = mset [UpdCounter ''a'' (- 1), UpdCounter ''a'' 5]" by simp
  note inst = mem_interleaving [OF h, of New "''a''"]
  have "go_index (Counters New) ''a''
      + (\<Sum>m\<leftarrow>concat (map update_metrics [UpdCounter ''a'' 5, UpdCounter ''a'' (- 1)]). delta_for ''a'' m) = 4"
    by (simp add: New_def)
  with inst show ?thesis by metis
qed

end
