(* ===== verification/File_Store.thy ===== *)
theory File_Store
  imports Codec
begin

text \<open>
  \<open>internal/storage/file.go\<close>: writing and reading a snapshot file. Saving emits its effects
  on the disk one byte written, one file created, renamed or removed at a time, so that a
  crash is a prefix of the effects; the outcomes of the system calls are a plan.
\<close>

type_synonym disk = "string \<rightharpoonup> bytes"

datatype fs_action =
    FsCreate string
  | FsWrite string char
  | FsRename string string
  | FsRemove string

fun fs_apply :: "fs_action \<Rightarrow> disk \<Rightarrow> disk" where
  "fs_apply (FsCreate p) d = d(p \<mapsto> [])"
| "fs_apply (FsWrite p b) d = (case d p of None \<Rightarrow> d | Some c \<Rightarrow> d(p \<mapsto> c @ [b]))"
| "fs_apply (FsRename p q) d = (case d p of None \<Rightarrow> d | Some c \<Rightarrow> (d(p := None))(q \<mapsto> c))"
| "fs_apply (FsRemove p) d = d(p := None)"

definition fs_run :: "fs_action list \<Rightarrow> disk \<Rightarrow> disk" where
  "fs_run as d = fold fs_apply as d"

lemma fs_run_simps [simp]:
  "fs_run [] d = d"
  "fs_run (a # as) d = fs_run as (fs_apply a d)"
  "fs_run (as @ bs) d = fs_run bs (fs_run as d)"
  by (simp_all add: fs_run_def)

text \<open>
  Outcomes of the calls of one save: \<open>tmp_name\<close> is the file \<open>os.CreateTemp\<close> makes,
  \<open>write_fault\<close> a failed write with the number of bytes it still wrote.
\<close>

record io_plan =
  mkdir_fault :: "go_error option"
  tmp_name :: "string result"
  write_fault :: "(nat \<times> go_error) option"
  sync_fault :: "go_error option"
  close_fault :: "go_error option"
  rename_fault :: "go_error option"
  remove_fault :: "go_error option"
  rename2_fault :: "go_error option"
  cleanup_fault :: "go_error option"

definition good_io :: "io_plan \<Rightarrow> bool" where
  "good_io p \<longleftrightarrow>
     mkdir_fault p = None \<and> (case tmp_name p of Inl e \<Rightarrow> False | Inr t \<Rightarrow> True) \<and>
     write_fault p = None \<and> sync_fault p = None \<and> close_fault p = None \<and> rename_fault p = None"

section \<open>Saving\<close>

text \<open>The items in the iteration orders of the two maps.\<close>

definition save_items ::
  "string list \<Rightarrow> string list \<Rightarrow> (string \<rightharpoonup> int64) \<Rightarrow> (string \<rightharpoonup> float64) \<Rightarrow> metrics list" where
  "save_items corder gorder counters gauges =
     map (\<lambda>(id, v). NewCounter id v) (map_range corder counters) @
     map (\<lambda>(id, v). NewGauge id v) (map_range gorder gauges)"

text \<open>The rename, and its second attempt after removing the target.\<close>

definition save_rename :: "io_plan \<Rightarrow> string \<Rightarrow> string \<Rightarrow> go_error option \<times> fs_action list" where
  "save_rename p tmpPath path =
     (case rename_fault p of
        None \<Rightarrow> (None, [FsRename tmpPath path])
      | Some _ \<Rightarrow>
          (let rm = (if remove_fault p = None then [FsRemove path] else []) in
           case rename2_fault p of
             None \<Rightarrow> (None, rm @ [FsRename tmpPath path])
           | Some e \<Rightarrow> (Some e, rm)))"

text \<open>What follows the creation of the temporary file, without its deferred removal.\<close>

definition save_body ::
  "float_codec \<Rightarrow> io_plan \<Rightarrow> string \<Rightarrow> string \<Rightarrow> metrics list \<Rightarrow> go_error option \<times> fs_action list" where
  "save_body fc p tmpPath path items =
     (case encode_list fc items of
        Inl e \<Rightarrow> (Some e, [])
      | Inr v \<Rightarrow>
          (let data = json_indent v in
           case write_fault p of
             Some (n, e) \<Rightarrow> (Some e, map (FsWrite tmpPath) (take n data))
           | None \<Rightarrow>
               (let w = map (FsWrite tmpPath) data in
                case sync_fault p of Some e \<Rightarrow> (Some e, w)
                | None \<Rightarrow>
                    (case close_fault p of Some e \<Rightarrow> (Some e, w)
                     | None \<Rightarrow>
                         (case save_rename p tmpPath path of (e, as) \<Rightarrow> (e, w @ as))))))"

definition Save ::
  "float_codec \<Rightarrow> io_plan \<Rightarrow> string list \<Rightarrow> string list \<Rightarrow> string \<Rightarrow>
   (string \<rightharpoonup> int64) \<Rightarrow> (string \<rightharpoonup> float64) \<Rightarrow> go_error option \<times> fs_action list" where
  "Save fc p corder gorder path counters gauges =
     (if path = [] then (None, [])
      else case mkdir_fault p of
        Some e \<Rightarrow> (Some e, [])
      | None \<Rightarrow>
          (case tmp_name p of
             Inl e \<Rightarrow> (Some e, [])
           | Inr tmpPath \<Rightarrow>
               (case save_body fc p tmpPath path (save_items corder gorder counters gauges) of
                  (e, as) \<Rightarrow>
                    (e, FsCreate tmpPath # as @
                        (if cleanup_fault p = None then [FsRemove tmpPath] else [])))))"

section \<open>Loading\<close>

definition load_item ::
  "metrics option \<Rightarrow> (string \<rightharpoonup> int64) \<times> (string \<rightharpoonup> float64) \<Rightarrow>
   (string \<rightharpoonup> int64) \<times> (string \<rightharpoonup> float64)" where
  "load_item mo cg =
     (case mo of None \<Rightarrow> cg
      | Some m \<Rightarrow>
          if MType m = Counter then
            (case Delta m of None \<Rightarrow> cg | Some d \<Rightarrow> ((fst cg)(ID m \<mapsto> d), snd cg))
          else if MType m = Gauge then
            (case Value m of None \<Rightarrow> cg | Some v \<Rightarrow> (fst cg, (snd cg)(ID m \<mapsto> v)))
          else cg)"

text \<open>\<open>rd\<close> is a failed read of an existing file.\<close>

definition Load ::
  "float_codec \<Rightarrow> go_error option \<Rightarrow> disk \<Rightarrow> string \<Rightarrow>
   ((string \<rightharpoonup> int64) \<times> (string \<rightharpoonup> float64)) result" where
  "Load fc rd d path =
     (if path = [] then Inr (Map.empty, Map.empty)
      else case d path of
        None \<Rightarrow> Inr (Map.empty, Map.empty)
      | Some data \<Rightarrow>
          (case rd of
             Some e \<Rightarrow> Inl e
           | None \<Rightarrow>
               rbind (rbind (json_decode_all data) (decode_slice (decode_metrics_ptr fc)))
                 (\<lambda>items. Inr (fold load_item items (Map.empty, Map.empty)))))"

section \<open>Effects of a save\<close>

lemma fs_write_all: "d p = Some c \<Longrightarrow> fs_run (map (FsWrite p) bs) d = d(p \<mapsto> c @ bs)"
  by (induction bs arbitrary: d c) (auto simp: fun_upd_idem)

lemma fs_write_other: "q \<noteq> p \<Longrightarrow> fs_run (map (FsWrite p) bs) d q = d q"
  by (induction bs arbitrary: d) (auto split: option.splits)

text \<open>Files an action may change.\<close>

fun fs_touches :: "fs_action \<Rightarrow> string set" where
  "fs_touches (FsCreate p) = {p}"
| "fs_touches (FsWrite p b) = {p}"
| "fs_touches (FsRename p q) = {p, q}"
| "fs_touches (FsRemove p) = {p}"

lemma fs_run_untouched: "\<forall>a \<in> set as. q \<notin> fs_touches a \<Longrightarrow> fs_run as d q = d q"
proof (induction as arbitrary: d)
  case (Cons a as)
  then have "fs_apply a d q = d q"
    by (cases a) (auto split: option.splits)
  with Cons show ?case by simp
qed simp

lemma save_rename_touches:
  "a \<in> set (snd (save_rename p t path)) \<Longrightarrow> fs_touches a \<subseteq> {t, path}"
  by (auto simp: save_rename_def Let_def split: option.splits if_splits)

lemma save_body_touches:
  "a \<in> set (snd (save_body fc p t path items)) \<Longrightarrow> fs_touches a \<subseteq> {t, path}"
  using save_rename_touches [of a p t path]
  by (auto simp: save_body_def Let_def split: option.splits sum.splits prod.splits)

text \<open>The snapshot's text.\<close>

definition snapshot_text :: "float_codec \<Rightarrow> metrics list \<Rightarrow> bytes" where
  "snapshot_text fc items = json_indent (JArr (map (metrics_json fc) items))"

lemma encode_list_text: "encode_list fc items = Inr v \<Longrightarrow> json_indent v = snapshot_text fc items"
proof -
  assume e: "encode_list fc items = Inr v"
  then obtain vs where vs: "map_result (encode_metrics fc) items = Inr vs" "v = JArr vs"
    by (auto simp: encode_list_def rbind_Inr_iff)
  from map_result_all [OF vs(1)] have "vs = map (metrics_json fc) items"
    by (induction rule: list_all2_induct) (auto simp: encode_metrics_def split: if_splits)
  with vs show ?thesis by (simp add: snapshot_text_def)
qed

lemma items_encode_ok:
  "list_all float_field_ok items \<Longrightarrow> encode_list fc items = Inr (JArr (map (metrics_json fc) items))"
  by (rule encode_list_ok)


text \<open>A crash point is in the first or in the second of two sequences of effects.\<close>

lemma crash_split:
  assumes "\<And>j. P (fs_run (take j as) d)" "\<And>j. P (fs_run (take j bs) (fs_run as d))"
  shows "P (fs_run (take k (as @ bs)) d)"
proof (cases "k \<le> length as")
  case True
  then show ?thesis using assms(1) [of k] by simp
next
  case False
  then show ?thesis using assms(2) [of "k - length as"] by simp
qed

text \<open>What may be in the target at a crash point.\<close>

definition crash_state :: "io_plan \<Rightarrow> bytes option \<Rightarrow> bytes \<Rightarrow> bytes option \<Rightarrow> bool" where
  "crash_state p old new c \<longleftrightarrow>
     c = old \<or> c = Some new \<or> c = None \<and> rename_fault p \<noteq> None \<and> remove_fault p = None"

lemma rename_crash:
  assumes "d t = Some new" "t \<noteq> path" "crash_state p old new (d path)"
  shows "crash_state p old new (fs_run (take k (snd (save_rename p t path) @ cl)) d path)
         \<or> cl \<notin> {[], [FsRemove t]}"
  using assms
  by (auto simp: save_rename_def Let_def crash_state_def take_Cons' fun_upd_def
      split: option.splits if_splits)

lemma write_crash:
  assumes "t \<noteq> path"
  shows "fs_run (take j (FsCreate t # map (FsWrite t) bs)) d path = d path"
proof (rule fs_run_untouched, rule ballI)
  fix a assume "a \<in> set (take j (FsCreate t # map (FsWrite t) bs))"
  then have "a \<in> set (FsCreate t # map (FsWrite t) bs)" by (rule in_set_takeD)
  with assms show "path \<notin> fs_touches a" by auto
qed

text \<open>The shape of the effects: bytes into the temporary file, then perhaps the renaming.\<close>

lemma save_body_shape:
  obtains (partial) bs e where "save_body fc p t path items = (Some e, map (FsWrite t) bs)"
  | (full) "save_body fc p t path items =
       (fst (save_rename p t path),
        map (FsWrite t) (snapshot_text fc items) @ snd (save_rename p t path))"
proof (cases "encode_list fc items")
  case (Inl e)
  then show ?thesis using partial [of e "[]"] by (simp add: save_body_def)
next
  case (Inr v)
  note enc = encode_list_text [OF Inr]
  show ?thesis
  proof (cases "write_fault p = None \<and> sync_fault p = None \<and> close_fault p = None")
    case True
    with Inr enc show ?thesis
      by (intro full) (simp add: save_body_def Let_def split_beta)
  next
    case False
    have "\<exists>e bs. save_body fc p t path items = (Some e, map (FsWrite t) bs)"
      using False Inr enc by (auto simp: save_body_def Let_def split: option.splits)
    then show ?thesis using partial by blast
  qed
qed

lemma save_shape:
  assumes "path \<noteq> []" "mkdir_fault p = None" "tmp_name p = Inr t"
  shows "Save fc p co go path c g =
    (fst (save_body fc p t path (save_items co go c g)),
     FsCreate t # snd (save_body fc p t path (save_items co go c g)) @
       (if cleanup_fault p = None then [FsRemove t] else []))"
  using assms by (simp add: Save_def split_beta)

lemma save_crash_path:
  assumes t: "tmp_name p = Inr t" "t \<noteq> path"
  shows "crash_state p (d path) (snapshot_text fc (save_items co go c g))
           (fs_run (take k (snd (Save fc p co go path c g))) d path)"
proof (cases "path = [] \<or> mkdir_fault p \<noteq> None")
  case True
  then show ?thesis by (auto simp: Save_def crash_state_def)
next
  case False
  define items where "items = save_items co go c g"
  define cl where "cl = (if cleanup_fault p = None then [FsRemove t] else [])"
  let ?P = "\<lambda>d'. crash_state p (d path) (snapshot_text fc items) (d' path)"
  have acts: "snd (Save fc p co go path c g) = FsCreate t # snd (save_body fc p t path items) @ cl"
    using False t by (simp add: save_shape items_def cl_def)
  show ?thesis unfolding acts items_def [symmetric]
  proof (cases rule: save_body_shape [of fc p t path items])
    case (partial bs e)
    have "?P (fs_run (take k ((FsCreate t # map (FsWrite t) bs) @ cl)) d)"
    proof (rule crash_split)
      show "?P (fs_run (take j (FsCreate t # map (FsWrite t) bs)) d)" for j
        using t(2) by (simp add: write_crash crash_state_def)
      show "?P (fs_run (take j cl) (fs_run (FsCreate t # map (FsWrite t) bs) d))" for j
        using t(2) by (auto simp: cl_def take_Cons' fs_write_other crash_state_def)
    qed
    then show "?P (fs_run (take k (FsCreate t # snd (save_body fc p t path items) @ cl)) d)"
      by (simp add: partial)
  next
    case full
    let ?w = "FsCreate t # map (FsWrite t) (snapshot_text fc items)"
    have "?P (fs_run (take k (?w @ (snd (save_rename p t path) @ cl))) d)"
    proof (rule crash_split)
      show "?P (fs_run (take j ?w) d)" for j
        using t(2) by (simp add: write_crash crash_state_def)
      show "?P (fs_run (take j (snd (save_rename p t path) @ cl)) (fs_run ?w d))" for j
        using rename_crash [of "fs_run ?w d" t "snapshot_text fc items" path p "d path" j cl] t(2)
        by (auto simp: cl_def fs_write_all [of _ t "[]"] crash_state_def split: if_splits)
    qed
    then show "?P (fs_run (take k (FsCreate t # snd (save_body fc p t path items) @ cl)) d)"
      by (simp add: full)
  qed
qed

lemma save_touches:
  assumes "tmp_name p = Inr t" "a \<in> set (snd (Save fc p co go path c g))"
  shows "fs_touches a \<subseteq> {t, path}"
  using assms save_body_touches [of a fc p t path "save_items co go c g"]
  by (auto simp: Save_def split_beta split: option.splits if_splits)

lemma save_success:
  assumes t: "tmp_name p = Inr t" "t \<noteq> path" and path: "path \<noteq> []"
    and ok: "fst (Save fc p co go path c g) = None"
  shows "fs_run (snd (Save fc p co go path c g)) d path = Some (snapshot_text fc (save_items co go c g))"
    and "fs_run (snd (Save fc p co go path c g)) d t = None"
proof -
  define items where "items = save_items co go c g"
  have mk: "mkdir_fault p = None" using ok path by (auto simp: Save_def split: option.splits)
  note shape = save_shape [OF path mk t(1), of fc co go c g, folded items_def]
  from ok have "fst (save_body fc p t path items) = None" by (simp add: shape)
  then have full: "save_body fc p t path items =
       (None, map (FsWrite t) (snapshot_text fc items) @ snd (save_rename p t path))"
      and "fst (save_rename p t path) = None"
    by (cases rule: save_body_shape [of fc p t path items]; simp)+
  let ?d = "fs_run (FsCreate t # map (FsWrite t) (snapshot_text fc items)) d"
  have "?d t = Some (snapshot_text fc items)" by (simp add: fs_write_all [of _ t "[]"])
  then have "fs_run (snd (save_rename p t path)) ?d path = Some (snapshot_text fc items) \<and>
             fs_run (snd (save_rename p t path)) ?d t = None"
    using \<open>fst (save_rename p t path) = None\<close> t(2)
    by (auto simp: save_rename_def Let_def split: option.splits if_splits)
  then show "fs_run (snd (Save fc p co go path c g)) d path = Some (snapshot_text fc (save_items co go c g))"
    "fs_run (snd (Save fc p co go path c g)) d t = None"
    using t(2) by (simp_all add: shape full flip: items_def)
qed

lemma save_failure:
  assumes t: "tmp_name p = Inr t" "t \<noteq> path"
    and err: "fst (Save fc p co go path c g) = Some e"
    and no_double: "rename_fault p = None \<or> rename2_fault p = None \<or> remove_fault p \<noteq> None"
  shows "fs_run (snd (Save fc p co go path c g)) d path = d path"
proof (cases "path = [] \<or> mkdir_fault p \<noteq> None")
  case True
  then show ?thesis by (auto simp: Save_def)
next
  case False
  define items where "items = save_items co go c g"
  have shape: "Save fc p co go path c g =
    (fst (save_body fc p t path items), FsCreate t # snd (save_body fc p t path items) @
       (if cleanup_fault p = None then [FsRemove t] else []))"
    using False t by (simp add: save_shape items_def)
  show ?thesis
  proof (cases rule: save_body_shape [of fc p t path items])
    case (partial bs e)
    then show ?thesis using t(2) by (simp add: shape fs_write_other)
  next
    case full
    with err no_double have "snd (save_rename p t path) = []"
      by (auto simp: shape save_rename_def Let_def split: option.splits if_splits)
    with full show ?thesis using t(2) by (simp add: shape fs_write_other)
  qed
qed

text \<open>A failed save that touches the old snapshot removed it after one failed rename and failed again.\<close>

lemma save_double_fault:
  assumes t: "tmp_name p = Inr t" "t \<noteq> path" and s: "Save fc p co go path c g = (Some x, as)"
    and changed: "fs_run as d path \<noteq> d path"
  shows "fs_run as d path = None \<and> rename_fault p \<noteq> None \<and> remove_fault p = None \<and> rename2_fault p \<noteq> None"
proof -
  have "\<not> (rename_fault p = None \<or> rename2_fault p = None \<or> remove_fault p \<noteq> None)"
    using save_failure [OF t, of fc co go c g x d] s changed by (metis fst_conv snd_conv)
  then have dbl: "rename_fault p \<noteq> None" "remove_fault p = None" "rename2_fault p \<noteq> None" by simp_all
  have "path \<noteq> []" using changed s by (auto simp: Save_def)
  have mk: "mkdir_fault p = None" using changed s by (auto simp: Save_def split: option.splits if_splits)
  show ?thesis using changed dbl s save_shape [OF \<open>path \<noteq> []\<close> mk t(1), of fc co go c g] t(2)
    by (cases rule: save_body_shape [of fc p t path "save_items co go c g"])
      (auto simp: save_rename_def fs_write_other split: if_splits)
qed

text \<open>
  C8: Saving is atomic up to one double fault. Wherever the process stops, even between two
  bytes, the snapshot file holds what it held before or the whole new snapshot, and no file
  but it and the temporary one has changed. It can be missing only when the first rename failed
  and the old snapshot was then removed. A save that reports success has left the new snapshot
  and no temporary file; a save that reports an error has left the old snapshot, except
  when both renames failed with the removal in between: then the snapshot is gone.
\<close>

theorem save_crash_atomic:
  assumes t: "tmp_name p = Inr t" "t \<noteq> path"
  shows "(let (e, as) = Save fc p co go path c g;
              new = snapshot_text fc (save_items co go c g)
          in crash_state p (d path) new (fs_run (take k as) d path) \<and>
             (\<forall>q. q = t \<or> q = path \<or> fs_run (take k as) d q = d q) \<and>
             (case e of
                None \<Rightarrow> path = [] \<or> fs_run as d path = Some new \<and> fs_run as d t = None
              | Some _ \<Rightarrow>
                  fs_run as d path = d path \<or>
                  fs_run as d path = None \<and>
                  rename_fault p \<noteq> None \<and> remove_fault p = None \<and> rename2_fault p \<noteq> None))"
proof -
  obtain e as where s: "Save fc p co go path c g = (e, as)" by (cases "Save fc p co go path c g")
  note crash = save_crash_path [OF t, of d fc co go c g]
  have other: "q = t \<or> q = path \<or> fs_run (take k as) d q = d q" for q
  proof -
    have "q \<notin> fs_touches a" if "a \<in> set (take k as)" "q \<noteq> t" "q \<noteq> path" for a
      using save_touches [OF t(1), of a fc co go path c g] in_set_takeD [OF that(1)] that s by auto
    then show ?thesis using fs_run_untouched [of "take k as" q d] by blast
  qed
  have final: "case e of
                None \<Rightarrow> path = [] \<or> fs_run as d path = Some (snapshot_text fc (save_items co go c g)) \<and>
                        fs_run as d t = None
              | Some _ \<Rightarrow>
                  fs_run as d path = d path \<or>
                  fs_run as d path = None \<and>
                  rename_fault p \<noteq> None \<and> remove_fault p = None \<and> rename2_fault p \<noteq> None"
  proof (cases e)
    case None
    then show ?thesis using save_success [OF t, of fc co go c g d] s by auto
  next
    case (Some x)
    then show ?thesis using save_double_fault [OF t s [unfolded Some]] by auto
  qed
  show ?thesis using crash [of k] other final by (simp add: s Let_def)
qed


definition plan_ok :: "string \<Rightarrow> io_plan" where
  "plan_ok t =
     \<lparr>mkdir_fault = None, tmp_name = Inr t, write_fault = None, sync_fault = None,
      close_fault = None, rename_fault = None, remove_fault = None, rename2_fault = None,
      cleanup_fault = None\<rparr>"

definition plan_double :: "string \<Rightarrow> io_plan" where
  "plan_double t = (plan_ok t)\<lparr>rename_fault := Some (ErrText ''a''), rename2_fault := Some (ErrText ''b'')\<rparr>"

theorem save_crash_atomic_witness:
  "(\<exists>e as. Save bits_codec (plan_double ''t'') [] [] ''p'' Map.empty Map.empty = (Some e, as) \<and>
      fs_run as [''p'' \<mapsto> ''old''] ''p'' = None) \<and>
   (case Save bits_codec (plan_double ''t'') [] [] ''p'' Map.empty Map.empty of
      (e, as) \<Rightarrow> fs_run (take 0 as) [''p'' \<mapsto> ''old''] ''q'' = None)"
proof -
  have t: "tmp_name (plan_double ''t'') = Inr ''t''" "''t'' \<noteq> ''p''"
    by (simp_all add: plan_double_def plan_ok_def)
  note inst = save_crash_atomic [OF t, of bits_codec "[]" "[]" Map.empty Map.empty "[''p'' \<mapsto> ''old'']" 0]
  have enc: "encode_list bits_codec [] = Inr (JArr [])" by (simp add: encode_list_def)
  have "\<exists>as. Save bits_codec (plan_double ''t'') [] [] ''p'' Map.empty Map.empty = (Some (ErrText ''b''), as) \<and>
      fs_run as [''p'' \<mapsto> ''old''] ''p'' = None"
    by (simp add: Save_def save_body_def save_items_def enc save_rename_def plan_double_def plan_ok_def
        Let_def fs_write_other)
  moreover have "case Save bits_codec (plan_double ''t'') [] [] ''p'' Map.empty Map.empty of
      (e, as) \<Rightarrow> fs_run (take 0 as) [''p'' \<mapsto> ''old''] ''q'' = None"
    using inst by (auto simp: Let_def split: prod.splits)
  ultimately show ?thesis by blast
qed

section \<open>Round trip\<close>

text \<open>A store whose snapshot is complete: UTF-8 names and finite gauges.\<close>

definition store_text_ok :: "(string \<rightharpoonup> int64) \<Rightarrow> (string \<rightharpoonup> float64) \<Rightarrow> bool" where
  "store_text_ok c g \<longleftrightarrow>
     (\<forall>n \<in> dom c. utf8_valid n) \<and> (\<forall>n \<in> dom g. utf8_valid n) \<and> (\<forall>x \<in> ran g. is_finite_float x)"

lemma save_items_text_ok:
  assumes "store_text_ok c g"
  shows "list_all metrics_text_ok (save_items co go c g)"
proof -
  have "utf8_valid n" if "c n = Some v" for n v using assms that by (auto simp: store_text_ok_def)
  moreover have "utf8_valid n \<and> is_finite_float x" if "g n = Some x" for n x
    using assms that by (auto simp: store_text_ok_def ranI)
  ultimately show ?thesis
    by (auto simp: save_items_def list_all_iff metrics_text_ok_def float_field_ok_def map_range_in)
qed

lemma load_counters:
  "fold load_item (map (\<lambda>(n, v). Some (NewCounter n v)) xs) (c, g) =
   (fold (\<lambda>(k, v) r. r(k \<mapsto> v)) xs c, g)"
  by (induction xs arbitrary: c) (auto simp: load_item_def)

lemma load_gauges:
  "fold load_item (map (\<lambda>(n, v). Some (NewGauge n v)) xs) (c, g) =
   (c, fold (\<lambda>(k, v) r. r(k \<mapsto> v)) xs g)"
  by (induction xs arbitrary: g) (auto simp: load_item_def)

lemma load_save_items:
  assumes "map_order c co" "map_order g go"
  shows "fold load_item (map Some (save_items co go c g)) (Map.empty, Map.empty) = (c, g)"
proof -
  have "map Some (save_items co go c g) =
      map (\<lambda>(n, v). Some (NewCounter n v)) (map_range co c) @
      map (\<lambda>(n, v). Some (NewGauge n v)) (map_range go g)"
    by (simp add: save_items_def split_beta comp_def)
  then show ?thesis
    by (simp add: load_counters load_gauges fold_upd_map_range [OF assms(1)] fold_upd_map_range [OF assms(2)])
qed

lemma load_snapshot:
  assumes fc: "float_codec_ok fc" and ok: "store_text_ok c g"
    and ord: "map_order c co" "map_order g go"
    and cont: "d path = Some (snapshot_text fc (save_items co go c g))"
  shows "path = [] \<or> Load fc None d path = Inr (c, g)"
proof -
  let ?items = "save_items co go c g"
  note items = save_items_text_ok [OF ok, of co go]
  have "json_decode_all (snapshot_text fc ?items) = Inr (JArr (map (metrics_json fc) ?items))"
    unfolding snapshot_text_def by (rule decode_indent [OF json_ok_list [OF fc items]])
  then show ?thesis
    by (simp add: Load_def cont decode_slice_list(2) [OF fc text_ok_float_ok [OF items]]
        load_save_items [OF ord])
qed

lemma good_io_tmp: "good_io p \<Longrightarrow> \<exists>t. tmp_name p = Inr t"
  by (auto simp: good_io_def split: sum.splits)

lemma save_good:
  assumes io: "good_io p" and items: "list_all float_field_ok (save_items co go c g)"
  shows "fst (Save fc p co go path c g) = None"
proof -
  obtain t where "tmp_name p = Inr t" using good_io_tmp [OF io] by blast
  with io show ?thesis
    by (simp add: Save_def good_io_def save_body_def items_encode_ok [OF items] Let_def
        save_rename_def split_beta)
qed

text \<open>
  C22: A snapshot that is saved is the one that is loaded: when no system call fails, the
  names are UTF-8 and the gauges finite, saving reports success and loading the file gives back
  exactly the two maps, whatever order Go iterated over them in.
\<close>

theorem load_save:
  assumes fc: "float_codec_ok fc" and io: "good_io p" and ok: "store_text_ok c g"
    and ord: "map_order c co" "map_order g go"
    and path: "path \<noteq> []" "tmp_name p \<noteq> Inr path"
  shows "fst (Save fc p co go path c g) = None \<and>
         Load fc None (fs_run (snd (Save fc p co go path c g)) d) path = Inr (c, g)"
proof -
  obtain t where t: "tmp_name p = Inr t" using good_io_tmp [OF io] by blast
  with path(2) have ne: "t \<noteq> path" by auto
  have good: "fst (Save fc p co go path c g) = None"
    by (rule save_good [OF io text_ok_float_ok [OF save_items_text_ok [OF ok]]])
  from save_success(1) [OF t ne path(1) good] load_snapshot [OF fc ok ord] path(1) good
  show ?thesis by blast
qed

theorem load_save_witness:
  "Load bits_codec None
     (fs_run (snd (Save bits_codec (plan_ok ''t'') [''a''] [''g''] ''p'' [''a'' \<mapsto> 7] [''g'' \<mapsto> 0])) Map.empty) ''p''
   = Inr ([''a'' \<mapsto> 7], [''g'' \<mapsto> 0])"
proof -
  have "good_io (plan_ok ''t'')" by (simp add: good_io_def plan_ok_def)
  moreover have "store_text_ok [''a'' \<mapsto> 7] [''g'' \<mapsto> 0]"
    by (simp add: store_text_ok_def is_finite_float_def utf8_valid_ascii byte_in_def)
  moreover have "map_order [''a'' \<mapsto> (7 :: int64)] [''a'']" "map_order [''g'' \<mapsto> (0 :: float64)] [''g'']"
    by (simp_all add: map_order_def)
  moreover have "tmp_name (plan_ok ''t'') \<noteq> Inr ''p''" by (simp add: plan_ok_def)
  ultimately show ?thesis
    using load_save [OF bits_codec_ok, of "plan_ok ''t''" "[''a'' \<mapsto> 7]" "[''g'' \<mapsto> 0]" "[''a'']" "[''g'']" "''p''" Map.empty]
    by simp
qed

text \<open>
  A gauge that is not finite stops persistence: while a gauge of the store is a NaN or
  an infinity, every save fails, whatever the system calls do, and the snapshot file keeps its
  old content.
\<close>

theorem save_nonfinite_gauge:
  assumes x: "g n = Some x" "\<not> is_finite_float x" and ord: "map_order g go"
    and path: "path \<noteq> []" "tmp_name p \<noteq> Inr path"
  shows "(\<exists>e. fst (Save fc p co go path c g) = Some e) \<and>
         fs_run (snd (Save fc p co go path c g)) d path = d path"
proof -
  let ?items = "save_items co go c g"
  have "(n, x) \<in> set (map_range go g)" using x ord by (auto simp: map_range_in map_order_def)
  then have "NewGauge n x \<in> set ?items" by (force simp: save_items_def)
  moreover have "encode_metrics fc (NewGauge n x) = Inl (ErrText ''json: unsupported value'')"
    using x(2) by (simp add: encode_metrics_def float_field_ok_def)
  ultimately obtain e where "encode_list fc ?items = Inl e"
    using map_result_Inl [of "NewGauge n x" ?items "encode_metrics fc"] by (auto simp: encode_list_def)
  then have body: "save_body fc p t path ?items = (Some e, [])" for t
    by (simp add: save_body_def)
  show ?thesis
  proof (cases "mkdir_fault p = None")
    case False
    then show ?thesis using path(1) by (auto simp: Save_def)
  next
    case True
    then show ?thesis using path
      by (cases "tmp_name p") (auto simp: Save_def body)
  qed
qed

theorem save_nonfinite_gauge_witness:
  "fs_run (snd (Save bits_codec (plan_ok ''t'') [] [''g''] ''p'' Map.empty [''g'' \<mapsto> 0x7FF8000000000001]))
     [''p'' \<mapsto> ''old''] ''p'' = Some ''old''"
proof -
  have "\<not> is_finite_float 0x7FF8000000000001" by (simp add: is_finite_float_def) 
  moreover have "map_order [''g'' \<mapsto> (0x7FF8000000000001 :: float64)] [''g'']" by (simp add: map_order_def)
  moreover have "tmp_name (plan_ok ''t'') \<noteq> Inr ''p''" by (simp add: plan_ok_def)
  ultimately show ?thesis
    using save_nonfinite_gauge [of "[''g'' \<mapsto> 0x7FF8000000000001]" "''g''" "0x7FF8000000000001" "[''g'']" "''p''"
        "plan_ok ''t''" bits_codec "[]" Map.empty "[''p'' \<mapsto> ''old'']"]
    by simp
qed

end
