(* ===== verification/Snapshot.thy ===== *)
theory Snapshot
  imports Mem_Storage File_Store Config_Server
begin

text \<open>
  \<open>internal/server\<close>: restoring the memory store from its snapshot, the periodic snapshot and
  the repository that saves after every update (\<open>SyncSaveRepo\<close>).

  The state is the memory store, the disk and the number of saves so far; the environment
  gives, for each save, the outcomes of its system calls and the iteration orders of the maps.
\<close>

record sync_state =
  sy_mem :: mem_storage
  sy_disk :: disk
  sy_saves :: nat

record save_env =
  se_plan :: "nat \<Rightarrow> io_plan"
  se_corder :: "nat \<Rightarrow> (string \<rightharpoonup> int64) \<Rightarrow> string list"
  se_gorder :: "nat \<Rightarrow> (string \<rightharpoonup> float64) \<Rightarrow> string list"

definition map_or_nil :: "('k \<rightharpoonup> 'v) result \<Rightarrow> 'k \<rightharpoonup> 'v" where
  "map_or_nil r = (case r of Inr m \<Rightarrow> m | Inl _ \<Rightarrow> Map.empty)"

definition SaveSnapshot :: "float_codec \<Rightarrow> save_env \<Rightarrow> server_config \<Rightarrow> sync_state \<Rightarrow> sync_state" where
  "SaveSnapshot fc env cfg s =
     (if sv_FileStoragePath cfg = [] then s
      else let counters = map_or_nil (fst (mem_GetAllCounters (sy_mem s)));
               gauges = map_or_nil (fst (mem_GetAllGauges (sy_mem s)));
               k = sy_saves s
           in case Save fc (se_plan env k) (se_corder env k counters) (se_gorder env k gauges)
                     (sv_FileStoragePath cfg) counters gauges of
                (err, acts) \<Rightarrow> s\<lparr>sy_disk := fs_run acts (sy_disk s), sy_saves := Suc k\<rparr>)"

definition RestoreIfNeeded ::
  "float_codec \<Rightarrow> go_error option \<Rightarrow> server_config \<Rightarrow> disk \<Rightarrow> mem_storage \<Rightarrow> mem_storage" where
  "RestoreIfNeeded fc rd cfg d st =
     (if \<not> sv_Restore cfg \<or> sv_FileStoragePath cfg = [] then st
      else case Load fc rd d (sv_FileStoragePath cfg) of
        Inl e \<Rightarrow> st
      | Inr (counters, gauges) \<Rightarrow>
          if dom counters = {} \<and> dom gauges = {} then st
          else Restore (Some counters) (Some gauges) st)"

section \<open>The periodic snapshot\<close>

text \<open>
  What the loop of \<open>RunPeriodicSave\<close> selects on, interleaved with the updates of the
  handlers. The loop never starts without an interval or a path, and stops when cancelled.
\<close>

datatype periodic_event = PTick | PCancel | PUpdate update

fun periodic_loop ::
  "float_codec \<Rightarrow> save_env \<Rightarrow> server_config \<Rightarrow> bool \<Rightarrow> periodic_event list \<Rightarrow> sync_state \<Rightarrow> sync_state" where
  "periodic_loop fc env cfg running [] s = s"
| "periodic_loop fc env cfg running (PUpdate u # es) s =
     periodic_loop fc env cfg running es (s\<lparr>sy_mem := run_update mem_repo u (sy_mem s)\<rparr>)"
| "periodic_loop fc env cfg running (PTick # es) s =
     periodic_loop fc env cfg running es (if running then SaveSnapshot fc env cfg s else s)"
| "periodic_loop fc env cfg running (PCancel # es) s = periodic_loop fc env cfg False es s"

definition RunPeriodicSave ::
  "float_codec \<Rightarrow> save_env \<Rightarrow> server_config \<Rightarrow> periodic_event list \<Rightarrow> sync_state \<Rightarrow> sync_state" where
  "RunPeriodicSave fc env cfg es s =
     periodic_loop fc env cfg (\<not> (sv_StoreInterval cfg \<le> 0 \<or> sv_FileStoragePath cfg = [])) es s"

section \<open>The synchronous store\<close>

definition sync_save :: "float_codec \<Rightarrow> save_env \<Rightarrow> server_config \<Rightarrow> sync_state \<Rightarrow> sync_state" where
  "sync_save fc env cfg s =
     (if sv_StoreInterval cfg = 0 \<and> sv_FileStoragePath cfg \<noteq> [] then SaveSnapshot fc env cfg s else s)"

definition sync_SaveCounter ::
  "float_codec \<Rightarrow> save_env \<Rightarrow> server_config \<Rightarrow> string \<Rightarrow> int64 \<Rightarrow> sync_state \<Rightarrow> int64 result \<times> sync_state" where
  "sync_SaveCounter fc env cfg name value s =
     (case mem_SaveCounter name value (sy_mem s) of
        (Inl e, m) \<Rightarrow> (Inl e, s\<lparr>sy_mem := m\<rparr>)
      | (Inr v, m) \<Rightarrow> (Inr v, sync_save fc env cfg (s\<lparr>sy_mem := m\<rparr>)))"

definition sync_SaveGauge ::
  "float_codec \<Rightarrow> save_env \<Rightarrow> server_config \<Rightarrow> string \<Rightarrow> float64 \<Rightarrow> sync_state \<Rightarrow> float64 result \<times> sync_state" where
  "sync_SaveGauge fc env cfg name value s =
     (case mem_SaveGauge name value (sy_mem s) of
        (Inl e, m) \<Rightarrow> (Inl e, s\<lparr>sy_mem := m\<rparr>)
      | (Inr v, m) \<Rightarrow> (Inr v, sync_save fc env cfg (s\<lparr>sy_mem := m\<rparr>)))"

definition sync_SaveBatch ::
  "float_codec \<Rightarrow> save_env \<Rightarrow> server_config \<Rightarrow> metrics list \<Rightarrow> sync_state \<Rightarrow> unit result \<times> sync_state" where
  "sync_SaveBatch fc env cfg ms s =
     (case mem_SaveBatch ms (sy_mem s) of
        (Inl e, m) \<Rightarrow> (Inl e, s\<lparr>sy_mem := m\<rparr>)
      | (Inr v, m) \<Rightarrow> (Inr (), sync_save fc env cfg (s\<lparr>sy_mem := m\<rparr>)))"

definition sync_read :: "(mem_storage \<Rightarrow> 'a result \<times> mem_storage) \<Rightarrow> sync_state \<Rightarrow> 'a result \<times> sync_state" where
  "sync_read f s = (case f (sy_mem s) of (r, m) \<Rightarrow> (r, s\<lparr>sy_mem := m\<rparr>))"

definition sync_repo :: "float_codec \<Rightarrow> save_env \<Rightarrow> server_config \<Rightarrow> sync_state repository" where
  "sync_repo fc env cfg =
     \<lparr>SaveCounter = sync_SaveCounter fc env cfg, SaveGauge = sync_SaveGauge fc env cfg,
      GetCounter = (\<lambda>n. sync_read (mem_GetCounter n)), GetGauge = (\<lambda>n. sync_read (mem_GetGauge n)),
      GetAllCounters = sync_read mem_GetAllCounters, GetAllGauges = sync_read mem_GetAllGauges,
      SaveBatch = sync_SaveBatch fc env cfg\<rparr>"

lemmas sync_defs [repo_defs] =
  sync_repo_def sync_SaveCounter_def sync_SaveGauge_def sync_SaveBatch_def sync_read_def

text \<open>Saving touches the disk and the count only.\<close>

lemma SaveSnapshot_mem [simp]: "sy_mem (SaveSnapshot fc env cfg s) = sy_mem s"
  by (simp add: SaveSnapshot_def Let_def split_beta)

lemma sync_save_mem [simp]: "sy_mem (sync_save fc env cfg s) = sy_mem s"
  by (simp add: sync_save_def)

interpretation sync: metrics_repository "sync_repo fc env cfg"
  "\<lambda>s. Counters (sy_mem s)" "\<lambda>s. Gauges (sy_mem s)" "\<lambda>_. True" "\<lambda>_ _. True" for fc env cfg
proof (unfold_locales, goal_cases)
  case (1 s n v)
  then show ?case by (simp add: repo_defs Let_def)
next
  case (2 s n x)
  then show ?case by (simp add: repo_defs)
next
  case (3 s ms)
  then show ?case by (simp add: repo_defs store_simps)
qed (simp_all add: repo_defs)

section \<open>Durability\<close>

text \<open>
  The save number \<open>k\<close> of the store \<open>m\<close> can be complete: its system calls succeed, its
  temporary file is not the snapshot, its orders enumerate the maps, its text is exact.
\<close>

definition save_ok :: "save_env \<Rightarrow> server_config \<Rightarrow> nat \<Rightarrow> mem_storage \<Rightarrow> bool" where
  "save_ok env cfg k m \<longleftrightarrow>
     good_io (se_plan env k) \<and> tmp_name (se_plan env k) \<noteq> Inr (sv_FileStoragePath cfg) \<and>
     map_order (Counters m) (se_corder env k (Counters m)) \<and>
     map_order (Gauges m) (se_gorder env k (Gauges m)) \<and>
     store_text_ok (Counters m) (Gauges m)"

lemma SaveSnapshot_load:
  assumes "float_codec_ok fc" "sv_FileStoragePath cfg \<noteq> []" "save_ok env cfg (sy_saves s) (sy_mem s)"
  shows "Load fc None (sy_disk (SaveSnapshot fc env cfg s)) (sv_FileStoragePath cfg)
         = Inr (Counters (sy_mem s), Gauges (sy_mem s))"
proof -
  from assms(3) obtain t where t: "tmp_name (se_plan env (sy_saves s)) = Inr t"
    and io: "good_io (se_plan env (sy_saves s))" and ne: "t \<noteq> sv_FileStoragePath cfg"
    using good_io_tmp unfolding save_ok_def by force
  let ?c = "Counters (sy_mem s)" and ?g = "Gauges (sy_mem s)"
  let ?co = "se_corder env (sy_saves s) ?c" and ?go = "se_gorder env (sy_saves s) ?g"
  from assms(3) have ok: "store_text_ok ?c ?g" and ord: "map_order ?c ?co" "map_order ?g ?go"
    by (simp_all add: save_ok_def)
  have good: "fst (Save fc (se_plan env (sy_saves s)) ?co ?go (sv_FileStoragePath cfg) ?c ?g) = None"
    by (rule save_good [OF io text_ok_float_ok [OF save_items_text_ok [OF ok]]])
  let ?acts = "snd (Save fc (se_plan env (sy_saves s)) ?co ?go (sv_FileStoragePath cfg) ?c ?g)"
  have "Load fc None (fs_run ?acts (sy_disk s)) (sv_FileStoragePath cfg) = Inr (?c, ?g)"
    using load_snapshot [where d = "fs_run ?acts (sy_disk s)" and path = "sv_FileStoragePath cfg",
        OF assms(1) ok ord save_success(1) [OF t ne assms(2) good, of "sy_disk s"]] assms(2)
    by blast
  then show ?thesis using assms(2)
    by (simp add: SaveSnapshot_def Let_def split_beta map_or_nil_def mem_GetAllCounters_def
        mem_GetAllGauges_def)
qed

text \<open>A restart: a new store, restored from the disk.\<close>

definition restart :: "float_codec \<Rightarrow> server_config \<Rightarrow> disk \<Rightarrow> mem_storage" where
  "restart fc cfg d = RestoreIfNeeded fc None cfg d New"

lemma restart_loaded:
  assumes "Load fc None d (sv_FileStoragePath cfg) = Inr (Counters m, Gauges m)"
    and "sv_Restore cfg" "sv_FileStoragePath cfg \<noteq> []"
  shows "restart fc cfg d = m"
  using assms by (auto simp: restart_def RestoreIfNeeded_def Restore_def New_def intro: mem_ext)

lemma sync_run_update:
  "sy_mem (run_update (sync_repo fc env cfg) u s) = run_update mem_repo u (sy_mem s)"
  "run_update (sync_repo fc env cfg) u s =
     sync_save fc env cfg (s\<lparr>sy_mem := run_update mem_repo u (sy_mem s)\<rparr>)"
  by (cases u; simp add: service_defs repo_defs Let_def)+

lemma sync_run_mem:
  "sy_mem (run_updates (sync_repo fc env cfg) us s) = run_updates mem_repo us (sy_mem s)"
  by (induction us arbitrary: s) (simp_all add: sync_run_update(1))

lemma sync_run_saves:
  assumes "sv_StoreInterval cfg = 0" "sv_FileStoragePath cfg \<noteq> []"
  shows "sy_saves (run_updates (sync_repo fc env cfg) us s) = sy_saves s + length us"
  using assms
  by (induction us arbitrary: s)
    (simp_all add: sync_run_update(2) sync_save_def SaveSnapshot_def Let_def split_beta)

lemma run_updates_append: "run_updates r (us @ vs) s = run_updates r vs (run_updates r us s)"
  by (simp add: run_updates_def)

text \<open>
  C4: With a store interval of zero nothing that was acknowledged is lost: after any
  sequence of updates handled one after the other, if the save that followed the last one went through (earlier
  ones may have failed), a restart with restoring enabled gives exactly the store
  the process had in memory, which is the one the same updates give without persistence.
\<close>

theorem sync_durability:
  assumes fc: "float_codec_ok fc"
    and cfg: "sv_StoreInterval cfg = 0" "sv_FileStoragePath cfg \<noteq> []" "sv_Restore cfg"
    and ok: "save_ok env cfg (sy_saves s + length us) (run_updates mem_repo (us @ [u]) (sy_mem s))"
  shows "restart fc cfg (sy_disk (run_updates (sync_repo fc env cfg) (us @ [u]) s))
         = run_updates mem_repo (us @ [u]) (sy_mem s)"
proof -
  let ?s = "run_updates (sync_repo fc env cfg) us s"
  let ?t = "?s\<lparr>sy_mem := run_update mem_repo u (sy_mem ?s)\<rparr>"
  have run: "run_updates (sync_repo fc env cfg) (us @ [u]) s = SaveSnapshot fc env cfg ?t"
    using cfg by (simp add: run_updates_append sync_run_update(2) sync_save_def)
  have mem: "sy_mem ?t = run_updates mem_repo (us @ [u]) (sy_mem s)"
    by (simp add: run_updates_append sync_run_mem)
  have "save_ok env cfg (sy_saves ?t) (sy_mem ?t)"
    using ok by (simp add: mem sync_run_saves [OF cfg(1,2)] del: select_convs)
  from restart_loaded [OF SaveSnapshot_load [OF fc cfg(2) this] cfg(3) cfg(2)] show ?thesis
    by (simp only: run mem)
qed


text \<open>A concrete server configuration and environment.\<close>

definition sync_cfg :: server_config where
  "sync_cfg = server_defaults\<lparr>sv_StoreInterval := 0, sv_FileStoragePath := ''p'', sv_Restore := True\<rparr>"

definition one_env :: save_env where
  "one_env = \<lparr>se_plan = (\<lambda>_. plan_ok ''t''), se_corder = (\<lambda>_ c. if ''a'' \<in> dom c then [''a''] else []),
              se_gorder = (\<lambda>_ _. [])\<rparr>"

definition fresh_state :: sync_state where
  "fresh_state = \<lparr>sy_mem = New, sy_disk = Map.empty, sy_saves = 0\<rparr>"

lemma one_env_ok:
  "save_ok one_env sync_cfg k (run_updates mem_repo [UpdCounter ''a'' 5] New)"
  "save_ok one_env sync_cfg k (run_updates mem_repo [UpdCounter ''a'' 5, UpdCounter ''a'' 2] New)"
proof -
  have ok: "save_ok one_env sync_cfg k \<lparr>Counters = [''a'' \<mapsto> v], Gauges = Map.empty\<rparr>" for v
    by (simp add: save_ok_def one_env_def sync_cfg_def good_io_def plan_ok_def map_order_def
        store_text_ok_def utf8_valid_ascii byte_in_def)
  show "save_ok one_env sync_cfg k (run_updates mem_repo [UpdCounter ''a'' 5] New)"
    "save_ok one_env sync_cfg k (run_updates mem_repo [UpdCounter ''a'' 5, UpdCounter ''a'' 2] New)"
    by (simp_all add: service_defs repo_defs New_def ok)
qed

theorem sync_durability_witness:
  "restart bits_codec sync_cfg
     (sy_disk (run_updates (sync_repo bits_codec one_env sync_cfg) [UpdCounter ''a'' 5, UpdCounter ''a'' 2] fresh_state))
   = run_updates mem_repo [UpdCounter ''a'' 5, UpdCounter ''a'' 2] New"
proof -
  have cfg: "sv_StoreInterval sync_cfg = 0" "sv_FileStoragePath sync_cfg \<noteq> []" "sv_Restore sync_cfg"
    by (simp_all add: sync_cfg_def)
  have "save_ok one_env sync_cfg (sy_saves fresh_state + length [UpdCounter ''a'' 5])
     (run_updates mem_repo ([UpdCounter ''a'' 5] @ [UpdCounter ''a'' 2]) (sy_mem fresh_state))"
    using one_env_ok(2) by (simp add: fresh_state_def)
  from sync_durability [OF bits_codec_ok cfg this] show ?thesis by (simp add: fresh_state_def)
qed

section \<open>Snapshots at intervals\<close>

definition event_updates :: "periodic_event list \<Rightarrow> update list" where
  "event_updates es = concat (map (\<lambda>e. case e of PUpdate u \<Rightarrow> [u] | _ \<Rightarrow> []) es)"

lemma event_updates_simps [simp]:
  "event_updates [] = []"
  "event_updates (PUpdate u # es) = u # event_updates es"
  "event_updates (PTick # es) = event_updates es"
  "event_updates (PCancel # es) = event_updates es"
  by (simp_all add: event_updates_def)

lemma periodic_mem:
  "sy_mem (periodic_loop fc env cfg r es s) = run_updates mem_repo (event_updates es) (sy_mem s)"
  by (induction fc env cfg r es s rule: periodic_loop.induct) simp_all

lemma periodic_append:
  "periodic_loop fc env cfg r (es @ es') s =
   periodic_loop fc env cfg (r \<and> PCancel \<notin> set es) es' (periodic_loop fc env cfg r es s)"
  by (induction fc env cfg r es s rule: periodic_loop.induct) simp_all

lemma periodic_idle:
  "\<not> r \<or> PTick \<notin> set (takeWhile (\<lambda>e. e \<noteq> PCancel) es) \<Longrightarrow>
   sy_disk (periodic_loop fc env cfg r es s) = sy_disk s"
  by (induction fc env cfg r es s rule: periodic_loop.induct) auto



end
