(* ===== verification/Runs.thy ===== *)
theory Runs
  imports "HOL-Library.Multiset"
begin

text \<open>
  Runs of a labelled step relation, and the contract of a first-in first-out buffer inside such a
  system: every step inserts at the end, removes at the front, and keeps the capacity. The audit
  queue, the deliveries of its worker and the queue of the agent's worker pool are interpretations.
\<close>

inductive run :: "('s \<Rightarrow> 'l \<Rightarrow> 's \<Rightarrow> bool) \<Rightarrow> 's \<Rightarrow> 'l list \<Rightarrow> 's \<Rightarrow> bool" for step where
  run_Nil: "run step s [] s"
| run_snoc: "run step s ls t \<Longrightarrow> step t l u \<Longrightarrow> run step s (ls @ [l]) u"

lemma run_one: "step s l t \<Longrightarrow> run step s [l] t"
  using run_snoc [OF run_Nil, of step s l t] by simp

lemma run_append: "run step t ms u \<Longrightarrow> run step s ls t \<Longrightarrow> run step s (ls @ ms) u"
proof (induction t ms u rule: run.induct)
  case (run_snoc s' ls' t' l u)
  then show ?case using run.run_snoc [of step s "ls @ ls'" t' l u] by simp
qed simp

text \<open>A step relation that is a function can be run on a list of labels.\<close>

fun exec_steps :: "('s \<Rightarrow> 'l \<Rightarrow> 's option) \<Rightarrow> 'l list \<Rightarrow> 's \<Rightarrow> 's option" where
  "exec_steps step [] s = Some s"
| "exec_steps step (l # ls) s = (case step s l of None \<Rightarrow> None | Some t \<Rightarrow> exec_steps step ls t)"

lemma exec_run: "exec_steps step ls s = Some t \<Longrightarrow> run (\<lambda>s l t. step s l = Some t) s ls t"
proof (induction ls arbitrary: s)
  case (Cons l ls)
  then obtain u where "step s l = Some u" "exec_steps step ls u = Some t"
    by (auto split: option.splits)
  with Cons.IH [of u] run_append [OF _ run_one [of "\<lambda>s l t. step s l = Some t" s l u]]
  show ?case by fastforce
qed (simp add: run_Nil)

text \<open>A sum over a list whose element changes.\<close>

lemma sum_list_map_update:
  fixes f :: "'a \<Rightarrow> 'b :: comm_monoid_add"
  shows "i < length ws \<Longrightarrow> (\<Sum>w\<leftarrow>ws[i := y]. f w) + f (ws ! i) = (\<Sum>w\<leftarrow>ws. f w) + f y"
proof (induction ws arbitrary: i)
  case (Cons w ws)
  then show ?case by (cases i) (auto simp: ac_simps)
qed simp

text \<open>An invariant of the steps is an invariant of the runs.\<close>

lemma run_invariant:
  assumes "run step s ls t" "I s" "\<And>s l t. I s \<Longrightarrow> step s l t \<Longrightarrow> I t"
  shows "I t"
  using assms(1,2) by (induction rule: run.induct) (auto intro: assms(3))

locale fifo_system =
  fixes step :: "'s \<Rightarrow> 'l \<Rightarrow> 's \<Rightarrow> bool"
    and buffer :: "'s \<Rightarrow> 'a list"
    and ins :: "'l \<Rightarrow> 'a list"
    and outs :: "'l \<Rightarrow> 'a list"
    and cap :: "nat option"
  assumes fifo_step: "step s l t \<Longrightarrow> buffer s @ ins l = outs l @ buffer t"
    and cap_step: "step s l t \<Longrightarrow> cap = Some k \<Longrightarrow> length (buffer s) \<le> k \<Longrightarrow> length (buffer t) \<le> k"
begin

lemma fifo_run: "run step s ls t \<Longrightarrow> buffer s @ concat (map ins ls) = concat (map outs ls) @ buffer t"
proof (induction rule: run.induct)
  case (run_snoc s ls t l u)
  have "buffer s @ concat (map ins (ls @ [l])) = (buffer s @ concat (map ins ls)) @ ins l" by simp
  also have "\<dots> = concat (map outs ls) @ (buffer t @ ins l)" by (simp only: run_snoc.IH append.assoc)
  also have "\<dots> = concat (map outs ls) @ (outs l @ buffer u)" by (simp only: fifo_step [OF run_snoc.hyps(2)])
  finally show ?case by simp
qed simp

lemma cap_run: "run step s ls t \<Longrightarrow> cap = Some k \<Longrightarrow> length (buffer s) \<le> k \<Longrightarrow> length (buffer t) \<le> k"
  by (induction rule: run.induct) (auto intro: cap_step)

text \<open>What came out is a prefix of what went in, in order.\<close>

lemma fifo_prefix:
  assumes "run step s ls t" "buffer s = []"
  shows "concat (map outs ls) = take (length (concat (map outs ls))) (concat (map ins ls))"
  using fifo_run [OF assms(1)] assms(2) by simp

end

text \<open>
  A balance: what a system holds in all its places together changes by what a step brings in, as long as an
  invariant holds and only steps of one kind are made. The requests of the server are two interpretations.
\<close>

locale balanced_system =
  fixes step :: "'s \<Rightarrow> 'l \<Rightarrow> 's \<Rightarrow> bool"
    and good :: "'s \<Rightarrow> bool"
    and allowed :: "'l \<Rightarrow> bool"
    and total :: "'s \<Rightarrow> 'a multiset"
    and ins :: "'l \<Rightarrow> 'a list"
  assumes good_step: "good s \<Longrightarrow> step s l t \<Longrightarrow> allowed l \<Longrightarrow> good t"
    and total_step: "good s \<Longrightarrow> step s l t \<Longrightarrow> allowed l \<Longrightarrow> total t = total s + mset (ins l)"
begin

lemma balance_run:
  "run step s ls t \<Longrightarrow> good s \<Longrightarrow> list_all allowed ls \<Longrightarrow>
   good t \<and> total t = total s + mset (concat (map ins ls))"
  by (induction rule: run.induct) (auto simp: total_step intro: good_step)

end

end
