(* ===== verification/Locked_Object.thy ===== *)
theory Locked_Object
  imports Runs
begin

text \<open>
  Objects behind a read-write mutex: any number of goroutines call the operations of one object, each operation takes
  the lock, runs statement by statement over the shared state, and gives the lock back when it returns. The locale
  \<open>locked_object\<close> says when such an object is linearizable; the in-memory store and the runner of the agent
  are interpretations, which justify that elsewhere their operations are single steps.
\<close>

section \<open>Goroutines and the lock\<close>

text \<open>
  An implementation: which operations take the lock for writing, the statements of each, which may depend on the
  order \<open>'o\<close> in which the operation iterates over a map, their effect on the local variables and the shared
  state, and what is returned.
\<close>

record ('op, 'o, 'i, 'l, 'r, 's) locked_impl =
  li_writes :: "'op \<Rightarrow> bool"
  li_order :: "'op \<Rightarrow> 'o \<Rightarrow> 's \<Rightarrow> bool"
  li_body :: "'op \<Rightarrow> 'o \<Rightarrow> 'i list"
  li_init :: 'l
  li_exec :: "'i \<Rightarrow> 'l \<times> 's \<Rightarrow> 'l \<times> 's"
  li_reply :: "'op \<Rightarrow> 'l \<Rightarrow> 'r"

datatype ('op, 'i, 'l, 'r) lock_task =
    Waiting 'op
  | Holding 'op "'i list" 'l
  | Finished 'op 'r

text \<open>\<open>sync.RWMutex\<close>: one writer or any number of readers. A \<open>sync.Mutex\<close> has writers only.\<close>

record ('op, 'i, 'l, 'r, 's) locked =
  lo_shared :: 's
  lo_writer :: bool
  lo_readers :: nat
  lo_tasks :: "('op, 'i, 'l, 'r) lock_task list"

datatype ('op, 'o) lock_label = LInvoke 'op | LAcquire nat 'o | LExec nat | LRelease nat

definition lock_start :: "'s \<Rightarrow> ('op, 'i, 'l, 'r, 's) locked" where
  "lock_start s = \<lparr>lo_shared = s, lo_writer = False, lo_readers = 0, lo_tasks = []\<rparr>"

text \<open>The deferred unlock comes after the last statement; the answer is the one computed before it.\<close>

fun lock_step ::
  "('op, 'o, 'i, 'l, 'r, 's) locked_impl \<Rightarrow> ('op, 'i, 'l, 'r, 's) locked \<Rightarrow> ('op, 'o) lock_label \<Rightarrow>
   ('op, 'i, 'l, 'r, 's) locked option" where
  "lock_step im s (LInvoke op) = Some (s\<lparr>lo_tasks := lo_tasks s @ [Waiting op]\<rparr>)"
| "lock_step im s (LAcquire i ord) =
     (if i < length (lo_tasks s) then
        (case lo_tasks s ! i of
           Waiting op \<Rightarrow>
             (if lo_writer s \<or> li_writes im op \<and> 0 < lo_readers s \<or> \<not> li_order im op ord (lo_shared s) then None
              else Some (s\<lparr>lo_writer := li_writes im op,
                           lo_readers := (if li_writes im op then lo_readers s else Suc (lo_readers s)),
                           lo_tasks := (lo_tasks s)[i := Holding op (li_body im op ord) (li_init im)]\<rparr>))
         | _ \<Rightarrow> None)
      else None)"
| "lock_step im s (LExec i) =
     (if i < length (lo_tasks s) then
        (case lo_tasks s ! i of
           Holding op (c # cs) l \<Rightarrow>
             (case li_exec im c (l, lo_shared s) of
                (l', t) \<Rightarrow> Some (s\<lparr>lo_shared := t, lo_tasks := (lo_tasks s)[i := Holding op cs l']\<rparr>))
         | _ \<Rightarrow> None)
      else None)"
| "lock_step im s (LRelease i) =
     (if i < length (lo_tasks s) then
        (case lo_tasks s ! i of
           Holding op [] l \<Rightarrow>
             Some (s\<lparr>lo_writer := (if li_writes im op then False else lo_writer s),
                     lo_readers := (if li_writes im op then lo_readers s else lo_readers s - 1),
                     lo_tasks := (lo_tasks s)[i := Finished op (li_reply im op l)]\<rparr>)
         | _ \<Rightarrow> None)
      else None)"

definition lock_moves ::
  "('op, 'o, 'i, 'l, 'r, 's) locked_impl \<Rightarrow> ('op, 'i, 'l, 'r, 's) locked \<Rightarrow> ('op, 'o) lock_label \<Rightarrow>
   ('op, 'i, 'l, 'r, 's) locked \<Rightarrow> bool" where
  "lock_moves im s l t \<longleftrightarrow> lock_step im s l = Some t"

lemma lock_exec: "exec_steps (lock_step im) ls s = Some t \<Longrightarrow> run (lock_moves im) s ls t"
  using exec_run [of "lock_step im" ls s t] by (simp add: lock_moves_def [abs_def])

section \<open>Histories\<close>

fun invoked :: "('op, 'o) lock_label \<Rightarrow> 'op list" where
  "invoked (LInvoke op) = [op]"
| "invoked _ = []"

fun released :: "('op, 'o) lock_label \<Rightarrow> nat list" where
  "released (LRelease i) = [i]"
| "released _ = []"

fun task_op :: "('op, 'i, 'l, 'r) lock_task \<Rightarrow> 'op" where
  "task_op (Waiting op) = op"
| "task_op (Holding op cs l) = op"
| "task_op (Finished op r) = op"

fun task_reply :: "('op, 'i, 'l, 'r) lock_task \<Rightarrow> 'r option" where
  "task_reply (Finished op r) = Some r"
| "task_reply _ = None"

lemma step_calls: "lock_step im s l = Some t \<Longrightarrow> map task_op (lo_tasks t) = map task_op (lo_tasks s) @ invoked l"
  by (cases l) (auto simp: map_update list_update_same_conv
      split: if_splits lock_task.splits list.splits prod.splits)

text \<open>The abstract object: whole operations, one after the other.\<close>

fun atomic_run :: "('op \<Rightarrow> 's \<Rightarrow> 'r \<times> 's) \<Rightarrow> 'op list \<Rightarrow> 's \<Rightarrow> 'r list \<times> 's" where
  "atomic_run spec [] s = ([], s)"
| "atomic_run spec (op # ops) s =
     (case spec op s of (r, t) \<Rightarrow> (case atomic_run spec ops t of (rs, u) \<Rightarrow> (r # rs, u)))"

lemma atomic_run_snoc:
  "atomic_run spec (ops @ [op]) s =
     (case atomic_run spec ops s of (rs, t) \<Rightarrow> (case spec op t of (r, u) \<Rightarrow> (rs @ [r], u)))"
  by (induction ops arbitrary: s) (simp_all split: prod.split)

text \<open>
  Linearizability: the calls that have returned, in the order in which they gave the lock back, got the
  answers of the abstract object, each call at most once; a call gives the lock back between its start and its return.
\<close>

definition history ::
  "('op \<Rightarrow> 's \<Rightarrow> 'r \<times> 's) \<Rightarrow> 's \<Rightarrow> 'op list \<Rightarrow> nat list \<Rightarrow> ('op, 'i, 'l, 'r) lock_task list \<Rightarrow> 's \<Rightarrow> bool" where
  "history spec s0 calls order ts a \<longleftrightarrow>
     map task_op ts = calls \<and> distinct order \<and>
     set order = {i. i < length ts \<and> task_reply (ts ! i) \<noteq> None} \<and>
     atomic_run spec (map ((!) calls) order) s0 = (map (\<lambda>i. the (task_reply (ts ! i))) order, a)"

definition linearized ::
  "('op \<Rightarrow> 's \<Rightarrow> 'r \<times> 's) \<Rightarrow> 's \<Rightarrow> ('op, 'o) lock_label list \<Rightarrow> ('op, 'i, 'l, 'r, 's) locked \<Rightarrow> 's \<Rightarrow> bool" where
  "linearized spec s0 ls t a \<longleftrightarrow>
     history spec s0 (concat (map invoked ls)) (concat (map released ls)) (lo_tasks t) a"

lemma history_start: "history spec s0 [] [] [] s0"
  by (simp add: history_def)

text \<open>A step of a goroutine that is not its last keeps the history, and so does a new call.\<close>

lemma history_update:
  assumes "history spec s0 calls order ts a" "i < length ts" "task_reply (ts ! i) = None"
    and "task_op u = task_op (ts ! i)" "task_reply u = None"
  shows "history spec s0 calls order (ts[i := u]) a"
proof -
  have "map task_op (ts[i := u]) = map task_op ts"
    using assms(2,4) by (simp add: map_update list_update_same_conv)
  moreover have "task_reply (ts[i := u] ! j) = task_reply (ts ! j)" for j
    using assms(2,3,5) by (cases "j = i") auto
  ultimately show ?thesis using assms(1) by (simp add: history_def)
qed

lemma history_invoke:
  assumes "history spec s0 calls order ts a"
  shows "history spec s0 (calls @ [op]) order (ts @ [Waiting op]) a"
proof -
  have order: "set order = {i. i < length ts \<and> task_reply (ts ! i) \<noteq> None}" and calls: "map task_op ts = calls"
    and rest: "distinct order" "atomic_run spec (map ((!) calls) order) s0 = (map (\<lambda>i. the (task_reply (ts ! i))) order, a)"
    using assms by (auto simp: history_def)
  have len: "length calls = length ts" by (simp add: calls [symmetric])
  have "map task_op (ts @ [Waiting op]) = calls @ [op]" by (simp add: calls)
  moreover have "set order = {i. i < length (ts @ [Waiting op]) \<and> task_reply ((ts @ [Waiting op]) ! i) \<noteq> None}"
    unfolding order by (auto simp: nth_append less_Suc_eq)
  moreover have "map ((!) (calls @ [op])) order = map ((!) calls) order"
    "map (\<lambda>i. the (task_reply ((ts @ [Waiting op]) ! i))) order = map (\<lambda>i. the (task_reply (ts ! i))) order"
    using order by (auto simp: nth_append len)
  ultimately show ?thesis using rest unfolding history_def by (simp only: simp_thms)
qed

lemma history_release:
  assumes "history spec s0 calls order ts a" "i < length ts" "task_reply (ts ! i) = None"
    and "spec (task_op (ts ! i)) a = (r, b)"
  shows "history spec s0 calls (order @ [i]) (ts[i := Finished (task_op (ts ! i)) r]) b"
proof -
  let ?us = "ts[i := Finished (task_op (ts ! i)) r]"
  have order: "set order = {j. j < length ts \<and> task_reply (ts ! j) \<noteq> None}" and calls: "map task_op ts = calls"
    and rest: "distinct order" "atomic_run spec (map ((!) calls) order) s0 = (map (\<lambda>i. the (task_reply (ts ! i))) order, a)"
    using assms(1) by (auto simp: history_def)
  have fresh: "i \<notin> set order" unfolding order using assms(3) by simp
  have "map task_op ?us = (map task_op ts)[i := map task_op ts ! i]" using assms(2) by (simp add: map_update)
  then have "map task_op ?us = calls" by (simp only: list_update_id calls)
  moreover have "set (order @ [i]) = {j. j < length ?us \<and> task_reply (?us ! j) \<noteq> None}"
    using order assms(2) by (auto simp: nth_list_update)
  moreover have "map (\<lambda>j. the (task_reply (?us ! j))) order = map (\<lambda>j. the (task_reply (ts ! j))) order"
    using fresh by (intro map_cong refl) (metis nth_list_update_neq)
  moreover have "calls ! i = task_op (ts ! i)" using assms(2) by (simp add: calls [symmetric])
  ultimately show ?thesis using rest fresh assms(2,4) by (simp add: history_def atomic_run_snoc)
qed

section \<open>Who holds the lock\<close>

fun holds :: "('op \<Rightarrow> bool) \<Rightarrow> ('op, 'i, 'l, 'r) lock_task \<Rightarrow> nat" where
  "holds P (Holding op cs l) = (if P op then 1 else 0)"
| "holds P _ = 0"

definition held_by :: "('op \<Rightarrow> bool) \<Rightarrow> ('op, 'i, 'l, 'r) lock_task list \<Rightarrow> nat" where
  "held_by P ts = (\<Sum>t\<leftarrow>ts. holds P t)"

lemma held_by_simps [simp]:
  "held_by P [] = 0"
  "held_by P (ts @ [t]) = held_by P ts + holds P t"
  by (simp_all add: held_by_def)

lemma held_by_update: "i < length ts \<Longrightarrow> held_by P (ts[i := t]) + holds P (ts ! i) = held_by P ts + holds P t"
  unfolding held_by_def by (rule sum_list_map_update)

lemma held_by_0: "held_by P ts = 0 \<longleftrightarrow> (\<forall>t \<in> set ts. holds P t = 0)"
  by (simp add: held_by_def)

lemma holds_cases:
  "holds P t = 0 \<Longrightarrow> holds (\<lambda>op. \<not> P op) t = 0 \<Longrightarrow> \<exists>op. t = Waiting op \<or> (\<exists>r. t = Finished op r)"
  by (cases t) (auto split: if_splits)

text \<open>A writer holds the lock alone.\<close>

lemma writer_alone:
  assumes "held_by P ts \<le> 1" "held_by (\<lambda>op. \<not> P op) ts = 0" "i < length ts" "holds P (ts ! i) = 1"
  shows "\<forall>t \<in> set (ts[i := u]). t = u \<or> (\<exists>op. t = Waiting op \<or> (\<exists>r. t = Finished op r))"
proof
  fix t assume t: "t \<in> set (ts[i := u])"
  have "held_by P (ts[i := Waiting (task_op u)]) = 0"
    using held_by_update [OF assms(3), of P "Waiting (task_op u)"] assms(1,4) by simp
  moreover have "held_by (\<lambda>op. \<not> P op) (ts[i := Waiting (task_op u)]) = 0"
    using held_by_update [OF assms(3), of "\<lambda>op. \<not> P op" "Waiting (task_op u)"] assms(2) by simp
  moreover have "t = u \<or> t \<in> set (ts[i := Waiting (task_op u)])"
    using t assms(3) by (auto simp: set_conv_nth nth_list_update split: if_splits)
  ultimately show "t = u \<or> (\<exists>op. t = Waiting op \<or> (\<exists>r. t = Finished op r))"
    using holds_cases [of P t] by (auto simp: held_by_0)
qed

section \<open>Linearizability\<close>

definition reads_only :: "('op, 'o, 'i, 'l, 'r, 's) locked_impl \<Rightarrow> 'i list \<Rightarrow> bool" where
  "reads_only im cs \<longleftrightarrow> (\<forall>c \<in> set cs. \<forall>l s. snd (li_exec im c (l, s)) = s)"

text \<open>
  What a goroutine will return is what the whole operation returns on the abstract state \<open>a\<close>, the state that the
  calls already returned have left.
\<close>

fun task_ok ::
  "('op, 'o, 'i, 'l, 'r, 's) locked_impl \<Rightarrow> ('op \<Rightarrow> 's \<Rightarrow> 'r \<times> 's) \<Rightarrow> 's \<Rightarrow> 's \<Rightarrow> ('op, 'i, 'l, 'r) lock_task \<Rightarrow> bool" where
  "task_ok im spec s a (Holding op cs l) \<longleftrightarrow>
     (case fold (li_exec im) cs (l, s) of (l', t) \<Rightarrow> (li_reply im op l', t) = spec op a) \<and>
     (\<not> li_writes im op \<longrightarrow> reads_only im cs)"
| "task_ok im spec s a _ \<longleftrightarrow> True"

definition lock_inv ::
  "('op, 'o, 'i, 'l, 'r, 's) locked_impl \<Rightarrow> ('op \<Rightarrow> 's \<Rightarrow> 'r \<times> 's) \<Rightarrow> 's \<Rightarrow> ('op, 'i, 'l, 'r, 's) locked \<Rightarrow> bool" where
  "lock_inv im spec a st \<longleftrightarrow>
     list_all (task_ok im spec (lo_shared st) a) (lo_tasks st) \<and>
     held_by (li_writes im) (lo_tasks st) = (if lo_writer st then 1 else 0) \<and>
     held_by (\<lambda>op. \<not> li_writes im op) (lo_tasks st) = lo_readers st \<and>
     (lo_writer st \<longrightarrow> lo_readers st = 0) \<and> (\<not> lo_writer st \<longrightarrow> lo_shared st = a)"

lemma list_all_list_update:
  "list_all P xs \<Longrightarrow> P y \<Longrightarrow> list_all P (xs[i := y])"
  using set_update_subset_insert [of xs i y] by (auto simp: list_all_iff)

lemma held_by_in: "i < length ts \<Longrightarrow> holds P (ts ! i) \<le> held_by P ts"
  unfolding held_by_def by (rule elem_le_sum_list [of i "map (holds P) ts", simplified])

locale locked_object =
  fixes im :: "('op, 'o, 'i, 'l, 'r, 's) locked_impl"
    and spec :: "'op \<Rightarrow> 's \<Rightarrow> 'r \<times> 's"
  assumes body: "li_order im op ord s \<Longrightarrow> fold (li_exec im) (li_body im op ord) (li_init im, s) = (l, t) \<Longrightarrow>
      (li_reply im op l, t) = spec op s"
    and reading: "\<not> li_writes im op \<Longrightarrow> reads_only im (li_body im op ord)"
begin

lemma inv_acquire:
  assumes "lock_inv im spec a s" "lock_step im s (LAcquire i ord) = Some t"
  shows "lock_inv im spec a t"
proof -
  from assms(2) obtain op where i: "i < length (lo_tasks s)" "lo_tasks s ! i = Waiting op" "\<not> lo_writer s"
    "\<not> (li_writes im op \<and> 0 < lo_readers s)" "li_order im op ord (lo_shared s)"
    and t: "t = s\<lparr>lo_writer := li_writes im op,
        lo_readers := (if li_writes im op then lo_readers s else Suc (lo_readers s)),
        lo_tasks := (lo_tasks s)[i := Holding op (li_body im op ord) (li_init im)]\<rparr>"
    by (auto split: if_splits lock_task.splits)
  from assms(1) i(3) have a: "lo_shared s = a" by (simp add: lock_inv_def)
  have "task_ok im spec a a (Holding op (li_body im op ord) (li_init im))"
    using body [OF i(5)] reading [of op ord] by (auto simp: a)
  then show ?thesis
    using assms(1) i held_by_update [OF i(1), of "li_writes im" "Holding op (li_body im op ord) (li_init im)"]
      held_by_update [OF i(1), of "\<lambda>op. \<not> li_writes im op" "Holding op (li_body im op ord) (li_init im)"]
    by (auto simp: lock_inv_def t a intro: list_all_list_update)
qed

text \<open>A statement of a writer changes what only it sees; one of a reader changes nothing.\<close>

lemma inv_exec:
  assumes "lock_inv im spec a s" "lock_step im s (LExec i) = Some t"
  shows "lock_inv im spec a t"
proof -
  from assms(2) obtain op c cs l l' v where i: "i < length (lo_tasks s)" "lo_tasks s ! i = Holding op (c # cs) l"
    and ex: "li_exec im c (l, lo_shared s) = (l', v)"
    and t: "t = s\<lparr>lo_shared := v, lo_tasks := (lo_tasks s)[i := Holding op cs l']\<rparr>"
    by (auto split: if_splits lock_task.splits list.splits prod.splits)
  from assms(1) i have ok: "task_ok im spec (lo_shared s) a (Holding op (c # cs) l)"
    by (auto simp: lock_inv_def list_all_length)
  then have new: "task_ok im spec v a (Holding op cs l')" by (auto simp: ex reads_only_def)
  have counts: "held_by P ((lo_tasks s)[i := Holding op cs l']) = held_by P (lo_tasks s)" for P
    using held_by_update [OF i(1), of P "Holding op cs l'"] i(2) by simp
  have "list_all (task_ok im spec v a) ((lo_tasks s)[i := Holding op cs l']) \<and> (\<not> lo_writer s \<longrightarrow> v = a)"
  proof (cases "li_writes im op")
    case True
    have "lo_writer s" "held_by (li_writes im) (lo_tasks s) \<le> 1" "held_by (\<lambda>op. \<not> li_writes im op) (lo_tasks s) = 0"
      using assms(1) held_by_in [OF i(1), of "li_writes im"] i(2) True by (auto simp: lock_inv_def split: if_splits)
    with writer_alone [OF this(2,3) i(1), of "Holding op cs l'"] i(2) True new show ?thesis
      by (auto simp: list_all_iff)
  next
    case False
    then have "v = lo_shared s" using ok ex by (metis list.set_intros(1) reads_only_def snd_conv task_ok.simps(1))
    moreover have "\<not> lo_writer s"
      using assms(1) held_by_in [OF i(1), of "\<lambda>op. \<not> li_writes im op"] i(2) False by (auto simp: lock_inv_def)
    ultimately show ?thesis using assms(1) new by (auto simp: lock_inv_def intro: list_all_list_update)
  qed
  with assms(1) show ?thesis by (simp add: lock_inv_def t counts)
qed

lemma inv_release:
  assumes "lock_inv im spec a s" "lock_step im s (LRelease i) = Some t"
  obtains op r where "i < length (lo_tasks s)" "task_reply (lo_tasks s ! i) = None" "task_op (lo_tasks s ! i) = op"
    "lo_tasks t = (lo_tasks s)[i := Finished op r]" "spec op a = (r, snd (spec op a))"
    "lock_inv im spec (snd (spec op a)) t"
proof -
  from assms(2) obtain op l where i: "i < length (lo_tasks s)" "lo_tasks s ! i = Holding op [] l"
    and t: "t = s\<lparr>lo_writer := (if li_writes im op then False else lo_writer s),
        lo_readers := (if li_writes im op then lo_readers s else lo_readers s - 1),
        lo_tasks := (lo_tasks s)[i := Finished op (li_reply im op l)]\<rparr>"
    by (auto split: if_splits lock_task.splits list.splits)
  from assms(1) i have "task_ok im spec (lo_shared s) a (Holding op [] l)"
    by (auto simp: lock_inv_def list_all_length)
  then have app: "spec op a = (li_reply im op l, lo_shared s)" by simp
  have counts: "held_by P (lo_tasks t) + (if P op then 1 else 0) = held_by P (lo_tasks s)" for P
    using held_by_update [OF i(1), of P "Finished op (li_reply im op l)"] i(2) by (simp add: t)
  have "lock_inv im spec (lo_shared s) t"
  proof (cases "li_writes im op")
    case True
    have w: "lo_writer s" "held_by (li_writes im) (lo_tasks s) \<le> 1" "held_by (\<lambda>op. \<not> li_writes im op) (lo_tasks s) = 0"
      using assms(1) held_by_in [OF i(1), of "li_writes im"] i(2) True by (auto simp: lock_inv_def split: if_splits)
    have "list_all (task_ok im spec (lo_shared s) (lo_shared s)) (lo_tasks t)"
      using writer_alone [OF w(2,3) i(1), of "Finished op (li_reply im op l)"] i(2) True
      by (auto simp: t list_all_iff)
    with assms(1) w counts [of "li_writes im"] counts [of "\<lambda>op. \<not> li_writes im op"] True show ?thesis
      by (auto simp: lock_inv_def t)
  next
    case False
    have nw: "\<not> lo_writer s"
      using assms(1) held_by_in [OF i(1), of "\<lambda>op. \<not> li_writes im op"] i(2) False by (auto simp: lock_inv_def)
    with assms(1) have "lo_shared s = a" by (simp add: lock_inv_def)
    with assms(1) nw counts [of "li_writes im"] counts [of "\<lambda>op. \<not> li_writes im op"] False show ?thesis
      by (auto simp: lock_inv_def t intro: list_all_list_update)
  qed
  with that [of op "li_reply im op l"] i app t show thesis by simp
qed

lemma inv_invoke: "lock_inv im spec a s \<Longrightarrow> lock_step im s (LInvoke op) = Some t \<Longrightarrow> lock_inv im spec a t"
  by (auto simp: lock_inv_def)

lemma linear_step:
  assumes "linearized spec s0 ls s a" "lock_inv im spec a s" "lock_moves im s l t"
  shows "\<exists>b. linearized spec s0 (ls @ [l]) t b \<and> lock_inv im spec b t"
proof (cases l)
  case (LInvoke op)
  with assms show ?thesis using inv_invoke
    by (intro exI [of _ a]) (auto simp: lock_moves_def linearized_def intro: history_invoke)
next
  case (LAcquire i ord)
  with assms have "lock_inv im spec a t" using inv_acquire by (auto simp: lock_moves_def)
  moreover have "linearized spec s0 (ls @ [l]) t a"
    using assms(1,3) LAcquire
    by (auto simp: lock_moves_def linearized_def intro!: history_update split: if_splits lock_task.splits)
  ultimately show ?thesis by blast
next
  case (LExec i)
  with assms have "lock_inv im spec a t" using inv_exec by (auto simp: lock_moves_def)
  moreover have "linearized spec s0 (ls @ [l]) t a"
    using assms(1,3) LExec
    by (auto simp: lock_moves_def linearized_def intro!: history_update
        split: if_splits lock_task.splits list.splits prod.splits)
  ultimately show ?thesis by blast
next
  case (LRelease i)
  with assms(3) have "lock_step im s (LRelease i) = Some t" by (simp add: lock_moves_def)
  from inv_release [OF assms(2) this] show ?thesis
    using assms(1) history_release [of spec s0 _ _ "lo_tasks s" a i] unfolding LRelease linearized_def by auto metis
qed

lemma linear_run:
  assumes "run (lock_moves im) (lock_start s0) ls t"
  shows "\<exists>a. linearized spec s0 ls t a \<and> (\<not> lo_writer t \<longrightarrow> lo_shared t = a)"
proof -
  have "\<exists>a. linearized spec s0 ls t a \<and> lock_inv im spec a t"
    using assms
  proof (induction "lock_start s0 :: ('op, 'i, 'l, 'r, 's) locked" ls t rule: run.induct)
    case run_Nil
    show ?case by (intro exI [of _ s0]) (simp add: linearized_def lock_inv_def lock_start_def history_start)
  next
    case (run_snoc ls t l u)
    then show ?case using linear_step by blast
  qed
  then show ?thesis by (auto simp: lock_inv_def)
qed

end

section \<open>Every call returns\<close>

text \<open>
  When every operation can start on every state that the operations leave, calls never wait for each other for
  ever: from every reachable state those that have started can all return, without new ones.
\<close>

definition old_call :: "('op, 'o) lock_label \<Rightarrow> bool" where
  "old_call l \<longleftrightarrow> invoked l = []"

lemma old_call_simps [simp]: "old_call (LAcquire i ord)" "old_call (LExec i)" "old_call (LRelease i)"
  by (simp_all add: old_call_def)

definition all_returned :: "('op, 'i, 'l, 'r, 's) locked \<Rightarrow> bool" where
  "all_returned s \<longleftrightarrow> list_all (\<lambda>t. task_reply t \<noteq> None) (lo_tasks s)"

definition unfinished :: "('op, 'i, 'l, 'r, 's) locked \<Rightarrow> nat" where
  "unfinished s = (\<Sum>t\<leftarrow>lo_tasks s. if task_reply t = None then 1 else 0)"

lemma unfinished_less:
  assumes "i < length (lo_tasks s)" "task_reply (lo_tasks s ! i) = None" "lo_tasks t = (lo_tasks s)[i := Finished op r]"
  shows "unfinished t < unfinished s"
  using sum_list_map_update [OF assms(1), of "\<lambda>t. if task_reply t = None then 1 else 0 :: nat" "Finished op r"] assms(2,3)
  by (simp add: unfinished_def)

locale live_object = locked_object im spec
  for im :: "('op, 'o, 'i, 'l, 'r, 's) locked_impl" and spec :: "'op \<Rightarrow> 's \<Rightarrow> 'r \<times> 's" +
  fixes good :: "'s \<Rightarrow> bool"
    and fine :: "'op \<Rightarrow> bool"
  assumes good_spec: "good s \<Longrightarrow> fine op \<Longrightarrow> good (snd (spec op s))"
    and order_exists: "good s \<Longrightarrow> fine op \<Longrightarrow> \<exists>ord. li_order im op ord s"
begin

lemma live_step:
  assumes "lock_inv im spec a s" "good a" "list_all (\<lambda>t. fine (task_op t)) (lo_tasks s)"
    and "lock_moves im s l t" "list_all fine (invoked l)"
  shows "\<exists>b. lock_inv im spec b t \<and> good b \<and> list_all (\<lambda>t. fine (task_op t)) (lo_tasks t)"
proof -
  have step: "lock_step im s l = Some t" using assms(4) by (simp add: lock_moves_def)
  have "list_all fine (map task_op (lo_tasks t))"
    using assms(3,5) by (simp add: step_calls [OF step] list.pred_map comp_def)
  then have fine: "list_all (\<lambda>t. fine (task_op t)) (lo_tasks t)" by (simp add: list.pred_map comp_def)
  show ?thesis
  proof (cases l)
    case (LRelease i)
    from inv_release [OF assms(1) step [unfolded LRelease]] obtain op where
      "i < length (lo_tasks s)" "task_op (lo_tasks s ! i) = op" "lock_inv im spec (snd (spec op a)) t" by metis
    moreover from this assms(3) have "fine op" by (auto simp: list_all_length)
    ultimately show ?thesis using good_spec [OF assms(2)] fine by blast
  qed (use assms(1,2) step fine inv_invoke inv_acquire inv_exec in blast)+
qed

lemma live_run:
  assumes "run (lock_moves im) s ls t"
    and "lock_inv im spec a s" "good a" "list_all (\<lambda>t. fine (task_op t)) (lo_tasks s)" "list_all fine (concat (map invoked ls))"
  shows "\<exists>b. lock_inv im spec b t \<and> good b \<and> list_all (\<lambda>t. fine (task_op t)) (lo_tasks t)"
  using assms
proof (induction rule: run.induct)
  case (run_snoc s ls t l u)
  then obtain b where b: "lock_inv im spec b t" "good b" "list_all (\<lambda>t. fine (task_op t)) (lo_tasks t)" by auto
  moreover have "list_all fine (invoked l)" using run_snoc.prems(4) by simp
  ultimately show ?case by (intro live_step [OF _ _ _ run_snoc.hyps(2)])
qed blast

text \<open>A goroutine that holds the lock runs to its return; one that waits for a free lock takes it.\<close>

lemma holder_returns:
  "i < length (lo_tasks s) \<Longrightarrow> lo_tasks s ! i = Holding op cs l \<Longrightarrow>
   \<exists>ms t r. run (lock_moves im) s ms t \<and> list_all old_call ms \<and> lo_tasks t = (lo_tasks s)[i := Finished op r]"
proof (induction cs arbitrary: s l)
  case Nil
  let ?t = "s\<lparr>lo_writer := (if li_writes im op then False else lo_writer s),
      lo_readers := (if li_writes im op then lo_readers s else lo_readers s - 1),
      lo_tasks := (lo_tasks s)[i := Finished op (li_reply im op l)]\<rparr>"
  have "lock_moves im s (LRelease i) ?t" using Nil by (simp add: lock_moves_def)
  then have "run (lock_moves im) s [LRelease i] ?t" by (rule run_one)
  then show ?case by (intro exI [of _ "[LRelease i]"] exI [of _ ?t] exI [of _ "li_reply im op l"]) simp
next
  case (Cons c cs)
  obtain l' v where c: "li_exec im c (l, lo_shared s) = (l', v)" by fastforce
  let ?u = "s\<lparr>lo_shared := v, lo_tasks := (lo_tasks s)[i := Holding op cs l']\<rparr>"
  have "lock_moves im s (LExec i) ?u" using Cons.prems by (simp add: lock_moves_def c)
  then have step: "run (lock_moves im) s [LExec i] ?u" by (rule run_one)
  from Cons.IH [of ?u l'] Cons.prems obtain ms t r where
    "run (lock_moves im) ?u ms t" "list_all old_call ms" "lo_tasks t = (lo_tasks s)[i := Finished op r]" by auto
  with run_append [OF this(1) step] show ?case
    by (intro exI [of _ "[LExec i] @ ms"] exI [of _ t] exI [of _ r]) simp
qed

lemma waiter_returns:
  assumes "lock_inv im spec a s" "good a" "list_all (\<lambda>t. fine (task_op t)) (lo_tasks s)"
    and i: "i < length (lo_tasks s)" "lo_tasks s ! i = Waiting op"
    and free: "\<forall>t \<in> set (lo_tasks s). \<forall>op cs l. t \<noteq> Holding op cs l"
  shows "\<exists>ms t r. run (lock_moves im) s ms t \<and> list_all old_call ms \<and> lo_tasks t = (lo_tasks s)[i := Finished op r]"
proof -
  have "holds P t = 0" if "t \<in> set (lo_tasks s)" for P t using free that by (cases t) auto
  then have "held_by P (lo_tasks s) = 0" for P by (simp add: held_by_0)
  with assms(1) have "\<not> lo_writer s" "lo_readers s = 0" "lo_shared s = a" by (auto simp: lock_inv_def split: if_splits)
  moreover from this order_exists obtain ord where "li_order im op ord (lo_shared s)"
    using assms(2,3) i by (fastforce simp: list_all_length)
  moreover define t where "t = s\<lparr>lo_writer := li_writes im op,
      lo_readers := (if li_writes im op then lo_readers s else Suc (lo_readers s)),
      lo_tasks := (lo_tasks s)[i := Holding op (li_body im op ord) (li_init im)]\<rparr>"
  ultimately have "lock_moves im s (LAcquire i ord) t" using i by (simp add: lock_moves_def t_def)
  then have step: "run (lock_moves im) s [LAcquire i ord] t" by (rule run_one)
  have "lo_tasks t ! i = Holding op (li_body im op ord) (li_init im)" "i < length (lo_tasks t)"
    using i by (simp_all add: t_def)
  from holder_returns [OF this(2,1)] obtain ms u r where
    "run (lock_moves im) t ms u" "list_all old_call ms" "lo_tasks u = (lo_tasks s)[i := Finished op r]"
    by (auto simp: t_def)
  with run_append [OF this(1) step] show ?thesis
    by (intro exI [of _ "[LAcquire i ord] @ ms"] exI [of _ u] exI [of _ r]) simp
qed

lemma one_returns:
  assumes "lock_inv im spec a s" "good a" "list_all (\<lambda>t. fine (task_op t)) (lo_tasks s)" "\<not> all_returned s"
  shows "\<exists>ms t. run (lock_moves im) s ms t \<and> list_all old_call ms \<and> unfinished t < unfinished s"
proof -
  have "\<exists>i op ms t r. i < length (lo_tasks s) \<and> task_reply (lo_tasks s ! i) = None \<and> run (lock_moves im) s ms t \<and>
      list_all old_call ms \<and> lo_tasks t = (lo_tasks s)[i := Finished op r]"
  proof (cases "\<exists>t \<in> set (lo_tasks s). \<exists>op cs l. t = Holding op cs l")
    case True
    then obtain i op cs l where "i < length (lo_tasks s)" "lo_tasks s ! i = Holding op cs l"
      by (auto simp: in_set_conv_nth)
    with holder_returns [OF this] show ?thesis by (metis task_reply.simps(3))
  next
    case False
    from assms(4) obtain i where i: "i < length (lo_tasks s)" "task_reply (lo_tasks s ! i) = None"
      by (auto simp: all_returned_def list_all_length)
    with False obtain op where "lo_tasks s ! i = Waiting op" by (cases "lo_tasks s ! i") (auto dest: nth_mem)
    with waiter_returns [OF assms(1-3) i(1) this] False i show ?thesis by blast
  qed
  then obtain i op ms t r where "i < length (lo_tasks s)" "task_reply (lo_tasks s ! i) = None"
    "lo_tasks t = (lo_tasks s)[i := Finished op r]" and run: "run (lock_moves im) s ms t" "list_all old_call ms"
    by blast
  from unfinished_less [OF this(1-3)] run show ?thesis by blast
qed

lemma calls_return:
  assumes "lock_inv im spec a s" "good a" "list_all (\<lambda>t. fine (task_op t)) (lo_tasks s)"
  shows "\<exists>ms t. run (lock_moves im) s ms t \<and> list_all old_call ms \<and> all_returned t"
  using assms
proof (induction "unfinished s" arbitrary: s a rule: less_induct)
  case less
  show ?case
  proof (cases "all_returned s")
    case True
    then show ?thesis using run_Nil [of "lock_moves im" s] by (intro exI [of _ "[]"] exI [of _ s]) simp
  next
    case False
    from one_returns [OF less.prems False] obtain ms t where
      t: "run (lock_moves im) s ms t" "list_all old_call ms" "unfinished t < unfinished s" by blast
    have "concat (map invoked ms) = []" using t(2) by (auto simp: list_all_iff old_call_def)
    then have "list_all fine (concat (map invoked ms))" by (simp only:) simp
    from live_run [OF t(1) less.prems this] obtain b where
      "lock_inv im spec b t" "good b" "list_all (\<lambda>t. fine (task_op t)) (lo_tasks t)" by blast
    from less.hyps [OF t(3) this] obtain ns u where
      "run (lock_moves im) t ns u" "list_all old_call ns" "all_returned u" by blast
    with run_append [OF this(1) t(1)] t(2) show ?thesis by (intro exI [of _ "ms @ ns"] exI [of _ u]) simp
  qed
qed

lemma reachable_calls_return:
  assumes "run (lock_moves im) (lock_start s0) ls t" "good s0" "list_all fine (concat (map invoked ls))"
  shows "\<exists>ms u. run (lock_moves im) t ms u \<and> list_all old_call ms \<and> all_returned u"
proof -
  have "lock_inv im spec s0 (lock_start s0)" by (simp add: lock_inv_def lock_start_def)
  from live_run [OF assms(1) this assms(2) _ assms(3)] obtain a where
    "lock_inv im spec a t" "good a" "list_all (\<lambda>t. fine (task_op t)) (lo_tasks t)" by (auto simp: lock_start_def)
  then show ?thesis by (rule calls_return)
qed

end

end
