(* ===== verification/Mem_Locks.thy ===== *)
theory Mem_Locks
  imports Mem_Storage Locked_Object
begin

text \<open>
  The in-memory store statement by statement: what the operations of \<open>internal/storage/mem_storage.go\<close> do between taking
  and giving back \<open>mu\<close>, with any number of goroutines. It is an interpretation of \<open>live_object\<close>, so that
  the operations of \<open>Mem_Storage\<close> may be taken as single steps.
\<close>

section \<open>Operations and statements\<close>

datatype mem_op =
    OpSaveCounter string int64
  | OpSaveGauge string float64
  | OpSaveBatch "metrics list"
  | OpGetCounter string
  | OpGetGauge string
  | OpGetAllCounters
  | OpGetAllGauges
  | OpRestore "(string \<rightharpoonup> int64) option" "(string \<rightharpoonup> float64) option"

datatype mem_reply =
    AnsCounter "int64 result"
  | AnsGauge "float64 result"
  | AnsBatch "unit result"
  | AnsCounters "(string \<rightharpoonup> int64) result"
  | AnsGauges "(string \<rightharpoonup> float64) result"
  | AnsNone

text \<open>
  One access to a shared map each. Adding to a counter reads it into a register and stores the sum; a copy visits the
  keys one by one.
\<close>

datatype mem_instr =
    LoadCounter string
  | StoreCounter string int64
  | FetchCounter string
  | StoreGauge string float64
  | FindCounter string
  | FindGauge string
  | CopyCounter string
  | CopyGauge string
  | MakeCounters
  | MakeGauges
  | PutCounter string int64
  | PutGauge string float64

record mem_local =
  ml_tmp :: int64
  ml_counter :: "int64 result"
  ml_gauge :: "float64 result"
  ml_counters :: "string \<rightharpoonup> int64"
  ml_gauges :: "string \<rightharpoonup> float64"

fun mem_exec :: "mem_instr \<Rightarrow> mem_local \<times> mem_storage \<Rightarrow> mem_local \<times> mem_storage" where
  "mem_exec (LoadCounter n) (l, s) = (l\<lparr>ml_tmp := go_index (Counters s) n\<rparr>, s)"
| "mem_exec (StoreCounter n d) (l, s) = (l, s\<lparr>Counters := (Counters s)(n \<mapsto> ml_tmp l + d)\<rparr>)"
| "mem_exec (FetchCounter n) (l, s) = (l\<lparr>ml_counter := Inr (go_index (Counters s) n)\<rparr>, s)"
| "mem_exec (StoreGauge n v) (l, s) = (l, s\<lparr>Gauges := (Gauges s)(n \<mapsto> v)\<rparr>)"
| "mem_exec (FindCounter n) (l, s) =
     (l\<lparr>ml_counter := (case Counters s n of Some v \<Rightarrow> Inr v | None \<Rightarrow> Inl (ErrWrap n ErrCounterNotFound))\<rparr>, s)"
| "mem_exec (FindGauge n) (l, s) =
     (l\<lparr>ml_gauge := (case Gauges s n of Some v \<Rightarrow> Inr v | None \<Rightarrow> Inl (ErrWrap n ErrGaugeNotFound))\<rparr>, s)"
| "mem_exec (CopyCounter k) (l, s) =
     (case Counters s k of None \<Rightarrow> (l, s) | Some v \<Rightarrow> (l\<lparr>ml_counters := (ml_counters l)(k \<mapsto> v)\<rparr>, s))"
| "mem_exec (CopyGauge k) (l, s) =
     (case Gauges s k of None \<Rightarrow> (l, s) | Some v \<Rightarrow> (l\<lparr>ml_gauges := (ml_gauges l)(k \<mapsto> v)\<rparr>, s))"
| "mem_exec MakeCounters (l, s) = (l, s\<lparr>Counters := Map.empty\<rparr>)"
| "mem_exec MakeGauges (l, s) = (l, s\<lparr>Gauges := Map.empty\<rparr>)"
| "mem_exec (PutCounter k v) (l, s) = (l, s\<lparr>Counters := (Counters s)(k \<mapsto> v)\<rparr>)"
| "mem_exec (PutGauge k v) (l, s) = (l, s\<lparr>Gauges := (Gauges s)(k \<mapsto> v)\<rparr>)"

definition batch_instrs :: "metrics \<Rightarrow> mem_instr list" where
  "batch_instrs m =
     (if MType m = Counter then
        (case Delta m of None \<Rightarrow> [] | Some d \<Rightarrow> [LoadCounter (ID m), StoreCounter (ID m) d])
      else if MType m = Gauge then
        (case Value m of None \<Rightarrow> [] | Some v \<Rightarrow> [StoreGauge (ID m) v])
      else [])"

text \<open>The two lists are the orders in which the loops visit a map of counters and one of gauges.\<close>

fun mem_body :: "mem_op \<Rightarrow> string list \<times> string list \<Rightarrow> mem_instr list" where
  "mem_body (OpSaveCounter n v) ord = [LoadCounter n, StoreCounter n v, FetchCounter n]"
| "mem_body (OpSaveGauge n v) ord = [StoreGauge n v]"
| "mem_body (OpSaveBatch ms) ord = concat (map batch_instrs ms)"
| "mem_body (OpGetCounter n) ord = [FindCounter n]"
| "mem_body (OpGetGauge n) ord = [FindGauge n]"
| "mem_body OpGetAllCounters ord = map CopyCounter (fst ord)"
| "mem_body OpGetAllGauges ord = map CopyGauge (snd ord)"
| "mem_body (OpRestore c g) ord =
     (case c of None \<Rightarrow> [] | Some c \<Rightarrow> MakeCounters # map (\<lambda>(k, v). PutCounter k v) (map_range (fst ord) c)) @
     (case g of None \<Rightarrow> [] | Some g \<Rightarrow> MakeGauges # map (\<lambda>(k, v). PutGauge k v) (map_range (snd ord) g))"

text \<open>\<open>Lock\<close> for those that write, \<open>RLock\<close> for the others.\<close>

fun mem_writes :: "mem_op \<Rightarrow> bool" where
  "mem_writes (OpSaveCounter n v) = True"
| "mem_writes (OpSaveGauge n v) = True"
| "mem_writes (OpSaveBatch ms) = True"
| "mem_writes (OpRestore c g) = True"
| "mem_writes _ = False"

fun mem_order :: "mem_op \<Rightarrow> string list \<times> string list \<Rightarrow> mem_storage \<Rightarrow> bool" where
  "mem_order OpGetAllCounters ord s = map_order (Counters s) (fst ord)"
| "mem_order OpGetAllGauges ord s = map_order (Gauges s) (snd ord)"
| "mem_order (OpRestore c g) ord s =
     ((case c of None \<Rightarrow> True | Some c \<Rightarrow> map_order c (fst ord)) \<and>
      (case g of None \<Rightarrow> True | Some g \<Rightarrow> map_order g (snd ord)))"
| "mem_order _ ord s = True"

fun mem_answer :: "mem_op \<Rightarrow> mem_local \<Rightarrow> mem_reply" where
  "mem_answer (OpSaveCounter n v) l = AnsCounter (ml_counter l)"
| "mem_answer (OpSaveGauge n v) l = AnsGauge (Inr v)"
| "mem_answer (OpSaveBatch ms) l = AnsBatch (Inr ())"
| "mem_answer (OpGetCounter n) l = AnsCounter (ml_counter l)"
| "mem_answer (OpGetGauge n) l = AnsGauge (ml_gauge l)"
| "mem_answer OpGetAllCounters l = AnsCounters (Inr (ml_counters l))"
| "mem_answer OpGetAllGauges l = AnsGauges (Inr (ml_gauges l))"
| "mem_answer (OpRestore c g) l = AnsNone"

definition mem_impl :: "(mem_op, string list \<times> string list, mem_instr, mem_local, mem_reply, mem_storage) locked_impl" where
  "mem_impl =
     \<lparr>li_writes = mem_writes, li_order = mem_order, li_body = mem_body,
      li_init = \<lparr>ml_tmp = 0, ml_counter = Inr 0, ml_gauge = Inr 0, ml_counters = Map.empty, ml_gauges = Map.empty\<rparr>,
      li_exec = mem_exec, li_reply = mem_answer\<rparr>"

section \<open>Whole operations\<close>

fun mem_apply :: "mem_op \<Rightarrow> mem_storage \<Rightarrow> mem_reply \<times> mem_storage" where
  "mem_apply (OpSaveCounter n v) s = (case mem_SaveCounter n v s of (r, t) \<Rightarrow> (AnsCounter r, t))"
| "mem_apply (OpSaveGauge n v) s = (case mem_SaveGauge n v s of (r, t) \<Rightarrow> (AnsGauge r, t))"
| "mem_apply (OpSaveBatch ms) s = (case mem_SaveBatch ms s of (r, t) \<Rightarrow> (AnsBatch r, t))"
| "mem_apply (OpGetCounter n) s = (case mem_GetCounter n s of (r, t) \<Rightarrow> (AnsCounter r, t))"
| "mem_apply (OpGetGauge n) s = (case mem_GetGauge n s of (r, t) \<Rightarrow> (AnsGauge r, t))"
| "mem_apply OpGetAllCounters s = (case mem_GetAllCounters s of (r, t) \<Rightarrow> (AnsCounters r, t))"
| "mem_apply OpGetAllGauges s = (case mem_GetAllGauges s of (r, t) \<Rightarrow> (AnsGauges r, t))"
| "mem_apply (OpRestore c g) s = (AnsNone, Restore c g s)"

text \<open>The updates of \<open>Repository\<close> are among them.\<close>

fun update_op :: "update \<Rightarrow> mem_op" where
  "update_op (UpdCounter n v) = OpSaveCounter n v"
| "update_op (UpdGauge n x) = OpSaveGauge n x"
| "update_op (UpdBatch ms) = OpSaveBatch ms"

lemma atomic_updates: "snd (atomic_run mem_apply (map update_op us) s) = run_updates mem_repo us s"
proof (induction us arbitrary: s)
  case (Cons u us)
  have "snd (mem_apply (update_op u) s) = run_update mem_repo u s"
    by (cases u) (simp_all add: service_defs mem_repo_def split: prod.split)
  with Cons show ?case by (simp split: prod.split) (metis snd_conv)
qed simp

section \<open>The loops\<close>

lemma fold_range:
  "fold (\<lambda>k r. case m k of None \<Rightarrow> r | Some v \<Rightarrow> r(k \<mapsto> v)) ks r = fold (\<lambda>(k, v) r. r(k \<mapsto> v)) (map_range ks m) r"
  by (induction ks arbitrary: r) (simp_all split: option.split)

lemma copy_counters:
  "fold mem_exec (map CopyCounter ks) (l, s) =
     (l\<lparr>ml_counters := fold (\<lambda>(k, v) r. r(k \<mapsto> v)) (map_range ks (Counters s)) (ml_counters l)\<rparr>, s)"
  by (induction ks arbitrary: l) (simp_all split: option.split)

lemma copy_gauges:
  "fold mem_exec (map CopyGauge ks) (l, s) =
     (l\<lparr>ml_gauges := fold (\<lambda>(k, v) r. r(k \<mapsto> v)) (map_range ks (Gauges s)) (ml_gauges l)\<rparr>, s)"
  by (induction ks arbitrary: l) (simp_all split: option.split)

lemma put_counters:
  "fold mem_exec (map (\<lambda>(k, v). PutCounter k v) xs) (l, s) =
     (l, s\<lparr>Counters := fold (\<lambda>(k, v) r. r(k \<mapsto> v)) xs (Counters s)\<rparr>)"
  by (induction xs arbitrary: s) (auto split: prod.split)

lemma put_gauges:
  "fold mem_exec (map (\<lambda>(k, v). PutGauge k v) xs) (l, s) =
     (l, s\<lparr>Gauges := fold (\<lambda>(k, v) r. r(k \<mapsto> v)) xs (Gauges s)\<rparr>)"
  by (induction xs arbitrary: s) (auto split: prod.split)

lemma batch_metric: "snd (fold mem_exec (batch_instrs m) (l, s)) = mem_batch_step m s"
  by (simp add: batch_instrs_def mem_batch_step.simps split: option.split)

lemma batch_loop: "snd (fold mem_exec (concat (map batch_instrs ms)) (l, s)) = fold mem_batch_step ms s"
proof (induction ms arbitrary: l s)
  case (Cons m ms)
  obtain l' t where "fold mem_exec (batch_instrs m) (l, s) = (l', t)" by fastforce
  with Cons.IH [of l' t] batch_metric [of m l s] show ?case by simp
qed simp

lemma restore_loops:
  assumes "mem_order (OpRestore c g) ord s"
  shows "fold mem_exec (mem_body (OpRestore c g) ord) (l, s) = (l, Restore c g s)"
  using assms
  by (cases c; cases g) (simp_all add: Restore_def put_counters put_gauges fold_upd_map_range)

section \<open>Linearizability\<close>

text \<open>Maps of a program are finite: those of the store, and those it is restored from.\<close>

definition mem_finite :: "mem_storage \<Rightarrow> bool" where
  "mem_finite s \<longleftrightarrow> finite (dom (Counters s)) \<and> finite (dom (Gauges s))"

fun mem_fine :: "mem_op \<Rightarrow> bool" where
  "mem_fine (OpRestore c g) \<longleftrightarrow>
     (case c of None \<Rightarrow> True | Some c \<Rightarrow> finite (dom c)) \<and> (case g of None \<Rightarrow> True | Some g \<Rightarrow> finite (dom g))"
| "mem_fine _ \<longleftrightarrow> True"

lemma mem_finite_batch: "mem_finite s \<Longrightarrow> mem_finite (fold mem_batch_step ms s)"
  by (induction ms arbitrary: s) (simp_all add: mem_finite_def mem_batch_step.simps split: option.split)

lemma map_order_exists: "finite (dom m) \<Longrightarrow> \<exists>ks. map_order m ks"
  using finite_distinct_list [of "dom m"] by (auto simp: map_order_def)

lemma mem_order_exists:
  assumes "mem_finite s" "mem_fine op"
  shows "\<exists>ord. mem_order op ord s"
proof (cases op)
  case OpGetAllCounters
  with assms map_order_exists [of "Counters s"] show ?thesis by (auto simp: mem_finite_def)
next
  case OpGetAllGauges
  with assms map_order_exists [of "Gauges s"] show ?thesis by (auto simp: mem_finite_def)
next
  case (OpRestore c g)
  have "\<exists>ks. case c of None \<Rightarrow> True | Some c \<Rightarrow> map_order c ks" "\<exists>ks. case g of None \<Rightarrow> True | Some g \<Rightarrow> map_order g ks"
    using assms(2) map_order_exists unfolding OpRestore by (auto split: option.splits)
  then show ?thesis unfolding OpRestore mem_order.simps by (metis fst_conv snd_conv)
qed simp_all

interpretation mem_locks: live_object mem_impl mem_apply mem_finite mem_fine
proof (unfold_locales, goal_cases)
  case (1 op ord s l t)
  show ?case
  proof (cases "\<exists>ms. op = OpSaveBatch ms")
    case True
    then obtain ms where "op = OpSaveBatch ms" by blast
    with 1 batch_loop [of ms "li_init mem_impl" s] show ?thesis by (simp add: mem_impl_def mem_defs)
  next
    case False
    with 1 restore_loops [of _ _ ord s "li_init mem_impl"] show ?thesis
      by (cases op) (auto simp: mem_impl_def mem_defs copy_counters copy_gauges fold_upd_map_range Let_def split: option.splits)
  qed
next
  case (2 op ord)
  then show ?case
    by (cases op) (auto simp: mem_impl_def reads_only_def split: option.split)
next
  case (3 s op)
  then show ?case
    by (cases op) (simp_all add: mem_defs Let_def mem_finite_batch,
        auto simp: mem_finite_def Restore_def split: option.splits)
next
  case (4 s op)
  then show ?case using mem_order_exists by (simp add: mem_impl_def)
qed

text \<open>
  C6: The in-memory store is linearizable. Let any number of goroutines call any of its operations, interleaved
  statement by statement, the loops of the copies and of the batch included. The calls that have returned, in the order in
  which they gave the lock back, got the answers of whole operations executed one after the other,
  and when no writer is inside, the maps are what those operations leave.
\<close>

theorem mem_linearizable:
  assumes "run (lock_moves mem_impl) (lock_start s0) ls t"
  shows "let order = concat (map released ls); calls = concat (map invoked ls) in
    map task_op (lo_tasks t) = calls \<and> distinct order \<and>
    set order = {i. i < length (lo_tasks t) \<and> task_reply (lo_tasks t ! i) \<noteq> None} \<and>
    (\<exists>a. atomic_run mem_apply (map ((!) calls) order) s0 = (map (\<lambda>i. the (task_reply (lo_tasks t ! i))) order, a) \<and>
         (\<not> lo_writer t \<longrightarrow> lo_shared t = a))"
  using mem_locks.linear_run [OF assms] by (auto simp: linearized_def history_def Let_def)


text \<open>Two increments and a copy at once; the copy comes between them.\<close>

definition sample_calls :: "(mem_op, string list \<times> string list) lock_label list" where
  "sample_calls = [LInvoke (OpSaveCounter ''a'' 5), LInvoke OpGetAllCounters, LInvoke (OpSaveCounter ''a'' 2),
     LAcquire 2 ([], []), LExec 2, LExec 2, LExec 2, LRelease 2, LAcquire 1 ([''a''], []), LExec 1, LRelease 1,
     LAcquire 0 ([], []), LExec 0]"

lemma sample_calls_run:
  obtains t where "run (lock_moves mem_impl) (lock_start New) sample_calls t" "lo_writer t"
    "task_reply (lo_tasks t ! 2) = Some (AnsCounter (Inr 2))"
    "task_reply (lo_tasks t ! 1) = Some (AnsCounters (Inr [''a'' \<mapsto> 2]))"
proof -
  obtain t where "exec_steps (lock_step mem_impl) sample_calls (lock_start New) = Some t" "lo_writer t"
    "task_reply (lo_tasks t ! 2) = Some (AnsCounter (Inr 2))"
    "task_reply (lo_tasks t ! 1) = Some (AnsCounters (Inr [''a'' \<mapsto> 2]))"
    by (simp add: sample_calls_def lock_start_def mem_impl_def New_def map_order_def numeral_2_eq_2)
  with lock_exec [OF this(1)] that show thesis by blast
qed

theorem mem_linearizable_witness:
  "fst (atomic_run mem_apply [OpSaveCounter ''a'' 2, OpGetAllCounters] New) =
     [AnsCounter (Inr 2), AnsCounters (Inr [''a'' \<mapsto> 2])] \<and>
   (\<exists>t. run (lock_moves mem_impl) (lock_start New) sample_calls t \<and> lo_writer t)"
proof -
  obtain t where t: "run (lock_moves mem_impl) (lock_start New) sample_calls t" "lo_writer t"
    "task_reply (lo_tasks t ! 2) = Some (AnsCounter (Inr 2))"
    "task_reply (lo_tasks t ! 1) = Some (AnsCounters (Inr [''a'' \<mapsto> 2]))" by (rule sample_calls_run)
  have order: "concat (map released sample_calls) = [2, 1]"
    and calls: "concat (map invoked sample_calls) = [OpSaveCounter ''a'' 5, OpGetAllCounters, OpSaveCounter ''a'' 2]"
    by (simp_all add: sample_calls_def)
  from mem_linearizable [OF t(1), unfolded Let_def order calls] obtain a where
    "atomic_run mem_apply (map ((!) [OpSaveCounter ''a'' 5, OpGetAllCounters, OpSaveCounter ''a'' 2]) [2, 1]) New =
       (map (\<lambda>i. the (task_reply (lo_tasks t ! i))) [2, 1], a)" by blast
  then have "fst (atomic_run mem_apply [OpSaveCounter ''a'' 2, OpGetAllCounters] New) =
      [AnsCounter (Inr 2), AnsCounters (Inr [''a'' \<mapsto> 2])]"
    by (simp only: list.map t(3,4) option.sel) simp
  with t(1,2) show ?thesis by blast
qed


end
