(* ===== verification/Retry.thy ===== *)
theory Retry
  imports Prelude
begin

text \<open>
  \<open>internal/retry/retry.go\<close>: retrying a fallible call after 1, 3 and 5 seconds. The call is a
  function of the state it may change; the context is its error on entry and, for each wait,
  whether it is cancelled before the timer fires.
\<close>

record ctx =
  ctx_err :: "go_error option"
  ctx_done :: "nat \<Rightarrow> bool"

definition ctx_background :: ctx where
  "ctx_background = \<lparr>ctx_err = None, ctx_done = (\<lambda>_. False)\<rparr>"

text \<open>The delays in seconds.\<close>

definition defaultDelays :: "nat list" where
  "defaultDelays = [1, 3, 5]"

text \<open>
  The loop over the delays, from the error of the last call; the third component is the
  list of the delays waited out.
\<close>

fun retry_loop ::
  "ctx \<Rightarrow> (go_error \<Rightarrow> bool) \<Rightarrow> ('s \<Rightarrow> 'a result \<times> 's) \<Rightarrow> nat \<Rightarrow> nat list \<Rightarrow> go_error \<Rightarrow> 's \<Rightarrow>
   'a result \<times> 's \<times> nat list" where
  "retry_loop cx isr fn k [] err s = (Inl err, s, [])"
| "retry_loop cx isr fn k (d # ds) err s =
     (if ctx_done cx k then (Inl err, s, [])
      else case fn s of
        (Inr x, s') \<Rightarrow> (Inr x, s', [d])
      | (Inl e, s') \<Rightarrow>
          if \<not> isr e then (Inl e, s', [d])
          else (case retry_loop cx isr fn (Suc k) ds e s' of (r, s'', w) \<Rightarrow> (r, s'', d # w)))"

definition retry_trace ::
  "ctx \<Rightarrow> (go_error \<Rightarrow> bool) \<Rightarrow> ('s \<Rightarrow> 'a result \<times> 's) \<Rightarrow> 's \<Rightarrow> 'a result \<times> 's \<times> nat list" where
  "retry_trace cx isr fn s =
     (case ctx_err cx of
        Some e \<Rightarrow> (Inl e, s, [])
      | None \<Rightarrow>
          (case fn s of
             (Inr x, s') \<Rightarrow> (Inr x, s', [])
           | (Inl e, s') \<Rightarrow>
               if \<not> isr e then (Inl e, s', []) else retry_loop cx isr fn 0 defaultDelays e s'))"

definition retry_Do ::
  "ctx \<Rightarrow> (go_error \<Rightarrow> bool) \<Rightarrow> ('s \<Rightarrow> 'a result \<times> 's) \<Rightarrow> 's \<Rightarrow> 'a result \<times> 's" where
  "retry_Do cx isr fn s = (case retry_trace cx isr fn s of (r, s', w) \<Rightarrow> (r, s'))"

section \<open>Specification\<close>

text \<open>Calling again and again: the outcome of the call number \<open>n\<close>.\<close>

fun attempt :: "('s \<Rightarrow> 'a result \<times> 's) \<Rightarrow> nat \<Rightarrow> 's \<Rightarrow> 'a result \<times> 's" where
  "attempt fn 0 s = fn s"
| "attempt fn (Suc n) s = attempt fn n (snd (fn s))"

text \<open>A retry continues after this outcome.\<close>

definition retries :: "(go_error \<Rightarrow> bool) \<Rightarrow> 'a result \<Rightarrow> bool" where
  "retries isr r = (case r of Inl e \<Rightarrow> isr e | Inr _ \<Rightarrow> False)"

lemma retry_loop_spec:
  assumes "retry_loop cx isr fn k ds e s0 = (r, s', w)" "fn s = (Inl e, s0)" "isr e"
  shows "\<exists>n \<le> length ds. attempt fn n s = (r, s') \<and> w = take n ds \<and>
           (\<forall>j<n. retries isr (fst (attempt fn j s)) \<and> \<not> ctx_done cx (k + j)) \<and>
           (\<not> retries isr r \<or> n = length ds \<or> ctx_done cx (k + n))"
  using assms
proof (induction ds arbitrary: k e s0 s w)
  case Nil
  then show ?case by (intro exI [of _ 0]) simp
next
  case (Cons d ds)
  show ?case
  proof (cases "ctx_done cx k")
    case True
    with Cons.prems show ?thesis by (intro exI [of _ 0]) simp
  next
    case False
    obtain r1 s1 where f1: "fn s0 = (r1, s1)" by (cases "fn s0")
    show ?thesis
    proof (cases "retries isr r1")
      case no: False
      with Cons.prems False f1 have "r = r1" "s' = s1" "w = [d]"
        by (auto simp: retries_def split: sum.splits if_splits)
      with no False f1 Cons.prems(2,3) show ?thesis
        by (intro exI [of _ 1]) (simp add: retries_def)
    next
      case yes: True
      then obtain e1 where e1: "r1 = Inl e1" "isr e1" by (auto simp: retries_def split: sum.splits)
      obtain w1 where w1: "retry_loop cx isr fn (Suc k) ds e1 s1 = (r, s', w1)" "w = d # w1"
        using Cons.prems(1) False f1 e1 by (auto split: prod.splits)
      from f1 e1(1) have "fn s0 = (Inl e1, s1)" by simp
      from Cons.IH [OF w1(1) this e1(2)] obtain n where n: "n \<le> length ds" "attempt fn n s0 = (r, s')"
          "w1 = take n ds" "\<forall>j<n. retries isr (fst (attempt fn j s0)) \<and> \<not> ctx_done cx (Suc k + j)"
          "\<not> retries isr r \<or> n = length ds \<or> ctx_done cx (Suc k + n)" by blast
      have "\<forall>j<Suc n. retries isr (fst (attempt fn j s)) \<and> \<not> ctx_done cx (k + j)"
      proof (intro allI impI)
        fix j assume "j < Suc n"
        with n(4) False Cons.prems(2,3)
        show "retries isr (fst (attempt fn j s)) \<and> \<not> ctx_done cx (k + j)"
          by (cases j) (auto simp: retries_def)
      qed
      with n w1 Cons.prems(2) show ?thesis by (intro exI [of _ "Suc n"]) simp
    qed
  qed
qed

lemma retry_trace_spec:
  "case retry_trace cx isr fn s of (r, s', w) \<Rightarrow>
     retry_Do cx isr fn s = (r, s') \<and>
     (case ctx_err cx of
        Some e \<Rightarrow> r = Inl e \<and> s' = s \<and> w = []
      | None \<Rightarrow>
          (\<exists>n \<le> 3. attempt fn n s = (r, s') \<and> w = take n [1, 3, 5] \<and>
             (\<forall>j<n. retries isr (fst (attempt fn j s)) \<and> \<not> ctx_done cx j) \<and>
             (retries isr r \<longrightarrow> n = 3 \<or> ctx_done cx n)))"
proof (cases "ctx_err cx")
  case (Some e)
  then show ?thesis by (simp add: retry_trace_def retry_Do_def)
next
  case None
  obtain r s' w where tr: "retry_trace cx isr fn s = (r, s', w)" by (cases "retry_trace cx isr fn s")
  obtain r0 s0 where f0: "fn s = (r0, s0)" by (cases "fn s")
  have "\<exists>n \<le> 3. attempt fn n s = (r, s') \<and> w = take n [1, 3, 5] \<and>
      (\<forall>j<n. retries isr (fst (attempt fn j s)) \<and> \<not> ctx_done cx j) \<and>
      (\<not> retries isr r \<or> n = 3 \<or> ctx_done cx n)"
  proof (cases "retries isr r0")
    case False
    with tr f0 None have "r = r0" "s' = s0" "w = []"
      by (auto simp: retry_trace_def retries_def split: sum.splits if_splits)
    with False f0 show ?thesis by (intro exI [of _ 0]) simp
  next
    case True
    then obtain e where e: "r0 = Inl e" "isr e" by (auto simp: retries_def split: sum.splits)
    with tr f0 None have "retry_loop cx isr fn 0 defaultDelays e s0 = (r, s', w)"
      by (simp add: retry_trace_def)
    moreover have "fn s = (Inl e, s0)" using f0 e by simp
    ultimately show ?thesis
      using retry_loop_spec [of cx isr fn 0 defaultDelays e s0 r s' w s] e
      by (simp add: defaultDelays_def numeral_3_eq_3 disj_imp)
  qed
  then show ?thesis
    by (auto simp: tr None retry_Do_def disj_imp)
qed

text \<open>
  C28: Retrying makes between one and four calls and never waits for nothing: its outcome
  and final state are those of the last call, every earlier call failed with a retriable error,
  the delays waited out are the first ones of 1, 3 and 5 seconds, and it stops at the first success
  or other error, after the fourth call, or at a wait during which the context is cancelled.
  With a context already cancelled it makes no call.
\<close>

theorem retry_Do_spec:
  "case retry_trace cx isr fn s of (r, s', w) \<Rightarrow>
     retry_Do cx isr fn s = (r, s') \<and>
     (case ctx_err cx of
        Some e \<Rightarrow> r = Inl e \<and> s' = s \<and> w = []
      | None \<Rightarrow>
          (\<exists>n \<le> 3. attempt fn n s = (r, s') \<and> w = take n [1, 3, 5] \<and>
             (\<forall>j<n. retries isr (fst (attempt fn j s)) \<and> \<not> ctx_done cx j) \<and>
             (retries isr r \<longrightarrow> n = 3 \<or> ctx_done cx n)))"
  by (rule retry_trace_spec)

theorem retry_Do_spec_witness:
  "retry_trace ctx_background (\<lambda>e. e = ErrText ''busy'')
     (\<lambda>n :: nat. (if n < 2 then Inl (ErrText ''busy'') else Inr n, Suc n)) 0 = (Inr 2, 3, [1, 3]) \<and>
   retry_Do ctx_background (\<lambda>e. e = ErrText ''busy'')
     (\<lambda>n :: nat. (if n < 2 then Inl (ErrText ''busy'') else Inr n, Suc n)) 0 = (Inr 2, 3)"
proof -
  let ?f = "\<lambda>n :: nat. (if n < 2 then Inl (ErrText ''busy'') else Inr n, Suc n)"
  have tr: "retry_trace ctx_background (\<lambda>e. e = ErrText ''busy'') ?f 0 = (Inr 2, 3, [1, 3])"
    by (simp add: retry_trace_def ctx_background_def defaultDelays_def numeral_2_eq_2 numeral_3_eq_3)
  from retry_Do_spec [of ctx_background "\<lambda>e. e = ErrText ''busy''" ?f 0]
  have "retry_Do ctx_background (\<lambda>e. e = ErrText ''busy'') ?f 0 = (Inr 2, 3)"
    unfolding tr by simp
  with tr show ?thesis by simp
qed

section \<open>What clients rely on\<close>

text \<open>A view the failing calls keep is changed by the successful call only.\<close>

lemma attempt_view:
  assumes "\<And>s e s'. fn s = (Inl e, s') \<Longrightarrow> view s' = view s"
    and "\<forall>j<n. retries isr (fst (attempt fn j s))"
  shows "\<exists>s0. view s0 = view s \<and> attempt fn n s = fn s0"
  using assms(2)
proof (induction n arbitrary: s)
  case (Suc n)
  obtain r1 s1 where f: "fn s = (r1, s1)" by (cases "fn s")
  have "retries isr r1" using Suc.prems f by (metis attempt.simps(1) fst_conv zero_less_Suc)
  then obtain e where e: "fn s = (Inl e, s1)" using f by (auto simp: retries_def split: sum.splits)
  have "\<forall>j<n. retries isr (fst (attempt fn j s1))"
    using Suc.prems e by (metis Suc_mono attempt.simps(2) snd_conv)
  from Suc.IH [OF this] assms(1) [OF e] e show ?case by auto
qed auto

lemma retry_view:
  assumes keep: "\<And>s e s'. fn s = (Inl e, s') \<Longrightarrow> view s' = view s"
  shows "retry_Do cx isr fn s = (Inl e, s') \<Longrightarrow> view s' = view s"
    and "retry_Do cx isr fn s = (Inr x, s') \<Longrightarrow> \<exists>s0. view s0 = view s \<and> fn s0 = (Inr x, s')"
proof -
  have main: "(case r of Inl e \<Rightarrow> view s' = view s | Inr x \<Rightarrow> \<exists>s0. view s0 = view s \<and> fn s0 = (Inr x, s'))"
    if "retry_Do cx isr fn s = (r, s')" for r s'
  proof (cases "ctx_err cx")
    case (Some e)
    with that show ?thesis by (auto simp: retry_Do_def retry_trace_def)
  next
    case None
    obtain r2 s2 w where tr: "retry_trace cx isr fn s = (r2, s2, w)" by (cases "retry_trace cx isr fn s")
    from that tr have eq: "r2 = r" "s2 = s'" by (simp_all add: retry_Do_def)
    obtain n where n: "attempt fn n s = (r, s')"
        "\<forall>j<n. retries isr (fst (attempt fn j s))"
      using retry_trace_spec [of cx isr fn s] by (auto simp: tr None eq)
    have "\<exists>s0. view s0 = view s \<and> attempt fn n s = fn s0"
      by (rule attempt_view [OF _ n(2)]) (rule keep)
    with n(1) obtain s0 where s0: "view s0 = view s" "fn s0 = (r, s')" by auto
    then show ?thesis using keep by (cases r) auto
  qed
  show "retry_Do cx isr fn s = (Inl e, s') \<Longrightarrow> view s' = view s"
    and "retry_Do cx isr fn s = (Inr x, s') \<Longrightarrow> \<exists>s0. view s0 = view s \<and> fn s0 = (Inr x, s')"
    using main by fastforce+
qed

text \<open>A first call that succeeds is the only one.\<close>

lemma retry_first:
  assumes "ctx_err cx = None" "fn s = (Inr x, s')"
  shows "retry_Do cx isr fn s = (Inr x, s')"
  using assms by (simp add: retry_Do_def retry_trace_def)

lemma retry_fatal:
  assumes "ctx_err cx = None" "fn s = (Inl e, s')" "\<not> isr e"
  shows "retry_Do cx isr fn s = (Inl e, s')"
  using assms by (simp add: retry_Do_def retry_trace_def)

lemma retry_second:
  assumes "ctx_err cx = None" "fn s = (Inl e, s')" "isr e" "\<not> ctx_done cx 0" "fn s' = (Inr x, t)"
  shows "retry_Do cx isr fn s = (Inr x, t)"
  using assms by (simp add: retry_Do_def retry_trace_def defaultDelays_def)

section \<open>Effects that may be repeated\<close>

text \<open>
  A call whose effect happens at most once, and has happened when it succeeds; its reply may be lost
  unless \<open>sure\<close>. Retried, the effect happens up to four times. The transaction of a batch and the
  request of the agent are interpretations.
\<close>

locale repeated_effect =
  fixes fn :: "'s \<Rightarrow> unit result \<times> 's"
    and times :: "nat \<Rightarrow> 's \<Rightarrow> 's \<Rightarrow> bool"
    and sure :: bool
  assumes times_none: "times 0 s s"
    and times_add: "times m s t \<Longrightarrow> times n t u \<Longrightarrow> times (m + n) s u"
    and call: "fn s = (r, t) \<Longrightarrow>
      \<exists>m \<le> 1. times m s t \<and> (r = Inr () \<longrightarrow> m = 1) \<and> (sure \<longrightarrow> m = (if r = Inr () then 1 else 0))"
begin

lemma attempts_times:
  assumes "attempt fn n s = (r, t)" "\<forall>j<n. retries isr (fst (attempt fn j s))"
  shows "\<exists>m \<le> Suc n. times m s t \<and> (r = Inr () \<longrightarrow> 1 \<le> m) \<and> (sure \<longrightarrow> m = (if r = Inr () then 1 else 0))"
  using assms
proof (induction n arbitrary: s)
  case 0
  then show ?case using call [of s r t] by auto
next
  case (Suc n)
  obtain r1 s1 where f: "fn s = (r1, s1)" by (cases "fn s")
  have "retries isr r1" using Suc.prems(2) f by (metis attempt.simps(1) fst_conv zero_less_Suc)
  then have r1: "r1 \<noteq> Inr ()" by (auto simp: retries_def)
  have rest: "\<forall>j<n. retries isr (fst (attempt fn j s1))"
    using Suc.prems(2) f by (metis Suc_mono attempt.simps(2) snd_conv)
  have "attempt fn n s1 = (r, t)" using Suc.prems(1) f by simp
  from Suc.IH [OF this rest] obtain m2 where m2: "m2 \<le> Suc n" "times m2 s1 t" "r = Inr () \<longrightarrow> 1 \<le> m2"
      "sure \<longrightarrow> m2 = (if r = Inr () then 1 else 0)" by blast
  from call [OF f] r1 obtain m1 where m1: "m1 \<le> 1" "times m1 s s1" "sure \<longrightarrow> m1 = 0" by auto
  from times_add [OF m1(2) m2(2)] m1 m2 show ?case by (intro exI [of _ "m1 + m2"]) auto
qed

lemma retry_times:
  assumes "retry_Do cx isr fn s = (r, t)"
  shows "\<exists>n \<le> 4. times n s t \<and> (r = Inr () \<longrightarrow> 1 \<le> n) \<and> (sure \<longrightarrow> n = (if r = Inr () then 1 else 0))"
proof (cases "ctx_err cx")
  case (Some e)
  with assms times_none show ?thesis
    by (intro exI [of _ 0]) (auto simp: retry_Do_def retry_trace_def)
next
  case None
  obtain r2 s2 w where tr: "retry_trace cx isr fn s = (r2, s2, w)" by (cases "retry_trace cx isr fn s")
  with assms have eq: "r2 = r" "s2 = t" by (simp_all add: retry_Do_def)
  obtain n where n: "n \<le> 3" "attempt fn n s = (r, t)" "\<forall>j<n. retries isr (fst (attempt fn j s))"
    using retry_trace_spec [of cx isr fn s] by (auto simp: tr None eq)
  from attempts_times [OF n(2,3)] obtain m where "m \<le> Suc n" "times m s t" "r = Inr () \<longrightarrow> 1 \<le> m"
    "sure \<longrightarrow> m = (if r = Inr () then 1 else 0)" by blast
  with n(1) show ?thesis by (intro exI [of _ m]) simp
qed

end

end
