(* ===== verification/Postgres.thy ===== *)
theory Postgres
  imports Repository Retry "HOL-Library.Product_Lexorder" "HOL-Library.List_Lexorder" "HOL-Library.Char_ord"
begin

text \<open>
  \<open>internal/storage/postgres/postgres.go\<close>: the store over PostgreSQL. The table is the one of
  the migration, with its primary key \<open>(id, mtype)\<close>; the statements have the semantics the SQL
  text gives them. Every round trip to the server has an outcome taken from the environment: it
  goes through, fails before its effect, or has its effect and loses its reply.
\<close>

type_synonym row = "int64 option \<times> float64 option"
type_synonym db_table = "string \<times> string \<rightharpoonup> row"

datatype db_fault = NoFault | FailBefore go_error | FailAfter go_error

record pg_env =
  pg_fault :: "nat \<Rightarrow> db_fault"
  pg_rows :: "db_table \<Rightarrow> (string \<times> string) list"
  pg_conn_exc :: "string \<Rightarrow> bool"

record pg_state =
  pg_table :: db_table
  pg_calls :: nat

definition pg_isRetriable :: "pg_env \<Rightarrow> go_error \<Rightarrow> bool" where
  "pg_isRetriable env err =
     (case errors_as_pg err of Some code \<Rightarrow> pg_conn_exc env code | None \<Rightarrow> errors_as_net err)"

text \<open>
  Opening the store applies the embedded migrations, which create the table unless it exists; what the
  file system, the constructor of goose and its \<open>Up\<close> answer are outcomes.
\<close>

record migrate_env =
  mg_sub :: "go_error option"
  mg_provider :: "go_error option"
  mg_up :: "go_error option"

definition migrate :: "migrate_env \<Rightarrow> unit result" where
  "migrate env =
     (case mg_sub env of
        Some e \<Rightarrow> Inl (ErrWrap ''open migrations dir'' e)
      | None \<Rightarrow>
     (case mg_provider env of
        Some e \<Rightarrow> Inl (ErrWrap ''create goose provider'' e)
      | None \<Rightarrow>
     (case mg_up env of
        Some e \<Rightarrow> Inl (ErrWrap ''apply up migrations'' e)
      | None \<Rightarrow> Inr ())))"

definition pg_New :: "migrate_env \<Rightarrow> unit result" where
  "pg_New env = wrap_err ''apply migrations'' (migrate env)"

lemma pg_New_ok: "pg_New env = Inr () \<longleftrightarrow> mg_sub env = None \<and> mg_provider env = None \<and> mg_up env = None"
  by (simp add: pg_New_def migrate_def split: option.splits)

text \<open>One statement outside a transaction.\<close>

definition db_call ::
  "pg_env \<Rightarrow> (db_table \<Rightarrow> 'a result \<times> db_table) \<Rightarrow> pg_state \<Rightarrow> 'a result \<times> pg_state" where
  "db_call env stmt s =
     (let next = s\<lparr>pg_calls := Suc (pg_calls s)\<rparr> in
      case pg_fault env (pg_calls s) of
        NoFault \<Rightarrow> (case stmt (pg_table s) of (r, t) \<Rightarrow> (r, next\<lparr>pg_table := t\<rparr>))
      | FailBefore e \<Rightarrow> (Inl e, next)
      | FailAfter e \<Rightarrow> (Inl e, next\<lparr>pg_table := snd (stmt (pg_table s))\<rparr>))"

section \<open>Statements\<close>

text \<open>The sum of two \<open>bigint\<close>s that is a \<open>bigint\<close>.\<close>

definition bigint_add_ok :: "int64 \<Rightarrow> int64 \<Rightarrow> bool" where
  "bigint_add_ok a b \<longleftrightarrow> - (2 ^ 63) \<le> sint a + sint b \<and> sint a + sint b < 2 ^ 63"

definition upsert_counter :: "string \<Rightarrow> int64 \<Rightarrow> db_table \<Rightarrow> int64 option result \<times> db_table" where
  "upsert_counter name v t =
     (case t (name, Counter) of
        None \<Rightarrow> (Inr (Some v), t((name, Counter) \<mapsto> (Some v, None)))
      | Some (None, x) \<Rightarrow> (Inr None, t)
      | Some (Some d, x) \<Rightarrow>
          if bigint_add_ok d v then (Inr (Some (d + v)), t((name, Counter) \<mapsto> (Some (d + v), x)))
          else (Inl (PgError ''22003''), t))"

definition upsert_gauge :: "string \<Rightarrow> float64 \<Rightarrow> db_table \<Rightarrow> float64 option result \<times> db_table" where
  "upsert_gauge name x t =
     (case t (name, Gauge) of
        None \<Rightarrow> (Inr (Some x), t((name, Gauge) \<mapsto> (None, Some x)))
      | Some (d, _) \<Rightarrow> (Inr (Some x), t((name, Gauge) \<mapsto> (d, Some x))))"

text \<open>Scanning one column of one row: a NULL does not fit an integer or a float.\<close>

definition scan_null :: "'a option result \<Rightarrow> 'a result" where
  "scan_null r = rbind r (\<lambda>v. case v of None \<Rightarrow> Inl (ErrText ''converting NULL is unsupported'') | Some x \<Rightarrow> Inr x)"

definition select_delta :: "string \<Rightarrow> db_table \<Rightarrow> int64 result \<times> db_table" where
  "select_delta name t =
     (case t (name, Counter) of None \<Rightarrow> (Inl ErrNoRows, t) | Some r \<Rightarrow> (scan_null (Inr (fst r)), t))"

definition select_value :: "string \<Rightarrow> db_table \<Rightarrow> float64 result \<times> db_table" where
  "select_value name t =
     (case t (name, Gauge) of None \<Rightarrow> (Inl ErrNoRows, t) | Some r \<Rightarrow> (scan_null (Inr (snd r)), t))"

text \<open>The rows of one type in the order the server returns them, scanned into a map.\<close>

fun scan_rows ::
  "(row \<Rightarrow> 'v option) \<Rightarrow> ((string \<times> string) \<times> row) list \<Rightarrow> (string \<rightharpoonup> 'v) \<Rightarrow> (string \<rightharpoonup> 'v) result" where
  "scan_rows col [] m = Inr m"
| "scan_rows col ((k, r) # rows) m =
     rbind (scan_null (Inr (col r))) (\<lambda>v. scan_rows col rows (m(fst k \<mapsto> v)))"

definition select_all :: "pg_env \<Rightarrow> string \<Rightarrow> (row \<Rightarrow> 'v option) \<Rightarrow> db_table \<Rightarrow> (string \<rightharpoonup> 'v) result \<times> db_table" where
  "select_all env mtype col t =
     (scan_rows col (filter (\<lambda>(k, r). snd k = mtype) (map_range (pg_rows env t) t)) Map.empty, t)"

section \<open>Operations\<close>

definition pg_SaveCounter ::
  "pg_env \<Rightarrow> ctx \<Rightarrow> string \<Rightarrow> int64 \<Rightarrow> pg_state \<Rightarrow> int64 result \<times> pg_state" where
  "pg_SaveCounter env cx name value s =
     (case retry_Do cx (pg_isRetriable env)
             (\<lambda>s. case db_call env (upsert_counter name value) s of (r, s') \<Rightarrow> (scan_null r, s')) s of
        (r, s') \<Rightarrow> (wrap_err ''save counter'' r, s'))"

definition pg_SaveGauge ::
  "pg_env \<Rightarrow> ctx \<Rightarrow> string \<Rightarrow> float64 \<Rightarrow> pg_state \<Rightarrow> float64 result \<times> pg_state" where
  "pg_SaveGauge env cx name value s =
     (case retry_Do cx (pg_isRetriable env)
             (\<lambda>s. case db_call env (upsert_gauge name value) s of (r, s') \<Rightarrow> (scan_null r, s')) s of
        (r, s') \<Rightarrow> (wrap_err ''save gauge'' r, s'))"

text \<open>
  The transaction of a batch: its statements work on the transaction's own table \<open>t\<close>, and
  the deferred rollback drops that table unless it is committed.
\<close>

definition tx_call ::
  "pg_env \<Rightarrow> (db_table \<Rightarrow> 'a result \<times> db_table) \<Rightarrow> db_table \<times> nat \<Rightarrow> 'a result \<times> db_table \<times> nat" where
  "tx_call env stmt tn =
     (case db_call env stmt \<lparr>pg_table = fst tn, pg_calls = snd tn\<rparr> of
        (r, s) \<Rightarrow> (r, pg_table s, pg_calls s))"

fun tx_exec_all ::
  "pg_env \<Rightarrow> metrics list \<Rightarrow> db_table \<times> nat \<Rightarrow> unit result \<times> db_table \<times> nat" where
  "tx_exec_all env [] tn = (Inr (), tn)"
| "tx_exec_all env (m # ms) tn =
     (if MType m = Counter then
        (case Delta m of
           None \<Rightarrow> tx_exec_all env ms tn
         | Some d \<Rightarrow>
             (case tx_call env (upsert_counter (ID m) d) tn of
                (Inl e, tn') \<Rightarrow> (Inl (ErrWrap ''save counter in batch'' e), tn')
              | (Inr _, tn') \<Rightarrow> tx_exec_all env ms tn'))
      else if MType m = Gauge then
        (case Value m of
           None \<Rightarrow> tx_exec_all env ms tn
         | Some x \<Rightarrow>
             (case tx_call env (upsert_gauge (ID m) x) tn of
                (Inl e, tn') \<Rightarrow> (Inl (ErrWrap ''save gauge in batch'' e), tn')
              | (Inr _, tn') \<Rightarrow> tx_exec_all env ms tn'))
      else tx_exec_all env ms tn)"

definition no_effect :: "db_table \<Rightarrow> unit result \<times> db_table" where
  "no_effect t = (Inr (), t)"

definition saveBatch :: "pg_env \<Rightarrow> metrics list \<Rightarrow> pg_state \<Rightarrow> unit result \<times> pg_state" where
  "saveBatch env batch s0 =
     (case db_call env no_effect s0 of
        (Inl e, s1) \<Rightarrow> (Inl (ErrWrap ''begin tx'' e), s1)
      | (Inr _, s1) \<Rightarrow>
     (case db_call env no_effect s1 of
        (Inl e, s2) \<Rightarrow> (Inl (ErrWrap ''prepare counter stmt'' e), s2)
      | (Inr _, s2) \<Rightarrow>
     (case db_call env no_effect s2 of
        (Inl e, s3) \<Rightarrow> (Inl (ErrWrap ''prepare gauge stmt'' e), s3)
      | (Inr _, s3) \<Rightarrow>
     (case tx_exec_all env batch (pg_table s3, pg_calls s3) of
        (Inl e, t, n) \<Rightarrow> (Inl e, s3\<lparr>pg_calls := n\<rparr>)
      | (Inr _, t, n) \<Rightarrow>
          (case db_call env (\<lambda>_. (Inr (), t)) (s3\<lparr>pg_calls := n\<rparr>) of
             (r, s4) \<Rightarrow> (wrap_err ''commit tx'' r, s4))))))"

definition pg_SaveBatch :: "pg_env \<Rightarrow> ctx \<Rightarrow> metrics list \<Rightarrow> pg_state \<Rightarrow> unit result \<times> pg_state" where
  "pg_SaveBatch env cx batch s = retry_Do cx (pg_isRetriable env) (saveBatch env batch) s"

definition pg_get ::
  "pg_env \<Rightarrow> ctx \<Rightarrow> string \<Rightarrow> (db_table \<Rightarrow> 'a result \<times> db_table) \<Rightarrow> pg_state \<Rightarrow> 'a result \<times> pg_state" where
  "pg_get env cx what stmt s =
     (case retry_Do cx (pg_isRetriable env) (db_call env stmt) s of
        (Inr v, s') \<Rightarrow> (Inr v, s')
      | (Inl e, s') \<Rightarrow>
          (Inl (ErrWrap (if errors_is e ErrNoRows then what @ '' not found'' else ''get '' @ what) e), s'))"

definition pg_GetCounter :: "pg_env \<Rightarrow> ctx \<Rightarrow> string \<Rightarrow> pg_state \<Rightarrow> int64 result \<times> pg_state" where
  "pg_GetCounter env cx name = pg_get env cx ''counter'' (select_delta name)"

definition pg_GetGauge :: "pg_env \<Rightarrow> ctx \<Rightarrow> string \<Rightarrow> pg_state \<Rightarrow> float64 result \<times> pg_state" where
  "pg_GetGauge env cx name = pg_get env cx ''gauge'' (select_value name)"

definition pg_GetAllCounters :: "pg_env \<Rightarrow> ctx \<Rightarrow> pg_state \<Rightarrow> (string \<rightharpoonup> int64) result \<times> pg_state" where
  "pg_GetAllCounters env cx s =
     (case retry_Do cx (pg_isRetriable env) (db_call env (select_all env Counter fst)) s of
        (r, s') \<Rightarrow> (wrap_err ''get all counters'' r, s'))"

definition pg_GetAllGauges :: "pg_env \<Rightarrow> ctx \<Rightarrow> pg_state \<Rightarrow> (string \<rightharpoonup> float64) result \<times> pg_state" where
  "pg_GetAllGauges env cx s =
     (case retry_Do cx (pg_isRetriable env) (db_call env (select_all env Gauge snd)) s of
        (r, s') \<Rightarrow> (wrap_err ''get all gauges'' r, s'))"

definition pg_repo :: "pg_env \<Rightarrow> ctx \<Rightarrow> pg_state repository" where
  "pg_repo env cx =
     \<lparr>SaveCounter = pg_SaveCounter env cx, SaveGauge = pg_SaveGauge env cx,
      GetCounter = pg_GetCounter env cx, GetGauge = pg_GetGauge env cx,
      GetAllCounters = pg_GetAllCounters env cx, GetAllGauges = pg_GetAllGauges env cx,
      SaveBatch = pg_SaveBatch env cx\<rparr>"

lemmas pg_op_defs =
  pg_repo_def pg_SaveCounter_def pg_SaveGauge_def pg_SaveBatch_def pg_GetCounter_def pg_GetGauge_def
  pg_GetAllCounters_def pg_GetAllGauges_def pg_get_def


section \<open>The batch as one statement\<close>

text \<open>What a batch does to the table when every statement goes through.\<close>

fun batch_sql :: "metrics list \<Rightarrow> db_table \<Rightarrow> db_table result" where
  "batch_sql [] t = Inr t"
| "batch_sql (m # ms) t =
     (if MType m = Counter then
        (case Delta m of None \<Rightarrow> batch_sql ms t
         | Some d \<Rightarrow> (case upsert_counter (ID m) d t of (Inl e, t') \<Rightarrow> Inl e | (Inr _, t') \<Rightarrow> batch_sql ms t'))
      else if MType m = Gauge then
        (case Value m of None \<Rightarrow> batch_sql ms t
         | Some x \<Rightarrow> batch_sql ms (snd (upsert_gauge (ID m) x t)))
      else batch_sql ms t)"

fun batch_times :: "nat \<Rightarrow> metrics list \<Rightarrow> db_table \<Rightarrow> db_table result" where
  "batch_times 0 ms t = Inr t"
| "batch_times (Suc n) ms t = rbind (batch_sql ms t) (batch_times n ms)"

lemma batch_times_add:
  "batch_times m ms t = Inr u \<Longrightarrow> batch_times (m + n) ms t = batch_times n ms u"
  by (induction m arbitrary: t) (auto simp: rbind_Inr_iff)

lemma db_call_Inr:
  "db_call env stmt s = (Inr x, s') \<Longrightarrow>
   pg_fault env (pg_calls s) = NoFault \<and> stmt (pg_table s) = (Inr x, pg_table s') \<and>
   pg_calls s' = Suc (pg_calls s)"
  by (auto simp: db_call_def Let_def split: db_fault.splits prod.splits)

lemma tx_call_Inr: "tx_call env stmt (t, n) = (Inr x, t', n') \<Longrightarrow> stmt t = (Inr x, t')"
  by (auto simp: tx_call_def split: prod.splits dest: db_call_Inr)

lemma tx_exec_all_Inr: "tx_exec_all env ms (t, n) = (Inr (), t', n') \<Longrightarrow> batch_sql ms t = Inr t'"
  by (induction ms arbitrary: t n)
    (auto dest!: tx_call_Inr split: option.splits sum.splits prod.splits if_splits)

definition no_lost_reply :: "pg_env \<Rightarrow> bool" where
  "no_lost_reply env \<longleftrightarrow> (\<forall>k e. pg_fault env k \<noteq> FailAfter e)"

lemma db_call_no_effect [simp]: "pg_table (snd (db_call env no_effect s)) = pg_table s"
  by (auto simp: db_call_def no_effect_def Let_def split: db_fault.split)

lemma saveBatch_outcome:
  "(\<exists>m \<le> 1. batch_times m ms (pg_table s) = Inr (pg_table (snd (saveBatch env ms s))) \<and>
     (fst (saveBatch env ms s) = Inr () \<longrightarrow> m = 1) \<and>
     (no_lost_reply env \<and> fst (saveBatch env ms s) \<noteq> Inr () \<longrightarrow> m = 0))"
proof -
  obtain r1 s1 where c1: "db_call env no_effect s = (r1, s1)" by (cases "db_call env no_effect s")
  obtain r2 s2 where c2: "db_call env no_effect s1 = (r2, s2)" by (cases "db_call env no_effect s1")
  obtain r3 s3 where c3: "db_call env no_effect s2 = (r3, s3)" by (cases "db_call env no_effect s2")
  have t: "pg_table s1 = pg_table s" "pg_table s2 = pg_table s" "pg_table s3 = pg_table s"
    using db_call_no_effect [of env s] db_call_no_effect [of env s1] db_call_no_effect [of env s2]
    by (simp_all add: c1 c2 c3)
  obtain r4 t4 n4 where c4: "tx_exec_all env ms (pg_table s, pg_calls s3) = (r4, t4, n4)"
    by (cases "tx_exec_all env ms (pg_table s, pg_calls s3)") auto
  show ?thesis
  proof (cases "(\<exists>e. r1 = Inl e) \<or> (\<exists>e. r2 = Inl e) \<or> (\<exists>e. r3 = Inl e) \<or> (\<exists>e. r4 = Inl e)")
    case True
    with t show ?thesis
      by (intro exI [of _ 0]) (auto simp: saveBatch_def c1 c2 c3 c4 t split: sum.splits)
  next
    case False
    then have ok: "r1 = Inr ()" "r2 = Inr ()" "r3 = Inr ()" "r4 = Inr ()"
      by (metis (full_types) old.sum.exhaust old.unit.exhaust)+
    have sql: "batch_sql ms (pg_table s) = Inr t4"
      using c4 ok tx_exec_all_Inr [of env ms "pg_table s" "pg_calls s3"] by simp
    have res: "saveBatch env ms s =
        (case db_call env (\<lambda>_. (Inr (), t4)) (s3\<lparr>pg_calls := n4\<rparr>) of (r, s4) \<Rightarrow> (wrap_err ''commit tx'' r, s4))"
      by (simp add: saveBatch_def c1 c2 c3 c4 ok t)
    show ?thesis
    proof (cases "pg_fault env n4")
      case NoFault
      with sql show ?thesis by (intro exI [of _ 1]) (simp add: res db_call_def Let_def)
    next
      case (FailBefore e)
      with t show ?thesis by (intro exI [of _ 0]) (simp add: res db_call_def Let_def)
    next
      case (FailAfter e)
      with sql show ?thesis
        by (intro exI [of _ 1]) (auto simp: res db_call_def Let_def no_lost_reply_def)
    qed
  qed
qed

interpretation batch_effect: repeated_effect "saveBatch env ms"
  "\<lambda>n s t. batch_times n ms (pg_table s) = Inr (pg_table t)" "no_lost_reply env" for env ms
proof (unfold_locales, goal_cases)
  case (2 m s t n u)
  then show ?case by (simp add: batch_times_add)
next
  case (3 s r t)
  with saveBatch_outcome [of ms s env] show ?case by auto
qed simp

text \<open>
  C21: A batch goes to the database whole or not at all, whichever of its round trips fail and
  however it is retried: the table ends as the batch applied a whole number of times, at most
  four, and at least once when success is reported. Unless a reply is lost after a commit, it
  is applied exactly once on success and not at all on error.
\<close>

theorem pg_batch_atomic:
  assumes "pg_SaveBatch env cx ms s = (r, s')"
  shows "\<exists>n \<le> 4. batch_times n ms (pg_table s) = Inr (pg_table s') \<and>
           (r = Inr () \<longrightarrow> 1 \<le> n) \<and>
           (no_lost_reply env \<longrightarrow> n = (if r = Inr () then 1 else 0))"
  using batch_effect.retry_times [OF assms [unfolded pg_SaveBatch_def]] .

definition clean_env :: "(string \<Rightarrow> bool) \<Rightarrow> pg_env" where
  "clean_env ce = \<lparr>pg_fault = (\<lambda>_. NoFault), pg_rows = (\<lambda>t. sorted_list_of_set (dom t)), pg_conn_exc = ce\<rparr>"

definition empty_db :: pg_state where
  "empty_db = \<lparr>pg_table = Map.empty, pg_calls = 0\<rparr>"

theorem pg_batch_atomic_witness:
  "pg_table (snd (pg_SaveBatch (clean_env (\<lambda>_. False)) ctx_background [NewCounter ''a'' 5] empty_db))
     (''a'', Counter) = Some (Some 5, None)"
proof -
  let ?env = "clean_env (\<lambda>_. False)"
  obtain r s' where run: "pg_SaveBatch ?env ctx_background [NewCounter ''a'' 5] empty_db = (r, s')"
    by (cases "pg_SaveBatch ?env ctx_background [NewCounter ''a'' 5] empty_db")
  have "r = Inr ()"
    using run by (simp add: pg_SaveBatch_def retry_Do_def retry_trace_def ctx_background_def saveBatch_def
        db_call_def no_effect_def Let_def tx_call_def upsert_counter_def clean_env_def empty_db_def)
  moreover have "no_lost_reply ?env" by (simp add: no_lost_reply_def clean_env_def)
  ultimately have "batch_times 1 [NewCounter ''a'' 5] (pg_table empty_db) = Inr (pg_table s')"
    using pg_batch_atomic [OF run] by auto
  then have "pg_table s' (''a'', Counter) = Some (Some 5, None)"
    by (auto simp: upsert_counter_def empty_db_def dest: sym)
  then show ?thesis by (simp add: run)
qed

text \<open>
  A counter is not protected against a lost reply: when the server applied the increment
  but the connection broke before the answer, the retry adds it a second time, and reports
  success with the doubled increment.
\<close>

theorem pg_counter_counted_twice:
  assumes cx: "ctx_err cx = None" "\<not> ctx_done cx 0"
    and f: "pg_fault env (pg_calls s) = FailAfter (NetError m)" "pg_fault env (Suc (pg_calls s)) = NoFault"
    and row: "pg_table s (n, Counter) = Some (Some d, x)"
    and ok: "bigint_add_ok d v" "bigint_add_ok (d + v) v"
  shows "\<exists>s'. pg_SaveCounter env cx n v s = (Inr (d + v + v), s') \<and>
              pg_table s' (n, Counter) = Some (Some (d + v + v), x)"
  using assms
  by (simp add: pg_SaveCounter_def retry_Do_def retry_trace_def defaultDelays_def db_call_def Let_def
      upsert_counter_def pg_isRetriable_def scan_null_def)

theorem pg_counter_counted_twice_witness:
  "\<exists>s'. pg_SaveCounter ((clean_env (\<lambda>_. False))\<lparr>pg_fault := \<lambda>k. if k = 0 then FailAfter (NetError ''reset'') else NoFault\<rparr>)
          ctx_background ''a'' 5 \<lparr>pg_table = [(''a'', Counter) \<mapsto> (Some 1, None)], pg_calls = 0\<rparr> = (Inr 11, s') \<and>
        pg_table s' (''a'', Counter) = Some (Some 11, None)"
proof -
  let ?env = "(clean_env (\<lambda>_. False))\<lparr>pg_fault := \<lambda>k. if k = 0 then FailAfter (NetError ''reset'') else NoFault\<rparr>"
  let ?s = "\<lparr>pg_table = [(''a'', Counter) \<mapsto> (Some 1, None)], pg_calls = 0\<rparr>"
  have "\<exists>s'. pg_SaveCounter ?env ctx_background ''a'' 5 ?s = (Inr (1 + 5 + 5), s') \<and>
        pg_table s' (''a'', Counter) = Some (Some (1 + 5 + 5), None)"
    by (rule pg_counter_counted_twice) (simp_all add: ctx_background_def bigint_add_ok_def)
  then show ?thesis by simp
qed


section \<open>The store keeps the contract\<close>

definition pg_counters :: "db_table \<Rightarrow> string \<rightharpoonup> int64" where
  "pg_counters t n = (case t (n, Counter) of None \<Rightarrow> None | Some r \<Rightarrow> fst r)"

definition pg_gauges :: "db_table \<Rightarrow> string \<rightharpoonup> float64" where
  "pg_gauges t n = (case t (n, Gauge) of None \<Rightarrow> None | Some r \<Rightarrow> snd r)"

text \<open>Every row has the value of its type, as the store itself writes them.\<close>

definition pg_ok :: "db_table \<Rightarrow> bool" where
  "pg_ok t \<longleftrightarrow>
     finite (dom t) \<and>
     (\<forall>n r. t (n, Counter) = Some r \<longrightarrow> fst r \<noteq> None) \<and>
     (\<forall>n r. t (n, Gauge) = Some r \<longrightarrow> snd r \<noteq> None)"

lemma pg_ok_upd:
  "pg_ok t \<Longrightarrow> pg_ok (t((n, Counter) \<mapsto> (Some d, x)))"
  "pg_ok t \<Longrightarrow> pg_ok (t((n, Gauge) \<mapsto> (y, Some v)))"
  by (auto simp: pg_ok_def)

lemma pg_views_upd [simp]:
  "pg_counters (t((n, Counter) \<mapsto> (c, x))) = (pg_counters t)(n := c)"
  "pg_gauges (t((n, Counter) \<mapsto> (c, x))) = pg_gauges t"
  "pg_counters (t((n, Gauge) \<mapsto> (c, x))) = pg_counters t"
  "pg_gauges (t((n, Gauge) \<mapsto> (c, x))) = (pg_gauges t)(n := x)"
  by (auto simp: pg_counters_def pg_gauges_def fun_eq_iff)

text \<open>The two upserts under the invariant.\<close>

lemma upsert_counter_ok:
  assumes "pg_ok t" "bigint_add_ok (go_index (pg_counters t) n) v"
  shows "\<exists>t'. upsert_counter n v t = (Inr (Some (go_index (pg_counters t) n + v)), t') \<and> pg_ok t' \<and>
           pg_counters t' = (pg_counters t)(n \<mapsto> go_index (pg_counters t) n + v) \<and>
           pg_gauges t' = pg_gauges t"
proof (cases "t (n, Counter)")
  case None
  then show ?thesis
    using assms(1) by (simp add: upsert_counter_def pg_ok_upd go_index_def pg_counters_def [of t])
next
  case (Some r)
  with assms(1) obtain d x where r: "r = (Some d, x)" unfolding pg_ok_def by (cases r) force
  with Some have "go_index (pg_counters t) n = d" by (simp add: go_index_def pg_counters_def)
  with assms Some r show ?thesis by (simp add: upsert_counter_def pg_ok_upd)
qed

lemma upsert_gauge_ok:
  assumes "pg_ok t"
  shows "\<exists>t'. upsert_gauge n x t = (Inr (Some x), t') \<and> pg_ok t' \<and>
           pg_counters t' = pg_counters t \<and> pg_gauges t' = (pg_gauges t)(n \<mapsto> x)"
  using assms by (auto simp: upsert_gauge_def pg_ok_upd split: option.split)

text \<open>A batch within \<open>bigint\<close> goes through and has its abstract effect.\<close>

lemma batch_sql_ok:
  assumes "pg_ok t" "batch_accepts bigint_add_ok (pg_counters t) ms"
  shows "\<exists>t'. batch_sql ms t = Inr t' \<and> pg_ok t' \<and>
           pg_counters t' = batch_counters ms (pg_counters t) \<and>
           pg_gauges t' = batch_gauges ms (pg_gauges t)"
  using assms
proof (induction ms arbitrary: t)
  case Nil
  then show ?case by simp
next
  case (Cons m ms)
  consider (counter) d where "MType m = Counter" "Delta m = Some d"
    | (gauge) x where "MType m = Gauge" "Value m = Some x"
    | (skip) "add_metric m (pg_counters t) = pg_counters t" "set_metric m (pg_gauges t) = pg_gauges t"
        "batch_sql (m # ms) t = batch_sql ms t"
    by (cases "Delta m"; cases "Value m"; cases "MType m = Counter"; cases "MType m = Gauge")
      (auto simp: add_metric_def set_metric_def)
  then show ?case
  proof cases
    case counter
    with Cons.prems have "bigint_add_ok (go_index (pg_counters t) (ID m)) d" by simp
    from upsert_counter_ok [OF Cons.prems(1) this] obtain t1 where t1:
        "upsert_counter (ID m) d t = (Inr (Some (go_index (pg_counters t) (ID m) + d)), t1)" "pg_ok t1"
        "pg_counters t1 = add_metric m (pg_counters t)" "pg_gauges t1 = set_metric m (pg_gauges t)"
      using counter by (auto simp: add_metric_def set_metric_def split: option.splits)
    with Cons.IH [of t1] Cons.prems counter show ?thesis by simp
  next
    case gauge
    from upsert_gauge_ok [OF Cons.prems(1), of "ID m" x] obtain t1 where t1:
        "upsert_gauge (ID m) x t = (Inr (Some x), t1)" "pg_ok t1"
        "pg_counters t1 = add_metric m (pg_counters t)" "pg_gauges t1 = set_metric m (pg_gauges t)"
      using gauge by (auto simp: add_metric_def set_metric_def split: option.splits)
    with Cons.IH [of t1] Cons.prems gauge show ?thesis by simp
  next
    case skip
    with Cons show ?thesis by simp
  qed
qed

text \<open>Without faults a call is its statement, and a transaction is its batch.\<close>

lemma clean_call [simp]:
  "db_call (clean_env ce) stmt s =
     (fst (stmt (pg_table s)), \<lparr>pg_table = snd (stmt (pg_table s)), pg_calls = Suc (pg_calls s)\<rparr>)"
  by (cases s) (simp add: db_call_def clean_env_def Let_def split_beta)

lemma clean_tx:
  "batch_sql ms t = Inr t' \<Longrightarrow> \<exists>n'. tx_exec_all (clean_env ce) ms (t, n) = (Inr (), t', n')"
proof (induction ms arbitrary: t n)
  case (Cons m ms)
  then show ?case
    by (fastforce simp: tx_call_def upsert_gauge_def split: option.splits sum.splits prod.splits if_splits)
qed simp

lemma clean_batch:
  assumes "batch_sql ms (pg_table s) = Inr t'"
  shows "\<exists>k. pg_SaveBatch (clean_env ce) ctx_background ms s = (Inr (), \<lparr>pg_table = t', pg_calls = k\<rparr>)"
proof -
  obtain n' where "tx_exec_all (clean_env ce) ms (pg_table s, Suc (Suc (Suc (pg_calls s)))) = (Inr (), t', n')"
    using clean_tx [OF assms] by blast
  then have "saveBatch (clean_env ce) ms s = (Inr (), \<lparr>pg_table = t', pg_calls = Suc n'\<rparr>)"
    by (simp add: saveBatch_def no_effect_def)
  from retry_first [where cx = ctx_background and fn = "saveBatch (clean_env ce) ms", OF _ this] show ?thesis by (simp add: pg_SaveBatch_def ctx_background_def)
qed

text \<open>Reading a whole type into a map.\<close>

lemma scan_rows_ok:
  assumes "\<forall>(k, r) \<in> set rows. col r \<noteq> None"
  shows "scan_rows col rows m = Inr (fold (\<lambda>(k, v) m. m(k \<mapsto> v)) (map (\<lambda>(k, r). (fst k, the (col r))) rows) m)"
  using assms by (induction rows arbitrary: m) (auto simp: scan_null_def)

lemma scan_rows_view:
  fixes col :: "row \<Rightarrow> 'v option"
  assumes ord: "map_order t ks" and col: "\<And>n r. t (n, ty) = Some r \<Longrightarrow> col r \<noteq> None"
  shows "scan_rows col (filter (\<lambda>(k, r). snd k = ty) (map_range ks t)) Map.empty =
         Inr (\<lambda>n. case t (n, ty) of None \<Rightarrow> None | Some r \<Rightarrow> col r)"
proof -
  define rows where "rows = filter (\<lambda>(k, r). snd k = ty) (map_range ks t)"
  define kv where "kv = map (\<lambda>(k, r). (fst k, the (col r))) rows"
  have keys: "map fst (map_range ks t) = ks" and dist: "distinct ks"
    using ord by (auto simp: map_order_def map_range_keys)
  have in_rows: "(k, r) \<in> set rows \<longleftrightarrow> t k = Some r \<and> snd k = ty" for k r
    using ord by (auto simp: rows_def map_range_in map_order_def)
  have "distinct (map fst rows)"
    using keys dist unfolding rows_def by (metis distinct_map_filter)
  then have dkv: "distinct (map fst kv)"
    by (auto simp: kv_def distinct_map inj_on_def in_rows)
  have "map_of kv n = (case t (n, ty) of None \<Rightarrow> None | Some r \<Rightarrow> col r)" for n
  proof (cases "t (n, ty)")
    case None
    have "n \<noteq> fst k" if "(k, r) \<in> set rows" for k r
      using in_rows [of k r] that None by (cases k) auto
    then have "n \<notin> fst ` set kv" by (fastforce simp: kv_def)
    with None show ?thesis by (simp add: map_of_eq_None_iff)
  next
    case (Some r)
    then have "((n, ty), r) \<in> set rows" by (simp add: in_rows)
    then have "(n, the (col r)) \<in> set kv" by (force simp: kv_def)
    from map_of_is_SomeI [OF dkv this] Some col [OF Some] show ?thesis by simp
  qed
  moreover have ne: "\<forall>(k, r) \<in> set rows. col r \<noteq> None"
    using in_rows col by (metis (mono_tags, lifting) case_prodI2 prod.collapse)
  have "scan_rows col rows Map.empty = Inr (map_of kv)"
    using scan_rows_ok [OF ne, of Map.empty] fold_upd_distinct [OF dkv, of Map.empty]
    by (simp add: kv_def)
  ultimately show ?thesis by (simp add: rows_def [symmetric] fun_eq_iff)
qed

lemma clean_rows: "pg_ok t \<Longrightarrow> map_order t (pg_rows (clean_env ce) t)"
  by (simp add: map_order_def clean_env_def pg_ok_def)

lemma select_all_ok:
  assumes "pg_ok t"
  shows "select_all (clean_env ce) Counter fst t = (Inr (pg_counters t), t)"
    and "select_all (clean_env ce) Gauge snd t = (Inr (pg_gauges t), t)"
proof -
  have c: "fst r \<noteq> None" if "t (n, Counter) = Some r" for n r using assms that unfolding pg_ok_def by blast
  have g: "snd r \<noteq> None" if "t (n, Gauge) = Some r" for n r using assms that unfolding pg_ok_def by blast
  have "pg_counters t = (\<lambda>n. case t (n, Counter) of None \<Rightarrow> None | Some r \<Rightarrow> fst r)"
    "pg_gauges t = (\<lambda>n. case t (n, Gauge) of None \<Rightarrow> None | Some r \<Rightarrow> snd r)"
    by (simp_all add: fun_eq_iff pg_counters_def pg_gauges_def)
  then show "select_all (clean_env ce) Counter fst t = (Inr (pg_counters t), t)"
    "select_all (clean_env ce) Gauge snd t = (Inr (pg_gauges t), t)"
    using scan_rows_view [OF clean_rows [OF assms], of Counter fst ce, OF c]
      scan_rows_view [OF clean_rows [OF assms], of Gauge snd ce, OF g]
    by (simp_all add: select_all_def)
qed

lemma not_retriable_no_rows [simp]: "\<not> pg_isRetriable env ErrNoRows"
  by (simp add: pg_isRetriable_def)

lemmas pg_read_defs =
  pg_op_defs retry_Do_def retry_trace_def ctx_background_def select_delta_def select_value_def scan_null_def

interpretation pg: metrics_repository "pg_repo (clean_env ce) ctx_background"
  "\<lambda>s. pg_counters (pg_table s)" "\<lambda>s. pg_gauges (pg_table s)" "\<lambda>s. pg_ok (pg_table s)" bigint_add_ok for ce
proof (unfold_locales, goal_cases)
  case (1 s n v)
  from upsert_counter_ok [OF 1] show ?case
    by (auto simp: pg_op_defs retry_Do_def retry_trace_def ctx_background_def scan_null_def)
next
  case (2 s n x)
  from upsert_gauge_ok [OF 2, of n x] show ?case
    by (auto simp: pg_op_defs retry_Do_def retry_trace_def ctx_background_def scan_null_def)
next
  case (3 s ms)
  from batch_sql_ok [OF 3] obtain t' where t': "batch_sql ms (pg_table s) = Inr t'" "pg_ok t'"
      "pg_counters t' = batch_counters ms (pg_counters (pg_table s))"
      "pg_gauges t' = batch_gauges ms (pg_gauges (pg_table s))" by blast
  from clean_batch [OF t'(1), of ce] t' show ?case by (auto simp: pg_repo_def)
next
  case (4 s n v)
  then obtain x where "pg_table s (n, Counter) = Some (Some v, x)"
    by (auto simp: pg_counters_def split: option.splits)
  with 4 show ?case by (simp add: pg_read_defs)
next
  case (5 s n)
  then have "pg_table s (n, Counter) = None"
    by (force simp: pg_counters_def pg_ok_def split: option.splits)
  with 5 show ?case by (simp add: pg_read_defs)
next
  case (6 s n x)
  then obtain d where "pg_table s (n, Gauge) = Some (d, Some x)"
    by (auto simp: pg_gauges_def split: option.splits)
  with 6 show ?case by (simp add: pg_read_defs)
next
  case (7 s n)
  then have "pg_table s (n, Gauge) = None"
    by (force simp: pg_gauges_def pg_ok_def split: option.splits)
  with 7 show ?case by (simp add: pg_read_defs)
next
  case (8 s)
  then show ?case by (simp add: pg_read_defs select_all_ok)
next
  case (9 s)
  then show ?case by (simp add: pg_read_defs select_all_ok)
qed

end
