(* ===== verification/Pg_Transactions.thy ===== *)
theory Pg_Transactions
  imports Postgres Runs
begin

text \<open>
  Concurrent transactions of \<open>saveBatch\<close> (\<open>internal/storage/postgres/postgres.go\<close>), one per request in progress. The
  database runs them at its default level, READ COMMITTED: \<open>INSERT .. ON CONFLICT DO UPDATE\<close> locks the row of
  its key (an absent one too) until its transaction ends, waits while another transaction holds it, and works on
  the last committed row or the transaction's own. A single \<open>SaveCounter\<close> or \<open>SaveGauge\<close> is a transaction of one statement.
\<close>

section \<open>Transactions\<close>

text \<open>\<open>tx_rows\<close> are the rows the transaction has written, which are the ones it has locked.\<close>

record pg_tx =
  tx_done :: "metrics list"
  tx_todo :: "metrics list"
  tx_rows :: db_table

record pg_server =
  ps_table :: db_table
  ps_open :: "pg_tx list"
  ps_committed :: "metrics list list"
  ps_aborted :: "metrics list list"

definition tx_batch :: "pg_tx \<Rightarrow> metrics list" where
  "tx_batch x = tx_done x @ tx_todo x"

text \<open>The row a metric is written to, if it has a statement at all.\<close>

definition metric_row :: "metrics \<Rightarrow> (string \<times> string) option" where
  "metric_row m =
     (if MType m = Counter then map_option (\<lambda>_. (ID m, Counter)) (Delta m)
      else if MType m = Gauge then map_option (\<lambda>_. (ID m, Gauge)) (Value m)
      else None)"

definition exec_metric :: "metrics \<Rightarrow> db_table \<Rightarrow> db_table result" where
  "exec_metric m t =
     (if MType m = Counter then
        (case Delta m of None \<Rightarrow> Inr t
         | Some d \<Rightarrow> (case upsert_counter (ID m) d t of (Inl e, t') \<Rightarrow> Inl e | (Inr _, t') \<Rightarrow> Inr t'))
      else if MType m = Gauge then
        (case Value m of None \<Rightarrow> Inr t | Some x \<Rightarrow> Inr (snd (upsert_gauge (ID m) x t)))
      else Inr t)"

section \<open>Steps\<close>

text \<open>
  \<open>PBegin\<close> is \<open>BeginTx\<close> and the two preparations, \<open>PExec i\<close> the next statement of transaction \<open>i\<close>, which fails
  when the database refuses it, \<open>PAbort i\<close> a rollback for any other reason: a lost connection, a cancelled
  context or the database breaking a deadlock.
\<close>

datatype pg_label = PBegin "metrics list" | PExec nat | PCommit nat | PAbort nat

definition locked :: "pg_tx list \<Rightarrow> nat \<Rightarrow> string \<times> string \<Rightarrow> bool" where
  "locked xs i k = list_ex (\<lambda>j. j \<noteq> i \<and> tx_rows (xs ! j) k \<noteq> None) [0..<length xs]"

definition remove_nth :: "nat \<Rightarrow> 'a list \<Rightarrow> 'a list" where
  "remove_nth i xs = take i xs @ drop (Suc i) xs"

definition abort_tx :: "nat \<Rightarrow> pg_server \<Rightarrow> pg_server" where
  "abort_tx i s =
     s\<lparr>ps_open := remove_nth i (ps_open s), ps_aborted := ps_aborted s @ [tx_batch (ps_open s ! i)]\<rparr>"

definition commit_tx :: "nat \<Rightarrow> pg_server \<Rightarrow> pg_server" where
  "commit_tx i s =
     s\<lparr>ps_table := ps_table s ++ tx_rows (ps_open s ! i), ps_open := remove_nth i (ps_open s),
       ps_committed := ps_committed s @ [tx_batch (ps_open s ! i)]\<rparr>"

text \<open>The row of the statement is the only one that changes, so that it is all the transaction keeps of the result.\<close>

definition write_row :: "metrics \<Rightarrow> db_table \<Rightarrow> pg_tx \<Rightarrow> pg_tx" where
  "write_row m t x =
     x\<lparr>tx_done := tx_done x @ [m], tx_todo := tl (tx_todo x),
       tx_rows := (case metric_row m of None \<Rightarrow> tx_rows x | Some k \<Rightarrow> (tx_rows x)(k := t k))\<rparr>"

definition exec_tx :: "nat \<Rightarrow> metrics \<Rightarrow> pg_server \<Rightarrow> pg_server" where
  "exec_tx i m s =
     (case exec_metric m (ps_table s ++ tx_rows (ps_open s ! i)) of
        Inl e \<Rightarrow> abort_tx i s
      | Inr t \<Rightarrow> s\<lparr>ps_open := (ps_open s)[i := write_row m t (ps_open s ! i)]\<rparr>)"

fun pg_step :: "pg_server \<Rightarrow> pg_label \<Rightarrow> pg_server option" where
  "pg_step s (PBegin batch) = Some (s\<lparr>ps_open := ps_open s @ [\<lparr>tx_done = [], tx_todo = batch, tx_rows = Map.empty\<rparr>]\<rparr>)"
| "pg_step s (PExec i) =
     (if i < length (ps_open s) then
        (case tx_todo (ps_open s ! i) of
           [] \<Rightarrow> None
         | m # ms \<Rightarrow>
             (case metric_row m of
                None \<Rightarrow> Some (exec_tx i m s)
              | Some k \<Rightarrow> if locked (ps_open s) i k then None else Some (exec_tx i m s)))
      else None)"
| "pg_step s (PCommit i) =
     (if i < length (ps_open s) \<and> tx_todo (ps_open s ! i) = [] then Some (commit_tx i s) else None)"
| "pg_step s (PAbort i) = (if i < length (ps_open s) then Some (abort_tx i s) else None)"

definition pg_moves :: "pg_server \<Rightarrow> pg_label \<Rightarrow> pg_server \<Rightarrow> bool" where
  "pg_moves s l t = (pg_step s l = Some t)"

definition pg_start :: "db_table \<Rightarrow> pg_server" where
  "pg_start t = \<lparr>ps_table = t, ps_open = [], ps_committed = [], ps_aborted = []\<rparr>"

fun begun :: "pg_label \<Rightarrow> metrics list list" where
  "begun (PBegin batch) = [batch]"
| "begun _ = []"

text \<open>The abstract specification: batches one after the other.\<close>

fun batches_sql :: "metrics list list \<Rightarrow> db_table \<Rightarrow> db_table result" where
  "batches_sql [] t = Inr t"
| "batches_sql (b # bs) t = rbind (batch_sql b t) (batches_sql bs)"

section \<open>Statements and rows\<close>

lemma batch_sql_Cons: "batch_sql (m # ms) t = rbind (exec_metric m t) (batch_sql ms)"
  by (auto simp: exec_metric_def split: option.splits sum.splits prod.splits)

lemma batch_sql_append: "batch_sql (ms @ ns) t = rbind (batch_sql ms t) (batch_sql ns)"
proof (induction ms arbitrary: t)
  case (Cons m ms)
  then show ?case by (cases "exec_metric m t") (simp_all add: batch_sql_Cons del: batch_sql.simps(2))
qed simp

lemma batches_sql_snoc: "batches_sql (bs @ [b]) t = rbind (batches_sql bs t) (batch_sql b)"
proof (induction bs arbitrary: t)
  case (Cons a bs)
  then show ?case by (cases "batch_sql a t") simp_all
next
  case Nil
  show ?case by (cases "batch_sql b t") simp_all
qed

text \<open>A statement reads and writes its row only.\<close>

lemma exec_metric_frame:
  assumes "exec_metric m t = Inr u"
  shows "case metric_row m of
      None \<Rightarrow> u = t \<and> exec_metric m t' = Inr t'
    | Some k \<Rightarrow> u k \<noteq> None \<and> u = t(k := u k) \<and> (t' k = t k \<longrightarrow> exec_metric m t' = Inr (t'(k := u k)))"
  using assms
  by (auto simp: exec_metric_def metric_row_def upsert_counter_def upsert_gauge_def fun_upd_idem
      split: option.splits sum.splits prod.splits if_splits)

end
