(* ===== verification/Pg_Serializable.thy ===== *)
theory Pg_Serializable
  imports Pg_Transactions Mem_Storage
begin

text \<open>
  What concurrent batches do to the table: the row locks make every interleaving equal to the committed
  batches one after the other, and they can wait for each other in a circle unless all batches name
  their metrics in one order.
\<close>

section \<open>The rows of a batch\<close>

definition rows_of :: "metrics list \<Rightarrow> (string \<times> string) set" where
  "rows_of ms = {k. \<exists>m \<in> set ms. metric_row m = Some k}"

lemma rows_of_simps [simp]:
  "rows_of [] = {}"
  "rows_of (m # ms) = set_option (metric_row m) \<union> rows_of ms"
  "rows_of (ms @ ns) = rows_of ms \<union> rows_of ns"
  by (auto simp: rows_of_def)

lemma batch_frame:
  "batch_sql ms t = Inr u \<Longrightarrow> \<forall>k \<in> rows_of ms. t' k = t k \<Longrightarrow>
   batch_sql ms t' = Inr (\<lambda>k. if k \<in> rows_of ms then u k else t' k) \<and>
   (\<forall>k. k \<notin> rows_of ms \<longrightarrow> u k = t k) \<and> (\<forall>k \<in> rows_of ms. u k \<noteq> None)"
proof (induction ms arbitrary: t t')
  case (Cons m ms)
  then obtain w where w: "exec_metric m t = Inr w" "batch_sql ms w = Inr u"
    unfolding batch_sql_Cons rbind_Inr_iff by blast
  note frame = exec_metric_frame [OF w(1), of t']
  show ?case
  proof (cases "metric_row m")
    case None
    with frame have "w = t" "exec_metric m t' = Inr t'" by simp_all
    with Cons w None show ?thesis by (simp add: batch_sql_Cons del: batch_sql.simps(2))
  next
    case (Some k)
    with frame Cons.prems(2) have k: "w k \<noteq> None" "w = t(k := w k)" "exec_metric m t' = Inr (t'(k := w k))"
      by simp_all
    have "\<forall>r \<in> rows_of ms. (t'(k := w k)) r = w r"
      using Cons.prems(2) Some by (subst k(2)) simp
    note IH = Cons.IH [OF w(2) this]
    have same: "r \<notin> rows_of ms \<Longrightarrow> r \<noteq> k \<Longrightarrow> u r = t r" for r
    proof -
      assume "r \<notin> rows_of ms" "r \<noteq> k"
      then have "u r = w r" "w r = t r" using IH k(2) by (blast, metis fun_upd_other)
      then show ?thesis by simp
    qed
    have "batch_sql (m # ms) t' = Inr (\<lambda>r. if r \<in> rows_of ms then u r else (t'(k := w k)) r)"
      using conjunct1 [OF IH] k(3) by (simp only: batch_sql_Cons rbind_simps)
    moreover have "(\<lambda>r. if r \<in> rows_of ms then u r else (t'(k := w k)) r) =
        (\<lambda>r. if r \<in> rows_of (m # ms) then u r else t' r)"
      using IH Some by (auto simp: fun_eq_iff)
    moreover have "u k \<noteq> None" using IH k(1) by metis
    ultimately show ?thesis using IH same Some by auto
  qed
qed simp

text \<open>What a transaction has written so far is what its statements do to the committed table.\<close>

definition tx_ok :: "db_table \<Rightarrow> pg_tx \<Rightarrow> bool" where
  "tx_ok t x \<longleftrightarrow> batch_sql (tx_done x) t = Inr (t ++ tx_rows x) \<and> dom (tx_rows x) = rows_of (tx_done x)"

definition apart :: "pg_tx \<Rightarrow> pg_tx \<Rightarrow> bool" where
  "apart x y \<longleftrightarrow> dom (tx_rows x) \<inter> dom (tx_rows y) = {}"

lemma tx_ok_frame:
  assumes "tx_ok t x" "\<forall>k \<in> dom (tx_rows x). t' k = t k"
  shows "tx_ok t' x"
proof -
  from assms have "batch_sql (tx_done x) t = Inr (t ++ tx_rows x)" "\<forall>k \<in> rows_of (tx_done x). t' k = t k"
    by (simp_all add: tx_ok_def)
  from batch_frame [OF this] assms(1) show ?thesis
    by (auto simp: tx_ok_def fun_eq_iff map_add_def split: option.splits)
qed

lemma tx_ok_commit: "tx_ok t x \<Longrightarrow> apart x y \<Longrightarrow> tx_ok (t ++ tx_rows y) x"
  by (erule tx_ok_frame, rule ballI, rule map_add_dom_app_simps(3)) (auto simp only: apart_def)

lemma tx_ok_write:
  assumes "tx_ok t x" "exec_metric m (t ++ tx_rows x) = Inr u"
  shows "tx_ok t (write_row m u x)"
  using assms exec_metric_frame [OF assms(2)]
  by (auto simp: tx_ok_def write_row_def batch_sql_append batch_sql_Cons map_add_def fun_eq_iff simp del: batch_sql.simps(2) split: option.splits)

section \<open>The invariant\<close>

definition pg_inv :: "db_table \<Rightarrow> pg_server \<Rightarrow> bool" where
  "pg_inv t s \<longleftrightarrow>
     batches_sql (ps_committed s) t = Inr (ps_table s) \<and>
     list_all (tx_ok (ps_table s)) (ps_open s) \<and> sorted_wrt apart (ps_open s)"

lemma apart_sym: "apart x y = apart y x"
  by (auto simp: apart_def)

lemma apart_remove:
  assumes "sorted_wrt apart xs" "i < length xs"
  shows "sorted_wrt apart (remove_nth i xs)" "\<forall>x \<in> set (remove_nth i xs). apart x (xs ! i)"
proof -
  from assms(2) have "xs = take i xs @ xs ! i # drop (Suc i) xs" by (rule id_take_nth_drop)
  with assms(1) have "sorted_wrt apart (take i xs @ xs ! i # drop (Suc i) xs)" by simp
  then show "sorted_wrt apart (remove_nth i xs)" "\<forall>x \<in> set (remove_nth i xs). apart x (xs ! i)"
    by (auto simp: remove_nth_def sorted_wrt_append apart_sym)
qed

lemma apart_write:
  assumes "sorted_wrt apart xs" "i < length xs" "\<And>k. metric_row m = Some k \<Longrightarrow> \<not> locked xs i k"
  shows "sorted_wrt apart (xs[i := write_row m u (xs ! i)])"
proof -
  have "apart (write_row m u (xs ! i)) (xs ! j)" if "j < length xs" "j \<noteq> i" for j
  proof -
    have "apart (xs ! i) (xs ! j)"
      using sorted_wrt_nth_less [OF assms(1), of i j] sorted_wrt_nth_less [OF assms(1), of j i] assms(2) that
        apart_sym by (cases "i < j") auto
    moreover have "tx_rows (xs ! j) k = None" if "metric_row m = Some k" for k
      using assms(3) [OF that] \<open>j < length xs\<close> \<open>j \<noteq> i\<close> by (cases "tx_rows (xs ! j) k") (auto simp: locked_def list_ex_iff)
    ultimately show ?thesis by (cases "metric_row m") (auto simp: apart_def write_row_def split: if_splits)
  qed
  with assms(1,2) show ?thesis
    by (auto simp: sorted_wrt_iff_nth_less nth_list_update apart_sym)
qed

lemma set_remove: "set (remove_nth i xs) \<subseteq> set xs"
  by (auto simp: remove_nth_def dest: in_set_takeD in_set_dropD)

lemma pg_inv_abort: "pg_inv t s \<Longrightarrow> i < length (ps_open s) \<Longrightarrow> pg_inv t (abort_tx i s)"
  using set_remove [of i "ps_open s"] by (auto simp: pg_inv_def abort_tx_def apart_remove(1) list_all_iff)

lemma pg_inv_commit:
  assumes "pg_inv t s" "i < length (ps_open s)" "tx_todo (ps_open s ! i) = []"
  shows "pg_inv t (commit_tx i s)"
proof -
  have "tx_ok (ps_table s) (ps_open s ! i)" using assms(1,2) by (simp add: pg_inv_def list_all_length)
  then have "batch_sql (tx_done (ps_open s ! i)) (ps_table s) = Inr (ps_table s ++ tx_rows (ps_open s ! i))"
    by (simp add: tx_ok_def)
  with assms apart_remove [of "ps_open s" i] set_remove [of i "ps_open s"] show ?thesis
    by (auto simp: pg_inv_def commit_tx_def list_all_iff batches_sql_snoc tx_batch_def intro!: tx_ok_commit)
qed

lemma pg_inv_exec:
  assumes "pg_inv t s" "i < length (ps_open s)" "\<And>k. metric_row m = Some k \<Longrightarrow> \<not> locked (ps_open s) i k"
  shows "pg_inv t (exec_tx i m s)"
proof (cases "exec_metric m (ps_table s ++ tx_rows (ps_open s ! i))")
  case (Inl e)
  then show ?thesis using pg_inv_abort [OF assms(1,2)] by (simp add: exec_tx_def)
next
  case (Inr u)
  have "tx_ok (ps_table s) (ps_open s ! i)" using assms(1,2) by (simp add: pg_inv_def list_all_length)
  from tx_ok_write [OF this Inr] assms Inr show ?thesis
    by (auto simp: pg_inv_def exec_tx_def list_all_length nth_list_update intro!: apart_write)
qed

lemma pg_inv_step:
  assumes "pg_inv t s" "pg_moves s l s'"
  shows "pg_inv t s'"
proof (cases l)
  case (PBegin b)
  with assms show ?thesis
    by (auto simp: pg_moves_def pg_inv_def tx_ok_def sorted_wrt_append apart_def)
next
  case (PExec i)
  with assms show ?thesis
    by (auto simp: pg_moves_def intro!: pg_inv_exec split: if_splits list.splits option.splits)
qed (use assms in \<open>auto simp: pg_moves_def pg_inv_abort pg_inv_commit split: if_splits\<close>)

lemma pg_inv_run: "run pg_moves (pg_start t) ls s \<Longrightarrow> pg_inv t s"
  by (erule run_invariant [where I = "pg_inv t"]) (simp add: pg_inv_def pg_start_def, rule pg_inv_step)

section \<open>Serializability\<close>

definition batches :: "pg_server \<Rightarrow> metrics list multiset" where
  "batches s = mset (ps_committed s) + mset (map tx_batch (ps_open s)) + mset (ps_aborted s)"

lemma batch_write_row: "tx_todo x = m # ms \<Longrightarrow> tx_batch (write_row m u x) = tx_batch x"
  by (simp add: tx_batch_def write_row_def)

lemma mset_remove_nth: "i < length xs \<Longrightarrow> mset (map f xs) = add_mset (f (xs ! i)) (mset (map f (remove_nth i xs)))"
  using arg_cong [OF id_take_nth_drop [of i xs], of "\<lambda>ys. mset (map f ys)"] by (simp add: remove_nth_def)

lemma batches_abort: "i < length (ps_open s) \<Longrightarrow> batches (abort_tx i s) = batches s"
  using mset_remove_nth [of i "ps_open s" tx_batch] by (simp add: batches_def abort_tx_def)

lemma batches_commit: "i < length (ps_open s) \<Longrightarrow> batches (commit_tx i s) = batches s"
  using mset_remove_nth [of i "ps_open s" tx_batch] by (simp add: batches_def commit_tx_def)

lemma batches_exec:
  assumes "i < length (ps_open s)" "tx_todo (ps_open s ! i) = m # ms"
  shows "batches (exec_tx i m s) = batches s"
proof (cases "exec_metric m (ps_table s ++ tx_rows (ps_open s ! i))")
  case (Inr u)
  then have "map tx_batch (ps_open (exec_tx i m s)) = map tx_batch (ps_open s)"
    using assms by (simp add: exec_tx_def map_update batch_write_row list_update_same_conv)
  then show ?thesis using Inr by (simp add: batches_def exec_tx_def)
qed (use assms(1) in \<open>simp add: exec_tx_def batches_abort\<close>)

interpretation pg_balance: balanced_system pg_moves "pg_inv t" "\<lambda>_. True" batches begun for t
proof (unfold_locales, goal_cases)
  case (1 s l s')
  then show ?case using pg_inv_step by blast
next
  case (2 s l s')
  then show ?case
    by (cases l) (auto simp: pg_moves_def batches_abort batches_commit batches_exec
        split: if_splits list.splits option.splits, simp add: batches_def tx_batch_def)
qed

text \<open>A batch that goes through has its abstract effect.\<close>

lemma upsert_counter_view:
  assumes "pg_ok t" "upsert_counter n v t = (Inr r, u)"
  shows "pg_ok u \<and> pg_counters u = (pg_counters t)(n \<mapsto> go_index (pg_counters t) n + v) \<and> pg_gauges u = pg_gauges t"
proof (cases "t (n, Counter)")
  case None
  with assms(2) have "u = t((n, Counter) \<mapsto> (Some v, None))" by (auto simp: upsert_counter_def)
  with assms(1) None show ?thesis by (simp add: pg_ok_upd go_index_def pg_counters_def [of t])
next
  case (Some row)
  with assms(1) obtain d x where row: "row = (Some d, x)" unfolding pg_ok_def by (cases row) force
  with Some assms(2) have "u = t((n, Counter) \<mapsto> (Some (d + v), x))"
    by (auto simp: upsert_counter_def split: if_splits)
  with assms(1) Some row show ?thesis by (simp add: pg_ok_upd go_index_def pg_counters_def [of t])
qed

lemma exec_metric_view:
  assumes "pg_ok t" "exec_metric m t = Inr u"
  shows "pg_ok u \<and> pg_counters u = add_metric m (pg_counters t) \<and> pg_gauges u = set_metric m (pg_gauges t)"
  using assms upsert_counter_view [OF assms(1), of "ID m"] upsert_gauge_ok [OF assms(1), of "ID m"]
  by (auto simp: exec_metric_def add_metric_def set_metric_def split: option.splits sum.splits prod.splits if_splits)
    (metis snd_conv)+

lemma batch_sql_view:
  "pg_ok t \<Longrightarrow> batch_sql ms t = Inr u \<Longrightarrow>
   pg_ok u \<and> pg_counters u = batch_counters ms (pg_counters t) \<and> pg_gauges u = batch_gauges ms (pg_gauges t)"
proof (induction ms arbitrary: t)
  case (Cons m ms)
  then obtain w where "exec_metric m t = Inr w" "batch_sql ms w = Inr u"
    unfolding batch_sql_Cons rbind_Inr_iff by blast
  with Cons.IH [of w] exec_metric_view [OF Cons.prems(1)] show ?case by simp
qed simp

lemma batches_sql_view:
  "pg_ok t \<Longrightarrow> batches_sql bs t = Inr u \<Longrightarrow>
   pg_counters u = batch_counters (concat bs) (pg_counters t) \<and> pg_gauges u = batch_gauges (concat bs) (pg_gauges t)"
  by (induction bs arbitrary: t) (auto simp: rbind_Inr_iff dest: batch_sql_view)

text \<open>
  C5: Concurrent batches are serializable in the order of their commits. Whatever transactions run beside each other,
  and whichever of them are rolled back, the committed table is what the committed batches make of the first one, one
  after the other; every begun batch is committed as a whole once, rolled back without a trace or still
  open; and the in-memory store would have the same metrics after the same batches.
\<close>

theorem pg_serializable:
  assumes "run pg_moves (pg_start t) ls s" "pg_ok t"
  shows "batches_sql (ps_committed s) t = Inr (ps_table s) \<and>
    mset (ps_committed s) + mset (map tx_batch (ps_open s)) + mset (ps_aborted s) = mset (concat (map begun ls)) \<and>
    run_updates mem_repo (map UpdBatch (ps_committed s)) \<lparr>Counters = pg_counters t, Gauges = pg_gauges t\<rparr> =
      \<lparr>Counters = pg_counters (ps_table s), Gauges = pg_gauges (ps_table s)\<rparr>"
proof -
  have "pg_inv t (pg_start t)" by (simp add: pg_inv_def pg_start_def)
  from pg_balance.balance_run [OF assms(1) this] have inv: "pg_inv t s"
    and all: "batches s = mset (concat (map begun ls))"
    by (simp_all add: batches_def pg_start_def list_all_iff)
  from inv have sql: "batches_sql (ps_committed s) t = Inr (ps_table s)" by (simp add: pg_inv_def)
  let ?m = "run_updates mem_repo (map UpdBatch (ps_committed s)) \<lparr>Counters = pg_counters t, Gauges = pg_gauges t\<rparr>"
  have "map update_metrics (map UpdBatch (ps_committed s)) = ps_committed s" by (simp add: map_idI)
  with batches_sql_view [OF assms(2) sql]
  have "Counters ?m = pg_counters (ps_table s)" "Gauges ?m = pg_gauges (ps_table s)"
    by (simp_all only: mem_run_updates mem_storage.select_convs)
  with sql all show ?thesis by (simp add: batches_def mem_storage.equality)
qed

section \<open>Waiting for locks\<close>

text \<open>Batches that name their metrics in one order of the rows, such as the one of the primary key.\<close>

definition in_order :: "(string \<times> string \<Rightarrow> 'o :: linorder) \<Rightarrow> metrics list \<Rightarrow> bool" where
  "in_order rank ms = sorted (map rank (List.map_filter metric_row ms))"

definition stuck :: "pg_server \<Rightarrow> bool" where
  "stuck s \<longleftrightarrow> (\<forall>i < length (ps_open s). pg_step s (PExec i) = None \<and> pg_step s (PCommit i) = None)"

lemma set_map_filter: "set (List.map_filter metric_row ms) = rows_of ms"
  by (force simp: map_filter_def rows_of_def)

lemma in_order_next:
  assumes "in_order rank (ms @ m # ns)" "metric_row m = Some k" "r \<in> rows_of ms"
  shows "rank r \<le> rank k"
  using assms by (simp add: in_order_def map_filter_def sorted_append rows_of_def) force

text \<open>A stuck transaction waits for a row that another one has written.\<close>

lemma stuck_waits:
  assumes "stuck s" "i < length (ps_open s)"
  obtains m ms k j where "tx_todo (ps_open s ! i) = m # ms" "metric_row m = Some k" "j < length (ps_open s)" "j \<noteq> i"
    "k \<in> dom (tx_rows (ps_open s ! j))"
proof (cases "tx_todo (ps_open s ! i)")
  case Nil
  with assms show ?thesis by (auto simp: stuck_def)
next
  case (Cons m ms)
  with assms obtain k where "metric_row m = Some k" "locked (ps_open s) i k"
    unfolding stuck_def by (fastforce split: option.splits if_splits)
  moreover from this(2) obtain j where "j < length (ps_open s)" "j \<noteq> i" "k \<in> dom (tx_rows (ps_open s ! j))"
    unfolding locked_def list_ex_iff dom_def by auto
  ultimately show ?thesis using that Cons by blast
qed

lemma ordered_not_stuck:
  fixes rank :: "string \<times> string \<Rightarrow> 'o :: linorder"
  assumes "pg_inv t s" "\<forall>x \<in> set (ps_open s). in_order rank (tx_batch x)" "ps_open s \<noteq> []"
    and inj: "inj_on rank (\<Union>x \<in> set (ps_open s). rows_of (tx_batch x))"
  shows "\<not> stuck s"
proof
  assume stuck: "stuck s"
  let ?n = "length (ps_open s)" and ?x = "\<lambda>i. ps_open s ! i"
  define w where "w i = the (metric_row (hd (tx_todo (?x i))))" for i
  have waits: "\<exists>j < ?n. j \<noteq> i \<and> w i \<in> dom (tx_rows (?x j))" if "i < ?n" for i
    using stuck_waits [OF stuck that] by (metis list.sel(1) option.sel w_def)
  have next_row: "\<exists>m ms. tx_todo (?x j) = m # ms \<and> metric_row m = Some (w j)" if "j < ?n" for j
    using stuck_waits [OF stuck that] by (metis list.sel(1) option.sel w_def)
  have le: "rank (w i) \<le> rank (w j)" if j: "j < ?n" "w i \<in> dom (tx_rows (?x j))" for i j
  proof -
    have "in_order rank (tx_done (?x j) @ tx_todo (?x j))" using assms(2) j(1) by (simp add: tx_batch_def [symmetric])
    moreover have "w i \<in> rows_of (tx_done (?x j))"
      using assms(1) j by (simp add: pg_inv_def list_all_length tx_ok_def)
    ultimately show ?thesis using in_order_next next_row [OF j(1)] by metis
  qed
  let ?M = "Max ((rank \<circ> w) ` {..<?n})"
  have "?M \<in> (rank \<circ> w) ` {..<?n}" using assms(3) by (intro Max_in) auto
  then obtain i where i: "i < ?n" "rank (w i) = ?M" by auto
  from waits [OF i(1)] obtain j where j: "j < ?n" "w i \<in> dom (tx_rows (?x j))" by blast
  have "rank (w j) \<le> ?M" using j(1) by (intro Max_ge) auto
  with le [OF j] i(2) have "rank (w j) = rank (w i)" by simp
  moreover have row: "w h \<in> (\<Union>x \<in> set (ps_open s). rows_of (tx_batch x))" if "h < ?n" for h
    using next_row [OF that] nth_mem [OF that] by (fastforce simp: tx_batch_def)
  ultimately have "w j = w i" using inj_onD [OF inj] i(1) j(1) by blast
  with waits [OF j(1)] obtain l where l: "l < ?n" "l \<noteq> j" "w i \<in> dom (tx_rows (?x l))" by auto
  from assms(1) have "sorted_wrt apart (ps_open s)" by (simp add: pg_inv_def)
  with l(1,2) j(1) have "apart (?x l) (?x j)"
    using sorted_wrt_nth_less [of apart "ps_open s" l j] sorted_wrt_nth_less [of apart "ps_open s" j l] apart_sym
    by (cases "l < j") auto
  with l(3) j(2) show False by (auto simp: apart_def)
qed

text \<open>The statements and commits that are left.\<close>

definition tx_work :: "pg_server \<Rightarrow> nat" where
  "tx_work s = sum_list (map (\<lambda>x. Suc (length (tx_todo x))) (ps_open s))"

fun own_step :: "pg_label \<Rightarrow> bool" where
  "own_step (PExec i) = True"
| "own_step (PCommit i) = True"
| "own_step _ = False"

lemma sum_remove_nth: "i < length xs \<Longrightarrow> sum_list (map f xs) = f (xs ! i) + sum_list (map f (remove_nth i xs))" for f :: "_ \<Rightarrow> nat"
  using arg_cong [OF id_take_nth_drop [of i xs], of "\<lambda>ys. sum_list (map f ys)"] by (simp add: remove_nth_def)

lemma tx_work_exec:
  assumes "i < length (ps_open s)" "tx_todo (ps_open s ! i) = m # ms"
  shows "tx_work (exec_tx i m s) < tx_work s"
proof (cases "exec_metric m (ps_table s ++ tx_rows (ps_open s ! i))")
  case (Inl e)
  then show ?thesis
    using sum_remove_nth [OF assms(1), of "\<lambda>x. Suc (length (tx_todo x))"] by (simp add: exec_tx_def tx_work_def abort_tx_def)
next
  case (Inr u)
  let ?f = "\<lambda>x. Suc (length (tx_todo x))" and ?ys = "(ps_open s)[i := write_row m u (ps_open s ! i)]"
  have "remove_nth i ?ys = remove_nth i (ps_open s)" by (simp add: remove_nth_def)
  with sum_remove_nth [of i ?ys ?f] sum_remove_nth [OF assms(1), of ?f] assms
  show ?thesis by (simp add: exec_tx_def tx_work_def Inr write_row_def)
qed

lemma tx_work_step: "pg_moves s l s' \<Longrightarrow> own_step l \<Longrightarrow> tx_work s' < tx_work s"
  using sum_remove_nth [of _ "ps_open s" "\<lambda>x. Suc (length (tx_todo x))"]
  by (cases l) (auto simp: pg_moves_def tx_work_exec split: if_splits list.splits option.splits,
      simp add: tx_work_def commit_tx_def)

lemma own_step_batches: "pg_inv t s \<Longrightarrow> pg_moves s l s' \<Longrightarrow> own_step l \<Longrightarrow> batches s' = batches s"
  using pg_balance.total_step [of t s l s'] by (cases l) auto

lemma ordered_run:
  fixes rank :: "string \<times> string \<Rightarrow> 'o :: linorder"
  assumes "pg_inv t s" "\<forall>b \<in># batches s. in_order rank b" "inj_on rank (\<Union>b \<in> set_mset (batches s). rows_of b)"
  shows "\<exists>ms s'. run pg_moves s ms s' \<and> ps_open s' = [] \<and> list_all own_step ms \<and> length ms \<le> tx_work s"
  using assms
proof (induction "tx_work s" arbitrary: s rule: less_induct)
  case less
  show ?case
  proof (cases "ps_open s = []")
    case True
    then show ?thesis using run_Nil [of pg_moves s] by (intro exI [of _ "[]"] exI [of _ s]) simp
  next
    case False
    have "\<forall>x \<in> set (ps_open s). tx_batch x \<in># batches s" by (simp add: batches_def)
    with less.prems(2,3) have "\<forall>x \<in> set (ps_open s). in_order rank (tx_batch x)"
      "inj_on rank (\<Union>x \<in> set (ps_open s). rows_of (tx_batch x))"
      by (auto intro: inj_on_subset)
    from ordered_not_stuck [OF less.prems(1) this(1) False this(2)] obtain l s1 where
      step: "pg_moves s l s1" "own_step l"
      unfolding stuck_def pg_moves_def by (metis not_None_eq own_step.simps(1,2))
    note same = own_step_batches [OF less.prems(1) step]
    from less.hyps [OF tx_work_step [OF step] pg_inv_step [OF less.prems(1) step(1)]] less.prems(2,3)
    obtain ms s' where "run pg_moves s1 ms s'" "ps_open s' = []" "list_all own_step ms" "length ms \<le> tx_work s1"
      unfolding same by blast
    with run_append [OF this(1) run_one [of pg_moves, OF step(1)]] tx_work_step [OF step] step(2) show ?thesis
      by (intro exI [of _ "[l] @ ms"] exI [of _ s']) simp
  qed
qed

text \<open>
  Batches that name their metrics in one order of the rows never wait for each other in a circle: from every
  reachable state the open transactions can all be run to their end by their own statements and
  commits, as many as are left, none of them broken by the database.
\<close>

theorem pg_ordered_finish:
  fixes rank :: "string \<times> string \<Rightarrow> 'o :: linorder"
  assumes "run pg_moves (pg_start t) ls s" "list_all (\<lambda>b. in_order rank b) (concat (map begun ls))"
    and "inj_on rank (\<Union>b \<in> set (concat (map begun ls)). rows_of b)"
  shows "\<exists>ms s'. run pg_moves s ms s' \<and> ps_open s' = [] \<and> list_all own_step ms \<and>
    length ms \<le> (\<Sum>x\<leftarrow>ps_open s. Suc (length (tx_todo x)))"
proof -
  have "pg_inv t (pg_start t)" by (simp add: pg_inv_def pg_start_def)
  from pg_balance.balance_run [OF assms(1) this] have inv: "pg_inv t s" and "batches s = mset (concat (map begun ls))"
    by (simp_all add: batches_def pg_start_def list_all_iff)
  with assms(2,3) have "\<forall>b \<in># batches s. in_order rank b" "inj_on rank (\<Union>b \<in> set_mset (batches s). rows_of b)"
    by (simp_all only: set_mset_mset list_all_iff)
  from ordered_run [OF inv this] show ?thesis by (simp only: tx_work_def)
qed

text \<open>
  C40: Batches in different orders can. Two batches with the same two metrics, one the reverse of the other, reach a
  state in which neither can go on; the database then breaks one of them with the error \<open>40P01\<close>, which is not
  retried when only connection errors are, so that its request fails.
\<close>

theorem pg_deadlock:
  assumes "a \<noteq> b" "\<not> pg_conn_exc env ''40P01''"
  shows "(\<exists>ls s. run pg_moves (pg_start Map.empty) ls s \<and>
      map tx_batch (ps_open s) = [[NewCounter a v, NewCounter b w], [NewCounter b w, NewCounter a v]] \<and>
      ps_aborted s = [] \<and> (\<forall>i. pg_step s (PExec i) = None \<and> pg_step s (PCommit i) = None)) \<and>
    \<not> pg_isRetriable env (ErrWrap what (PgError ''40P01''))"
proof
  let ?b = "[NewCounter a v, NewCounter b w]" and ?c = "[NewCounter b w, NewCounter a v]"
  let ?s = "\<lparr>ps_table = Map.empty, ps_open = [
      \<lparr>tx_done = [NewCounter a v], tx_todo = [NewCounter b w], tx_rows = [(a, Counter) \<mapsto> (Some v, None)]\<rparr>,
      \<lparr>tx_done = [NewCounter b w], tx_todo = [NewCounter a v], tx_rows = [(b, Counter) \<mapsto> (Some w, None)]\<rparr>],
      ps_committed = [], ps_aborted = []\<rparr>"
  have "exec_steps pg_step [PBegin ?b, PBegin ?c, PExec 0, PExec 1] (pg_start Map.empty) = Some ?s"
    using assms(1) by (simp add: pg_start_def locked_def exec_tx_def write_row_def exec_metric_def metric_row_def
        upsert_counter_def NewCounter_def)
  then have "run pg_moves (pg_start Map.empty) [PBegin ?b, PBegin ?c, PExec 0, PExec 1] ?s"
    using exec_run [of pg_step] unfolding pg_moves_def [abs_def] by blast
  moreover have "pg_step ?s (PExec i) = None \<and> pg_step ?s (PCommit i) = None" for i
    by (cases i) (auto simp: locked_def metric_row_def NewCounter_def less_Suc_eq nth_Cons')
  ultimately show "\<exists>ls s. run pg_moves (pg_start Map.empty) ls s \<and> map tx_batch (ps_open s) = [?b, ?c] \<and>
      ps_aborted s = [] \<and> (\<forall>i. pg_step s (PExec i) = None \<and> pg_step s (PCommit i) = None)"
    by (intro exI conjI allI) (assumption, auto simp: tx_batch_def)
  show "\<not> pg_isRetriable env (ErrWrap what (PgError ''40P01''))"
    using assms(2) by (simp add: pg_isRetriable_def)
qed

section \<open>Concrete runs\<close>

lemma pg_exec: "exec_steps pg_step ls s = Some t \<Longrightarrow> run pg_moves s ls t"
  using exec_run [of pg_step ls s t] by (simp add: pg_moves_def [abs_def])

lemmas pg_eval =
  pg_start_def locked_def exec_tx_def write_row_def exec_metric_def metric_row_def upsert_counter_def NewCounter_def
  commit_tx_def remove_nth_def tx_batch_def

theorem pg_serializable_witness:
  "\<exists>s. run pg_moves (pg_start Map.empty) [PBegin [NewCounter ''a'' 5], PBegin [NewCounter ''b'' 2], PExec 0, PExec 1,
      PCommit 1, PCommit 0] s \<and>
    batches_sql [[NewCounter ''b'' 2], [NewCounter ''a'' 5]] Map.empty = Inr (ps_table s)"
proof -
  let ?ls = "[PBegin [NewCounter ''a'' 5], PBegin [NewCounter ''b'' 2], PExec 0, PExec 1, PCommit 1, PCommit 0]"
  obtain s where s: "exec_steps pg_step ?ls (pg_start Map.empty) = Some s" "ps_committed s = [[NewCounter ''b'' 2], [NewCounter ''a'' 5]]"
    by (simp add: pg_eval)
  have "pg_ok Map.empty" by (simp add: pg_ok_def)
  from pg_serializable [OF pg_exec [OF s(1)] this] pg_exec [OF s(1)] s(2) show ?thesis by auto
qed

theorem pg_ordered_finish_witness:
  "\<exists>s ms s'. run pg_moves (pg_start Map.empty) [PBegin [NewCounter ''a'' 5], PBegin [NewCounter ''a'' 2], PExec 0] s \<and>
    length (ps_open s) = 2 \<and> pg_step s (PExec 1) = None \<and> run pg_moves s ms s' \<and> ps_open s' = [] \<and> length ms \<le> 3"
proof -
  let ?ls = "[PBegin [NewCounter ''a'' 5], PBegin [NewCounter ''a'' 2], PExec 0]"
  obtain s where s: "exec_steps pg_step ?ls (pg_start Map.empty) = Some s" "length (ps_open s) = 2"
    "pg_step s (PExec 1) = None" "(\<Sum>x\<leftarrow>ps_open s. Suc (length (tx_todo x))) = 3"
    by (simp add: pg_eval)
  have "list_all (in_order id) (concat (map begun ?ls))" "inj_on id (\<Union>b \<in> set (concat (map begun ?ls)). rows_of b)"
    by (simp_all add: in_order_def map_filter_def metric_row_def NewCounter_def)
  from pg_ordered_finish [OF pg_exec [OF s(1)] this] s pg_exec [OF s(1)] show ?thesis by (simp only: s(4)) blast
qed

theorem pg_deadlock_witness:
  "\<exists>ls s. run pg_moves (pg_start Map.empty) ls s \<and> length (ps_open s) = 2 \<and> ps_aborted s = [] \<and>
    (\<forall>i. pg_step s (PExec i) = None \<and> pg_step s (PCommit i) = None)"
proof -
  have "''a'' \<noteq> ''b''" "\<not> pg_conn_exc (clean_env (\<lambda>_. False)) ''40P01''" by (simp_all add: clean_env_def)
  from conjunct1 [OF pg_deadlock [OF this, of 1 1 "''save''"]] obtain ls s where
    s: "run pg_moves (pg_start Map.empty) ls s"
    "map tx_batch (ps_open s) = [[NewCounter ''a'' 1, NewCounter ''b'' 1], [NewCounter ''b'' 1, NewCounter ''a'' 1]]"
    "ps_aborted s = []" "\<forall>i. pg_step s (PExec i) = None \<and> pg_step s (PCommit i) = None" by (elim exE conjE)
  have "length (ps_open s) = 2" using arg_cong [OF s(2), of length] by simp
  with s show ?thesis by blast
qed

end
