(* ===== verification/Float_Conv.thy ===== *)
theory Float_Conv
  imports Strconv
begin

text \<open>
  Go's conversion of an unsigned integer to a \<open>float64\<close>, to nearest even, on bit patterns.
\<close>

section \<open>Conversion to float64\<close>

fun bit_len :: "nat \<Rightarrow> nat" where
  "bit_len n = (if n = 0 then 0 else Suc (bit_len (n div 2)))"

declare bit_len.simps [simp del]

definition round_even :: "nat \<Rightarrow> nat \<Rightarrow> nat" where
  "round_even n k =
     (let q = n div 2 ^ k; r = n mod 2 ^ k; h = 2 ^ (k - 1)
      in if h < r \<or> r = h \<and> odd q then q + 1 else q)"

text \<open>A carry out of the rounded significand goes into the exponent.\<close>

definition float_of_nat :: "nat \<Rightarrow> float64" where
  "float_of_nat n =
     (if n = 0 then 0
      else let e = bit_len n - 1;
               m = (if e \<le> 52 then n * 2 ^ (52 - e) else round_even n (e - 52))
           in of_nat ((1023 + e) * 2 ^ 52 + (m - 2 ^ 52)))"

section \<open>What the numbers mean\<close>

lemma bit_len_bounds: "0 < n \<Longrightarrow> 2 ^ (bit_len n - 1) \<le> n \<and> n < 2 ^ bit_len n \<and> 0 < bit_len n"
proof (induction n rule: bit_len.induct)
  case (1 n)
  show ?case
  proof (cases "n = 1")
    case True
    then show ?thesis by (simp add: bit_len.simps)
  next
    case False
    with 1(2) have half: "0 < n div 2" by auto
    from 1(1) [OF _ half] 1(2) have ih: "2 ^ (bit_len (n div 2) - 1) \<le> n div 2" "n div 2 < 2 ^ bit_len (n div 2)"
      "0 < bit_len (n div 2)" by auto
    have b: "bit_len n = Suc (bit_len (n div 2))" using 1(2) by (subst bit_len.simps) simp
    obtain k where k: "bit_len (n div 2) = Suc k" using ih(3) by (cases "bit_len (n div 2)") auto
    have "2 * 2 ^ k \<le> n \<and> n < 2 * (2 * 2 ^ k)" using ih(1,2) unfolding k by auto
    then show ?thesis by (simp add: b k)
  qed
qed

lemma bit_len_le: "0 < n \<Longrightarrow> n < 2 ^ k \<Longrightarrow> bit_len n \<le> k"
proof -
  assume n: "0 < n" "n < 2 ^ k"
  from bit_len_bounds [OF n(1)] have b: "2 ^ (bit_len n - 1) \<le> n" "0 < bit_len n" by auto
  with n(2) have "(2 :: nat) ^ (bit_len n - 1) < 2 ^ k" by linarith
  then have "bit_len n - 1 < k" by simp
  with b(2) show "bit_len n \<le> k" by simp
qed

lemma round_even_bounds:
  assumes "a * 2 ^ k \<le> n" "n < b * 2 ^ k"
  shows "a \<le> round_even n k" "round_even n k \<le> b"
proof -
  have "a \<le> n div 2 ^ k" "n div 2 ^ k < b"
    using assms by (simp_all add: less_eq_div_iff_mult_less_eq div_less_iff_less_mult)
  then show "a \<le> round_even n k" "round_even n k \<le> b" by (simp_all add: round_even_def Let_def)
qed

text \<open>The significand with its leading bit, and what \<open>float_of_nat\<close> packs.\<close>

lemma float_of_nat_parts:
  assumes "0 < n" "n < 2 ^ 64"
  obtains e m where "e \<le> 63" "2 ^ 52 \<le> m" "m \<le> 2 ^ 53"
    "unat (float_of_nat n) = (1023 + e) * 2 ^ 52 + (m - 2 ^ 52)"
    "n < 2 ^ 53 \<Longrightarrow> e \<le> 52 \<and> m = n * 2 ^ (52 - e) \<and> m < 2 ^ 53"
proof -
  define e where "e = bit_len n - 1"
  define m where "m = (if e \<le> 52 then n * 2 ^ (52 - e) else round_even n (e - 52))"
  have b: "2 ^ e \<le> n" "n < 2 ^ Suc e" using bit_len_bounds [OF assms(1)] by (simp_all add: e_def)
  have e: "e \<le> 63" using bit_len_le [OF assms] by (simp add: e_def)
  have small: "n * 2 ^ (52 - e) < 2 ^ 53 \<and> 2 ^ 52 \<le> n * 2 ^ (52 - e)" if "e \<le> 52"
  proof -
    have p: "(2 :: nat) ^ 52 = 2 ^ e * 2 ^ (52 - e)" "(2 :: nat) ^ 53 = 2 ^ Suc e * 2 ^ (52 - e)"
      using that by (simp_all flip: power_add)
    show ?thesis unfolding p using b by (metis mult_le_mono1 mult_less_mono1 zero_less_power zero_less_numeral)
  qed
  have m: "2 ^ 52 \<le> m \<and> m \<le> 2 ^ 53"
  proof (cases "e \<le> 52")
    case True
    then show ?thesis using small by (simp add: m_def)
  next
    case False
    then obtain k where k: "e = 52 + k" by (metis le_add_diff_inverse nat_le_linear)
    have "(2 :: nat) ^ e = 2 ^ 52 * 2 ^ (e - 52)" "(2 :: nat) ^ Suc e = 2 ^ 53 * 2 ^ (e - 52)"
      unfolding k by (simp_all only: power_add power_Suc diff_add_inverse) simp_all
    then have "2 ^ 52 * 2 ^ (e - 52) \<le> n" "n < 2 ^ 53 * 2 ^ (e - 52)" using b by simp_all
    from round_even_bounds [OF this] False show ?thesis by (simp add: m_def)
  qed
  have bound: "(1023 + e) * 2 ^ 52 + (m - 2 ^ 52) < 2 ^ 64"
  proof -
    have "(1023 + e) * 2 ^ 52 \<le> 1086 * 2 ^ 52" using e by (intro mult_le_mono1) simp
    then show ?thesis using m by simp
  qed
  have fl: "float_of_nat n = of_nat ((1023 + e) * 2 ^ 52 + (m - 2 ^ 52))"
    using assms(1) by (simp add: float_of_nat_def Let_def e_def m_def)
  have "unat (float_of_nat n) = (1023 + e) * 2 ^ 52 + (m - 2 ^ 52)"
    unfolding fl using bound by (simp only: unat_of_nat) (simp add: take_bit_nat_eq_self)
  moreover have "e \<le> 52 \<and> m = n * 2 ^ (52 - e) \<and> m < 2 ^ 53" if "n < 2 ^ 53"
  proof -
    have "e \<le> 52" using bit_len_le [OF assms(1) that] by (simp add: e_def)
    then show ?thesis using small by (simp add: m_def)
  qed
  ultimately show thesis using that e m by blast
qed

lemma finite_by_exponent:
  assumes "unat x < 2047 * 2 ^ 52"
  shows "is_finite_float x"
proof -
  have "unat (drop_bit 52 x) < 2047"
  proof -
    have "unat (drop_bit 52 x) = unat x div 2 ^ 52" by (simp only: unat_drop_bit_eq) (simp only: drop_bit_eq_div)
    then show ?thesis using assms by (simp only: div_less_iff_less_mult zero_less_power zero_less_numeral)
  qed
  then have "unat (take_bit 11 (drop_bit 52 x)) \<noteq> 2047"
    by (simp add: unsigned_take_bit_eq take_bit_nat_eq_self)
  then show ?thesis by (auto simp: is_finite_float_def)
qed

lemma float_of_nat_finite: "n < 2 ^ 64 \<Longrightarrow> is_finite_float (float_of_nat n)"
proof (cases "n = 0")
  case True
  then show ?thesis by (simp add: float_of_nat_def is_finite_float_def)
next
  case False
  assume "n < 2 ^ 64"
  with False obtain e m where "e \<le> 63" "m \<le> 2 ^ 53"
    "unat (float_of_nat n) = (1023 + e) * 2 ^ 52 + (m - 2 ^ 52)" using float_of_nat_parts by blast
  moreover from \<open>e \<le> 63\<close> have "(1023 + e) * 2 ^ 52 \<le> 1086 * 2 ^ 52" by (intro mult_le_mono1) simp
  ultimately show ?thesis by (intro finite_by_exponent) simp
qed

text \<open>Reading a finite float as an integer: significand times two to the exponent, truncated.\<close>

definition float_trunc :: "float64 \<Rightarrow> nat" where
  "float_trunc x =
     (let n = unat x; ex = n div 2 ^ 52; m = 2 ^ 52 + n mod 2 ^ 52
      in if ex < 1023 then 0 else if ex - 1023 \<le> 52 then m div 2 ^ (52 - (ex - 1023)) else m * 2 ^ (ex - 1023 - 52))"

lemma float_of_nat_exact: "n < 2 ^ 53 \<Longrightarrow> float_trunc (float_of_nat n) = n"
proof (cases "n = 0")
  case True
  then show ?thesis by (simp add: float_of_nat_def float_trunc_def)
next
  case False
  assume n: "n < 2 ^ 53"
  then have "n < 2 ^ 64" by simp
  with False n obtain e m where em: "e \<le> 52" "m = n * 2 ^ (52 - e)" "m < 2 ^ 53" "2 ^ 52 \<le> m"
    and x: "unat (float_of_nat n) = (1023 + e) * 2 ^ 52 + (m - 2 ^ 52)" using float_of_nat_parts by blast
  have "m - 2 ^ 52 < 2 ^ 52" using em by simp
  then have "unat (float_of_nat n) div 2 ^ 52 = 1023 + e" "unat (float_of_nat n) mod 2 ^ 52 = m - 2 ^ 52"
    unfolding x by (simp_all only: div_mult_self3 mod_mult_self3 div_less mod_less)
  then show ?thesis using em by (simp add: float_trunc_def Let_def)
qed


end
