(* ===== verification/Collector.thy ===== *)
theory Collector
  imports Float_Conv Codec
begin

text \<open>
  \<open>internal/agent/collector.go\<close> and \<open>system.go\<close>: what the agent measures and the metrics it
  makes of it. The memory statistics of the runtime, the random number and the readings of gopsutil
  are inputs.
\<close>

section \<open>Runtime metrics\<close>

record count_metrics =
  PollCount :: int64

text \<open>The fields of \<open>runtime.MemStats\<close> the agent reads.\<close>

record mem_stats =
  ms_Alloc :: "64 word"
  ms_BuckHashSys :: "64 word"
  ms_Frees :: "64 word"
  ms_GCCPUFraction :: "float64"
  ms_GCSys :: "64 word"
  ms_HeapAlloc :: "64 word"
  ms_HeapIdle :: "64 word"
  ms_HeapInuse :: "64 word"
  ms_HeapObjects :: "64 word"
  ms_HeapReleased :: "64 word"
  ms_HeapSys :: "64 word"
  ms_LastGC :: "64 word"
  ms_Lookups :: "64 word"
  ms_MCacheInuse :: "64 word"
  ms_MCacheSys :: "64 word"
  ms_MSpanInuse :: "64 word"
  ms_MSpanSys :: "64 word"
  ms_Mallocs :: "64 word"
  ms_NextGC :: "64 word"
  ms_NumForcedGC :: "32 word"
  ms_NumGC :: "32 word"
  ms_OtherSys :: "64 word"
  ms_PauseTotalNs :: "64 word"
  ms_StackInuse :: "64 word"
  ms_StackSys :: "64 word"
  ms_Sys :: "64 word"
  ms_TotalAlloc :: "64 word"

record gauge_metrics =
  gm_Alloc :: float64
  gm_BuckHashSys :: float64
  gm_Frees :: float64
  gm_GCCPUFraction :: float64
  gm_GCSys :: float64
  gm_HeapAlloc :: float64
  gm_HeapIdle :: float64
  gm_HeapInuse :: float64
  gm_HeapObjects :: float64
  gm_HeapReleased :: float64
  gm_HeapSys :: float64
  gm_LastGC :: float64
  gm_Lookups :: float64
  gm_MCacheInuse :: float64
  gm_MCacheSys :: float64
  gm_MSpanInuse :: float64
  gm_MSpanSys :: float64
  gm_Mallocs :: float64
  gm_NextGC :: float64
  gm_NumForcedGC :: float64
  gm_NumGC :: float64
  gm_OtherSys :: float64
  gm_PauseTotalNs :: float64
  gm_StackInuse :: float64
  gm_StackSys :: float64
  gm_Sys :: float64
  gm_TotalAlloc :: float64
  gm_RandomValue :: float64

definition Collect_runtime :: "mem_stats \<Rightarrow> float64 \<Rightarrow> gauge_metrics" where
  "Collect_runtime m rand =
     \<lparr>gm_Alloc = float_of_nat (unat (ms_Alloc m)),
      gm_BuckHashSys = float_of_nat (unat (ms_BuckHashSys m)),
      gm_Frees = float_of_nat (unat (ms_Frees m)),
      gm_GCCPUFraction = ms_GCCPUFraction m,
      gm_GCSys = float_of_nat (unat (ms_GCSys m)),
      gm_HeapAlloc = float_of_nat (unat (ms_HeapAlloc m)),
      gm_HeapIdle = float_of_nat (unat (ms_HeapIdle m)),
      gm_HeapInuse = float_of_nat (unat (ms_HeapInuse m)),
      gm_HeapObjects = float_of_nat (unat (ms_HeapObjects m)),
      gm_HeapReleased = float_of_nat (unat (ms_HeapReleased m)),
      gm_HeapSys = float_of_nat (unat (ms_HeapSys m)),
      gm_LastGC = float_of_nat (unat (ms_LastGC m)),
      gm_Lookups = float_of_nat (unat (ms_Lookups m)),
      gm_MCacheInuse = float_of_nat (unat (ms_MCacheInuse m)),
      gm_MCacheSys = float_of_nat (unat (ms_MCacheSys m)),
      gm_MSpanInuse = float_of_nat (unat (ms_MSpanInuse m)),
      gm_MSpanSys = float_of_nat (unat (ms_MSpanSys m)),
      gm_Mallocs = float_of_nat (unat (ms_Mallocs m)),
      gm_NextGC = float_of_nat (unat (ms_NextGC m)),
      gm_NumForcedGC = float_of_nat (unat (ms_NumForcedGC m)),
      gm_NumGC = float_of_nat (unat (ms_NumGC m)),
      gm_OtherSys = float_of_nat (unat (ms_OtherSys m)),
      gm_PauseTotalNs = float_of_nat (unat (ms_PauseTotalNs m)),
      gm_StackInuse = float_of_nat (unat (ms_StackInuse m)),
      gm_StackSys = float_of_nat (unat (ms_StackSys m)),
      gm_Sys = float_of_nat (unat (ms_Sys m)),
      gm_TotalAlloc = float_of_nat (unat (ms_TotalAlloc m)),
      gm_RandomValue = rand\<rparr>"

definition runtime_gauge :: "string \<Rightarrow> float64 \<Rightarrow> metrics" where
  "runtime_gauge name x = zero_metrics\<lparr>ID := name, MType := Gauge, Value := Some x\<rparr>"

definition runtime_Gauges :: "gauge_metrics \<Rightarrow> metrics list" where
  "runtime_Gauges g =
     [runtime_gauge ''Alloc'' (gm_Alloc g),
      runtime_gauge ''BuckHashSys'' (gm_BuckHashSys g),
      runtime_gauge ''Frees'' (gm_Frees g),
      runtime_gauge ''GCCPUFraction'' (gm_GCCPUFraction g),
      runtime_gauge ''GCSys'' (gm_GCSys g),
      runtime_gauge ''HeapAlloc'' (gm_HeapAlloc g),
      runtime_gauge ''HeapIdle'' (gm_HeapIdle g),
      runtime_gauge ''HeapInuse'' (gm_HeapInuse g),
      runtime_gauge ''HeapObjects'' (gm_HeapObjects g),
      runtime_gauge ''HeapReleased'' (gm_HeapReleased g),
      runtime_gauge ''HeapSys'' (gm_HeapSys g),
      runtime_gauge ''LastGC'' (gm_LastGC g),
      runtime_gauge ''Lookups'' (gm_Lookups g),
      runtime_gauge ''MCacheInuse'' (gm_MCacheInuse g),
      runtime_gauge ''MCacheSys'' (gm_MCacheSys g),
      runtime_gauge ''MSpanInuse'' (gm_MSpanInuse g),
      runtime_gauge ''MSpanSys'' (gm_MSpanSys g),
      runtime_gauge ''Mallocs'' (gm_Mallocs g),
      runtime_gauge ''NextGC'' (gm_NextGC g),
      runtime_gauge ''NumForcedGC'' (gm_NumForcedGC g),
      runtime_gauge ''NumGC'' (gm_NumGC g),
      runtime_gauge ''OtherSys'' (gm_OtherSys g),
      runtime_gauge ''PauseTotalNs'' (gm_PauseTotalNs g),
      runtime_gauge ''StackInuse'' (gm_StackInuse g),
      runtime_gauge ''StackSys'' (gm_StackSys g),
      runtime_gauge ''Sys'' (gm_Sys g),
      runtime_gauge ''TotalAlloc'' (gm_TotalAlloc g),
      runtime_gauge ''RandomValue'' (gm_RandomValue g)]"

definition BuildBatch :: "gauge_metrics \<Rightarrow> count_metrics \<Rightarrow> metrics list" where
  "BuildBatch gauges counters =
     runtime_Gauges gauges @
     [zero_metrics\<lparr>ID := ''PollCount'', MType := Counter, Delta := Some (PollCount counters)\<rparr>]"

definition zero_gauges :: gauge_metrics where
  "zero_gauges =
     \<lparr>gm_Alloc = 0,
      gm_BuckHashSys = 0,
      gm_Frees = 0,
      gm_GCCPUFraction = 0,
      gm_GCSys = 0,
      gm_HeapAlloc = 0,
      gm_HeapIdle = 0,
      gm_HeapInuse = 0,
      gm_HeapObjects = 0,
      gm_HeapReleased = 0,
      gm_HeapSys = 0,
      gm_LastGC = 0,
      gm_Lookups = 0,
      gm_MCacheInuse = 0,
      gm_MCacheSys = 0,
      gm_MSpanInuse = 0,
      gm_MSpanSys = 0,
      gm_Mallocs = 0,
      gm_NextGC = 0,
      gm_NumForcedGC = 0,
      gm_NumGC = 0,
      gm_OtherSys = 0,
      gm_PauseTotalNs = 0,
      gm_StackInuse = 0,
      gm_StackSys = 0,
      gm_Sys = 0,
      gm_TotalAlloc = 0,
      gm_RandomValue = 0\<rparr>"

section \<open>System metrics\<close>

record system_metrics =
  TotalMemory :: float64
  FreeMemory :: float64
  CPUUtilization :: "float64 list"

text \<open>The readings are the total and free memory, and the load of each core.\<close>

definition CollectSystem :: "(64 word \<times> 64 word) result \<Rightarrow> float64 list result \<Rightarrow> system_metrics result" where
  "CollectSystem vm cpu =
     rbind (wrap_err ''failed to read virtual memory stats'' vm) (\<lambda>(total, free).
     rbind (wrap_err ''failed to read cpu utilization'' cpu) (\<lambda>utilization.
       Inr \<lparr>TotalMemory = float_of_nat (unat total), FreeMemory = float_of_nat (unat free),
            CPUUtilization = utilization\<rparr>))"

definition cpu_name :: "nat \<Rightarrow> string" where
  "cpu_name k = ''CPUutilization'' @ show_nat k"

fun cpu_gauges :: "nat \<Rightarrow> float64 list \<Rightarrow> metrics list" where
  "cpu_gauges i [] = []"
| "cpu_gauges i (x # xs) = NewGauge (cpu_name (i + 1)) x # cpu_gauges (i + 1) xs"

definition system_Gauges :: "system_metrics \<Rightarrow> metrics list" where
  "system_Gauges s =
     [NewGauge ''TotalMemory'' (TotalMemory s), NewGauge ''FreeMemory'' (FreeMemory s)] @
     cpu_gauges 0 (CPUUtilization s)"

definition zero_system :: system_metrics where
  "zero_system = \<lparr>TotalMemory = 0, FreeMemory = 0, CPUUtilization = []\<rparr>"

end
