(* ===== verification/Collector_Specs.thy ===== *)
theory Collector_Specs
  imports Collector
begin

text \<open>
  What the agent reports is a batch the server accepts: names, fields, JSON text and the effect on the
  counters.
\<close>

section \<open>The batch\<close>

lemma cpu_gauges_names: "map ID (cpu_gauges i xs) = map cpu_name [Suc i..<Suc i + length xs]"
  by (induction xs arbitrary: i) (simp_all add: upt_rec)

lemma cpu_gauges_simps [simp]:
  "length (cpu_gauges i xs) = length xs"
  "list_all float_field_ok (cpu_gauges i xs) = list_all is_finite_float xs"
  "list_all complete_metric (cpu_gauges i xs)"
  "delta_for n (runtime_gauge k x) = 0"
  "sum_list (map (delta_for n) (cpu_gauges i xs)) = 0"
  by (induction xs arbitrary: i)
    (simp_all add: float_field_ok_def complete_metric_def delta_for_def runtime_gauge_def zero_metrics_def)

lemma cpu_name_inj: "cpu_name j = cpu_name k \<Longrightarrow> j < 2 ^ 64 \<Longrightarrow> k < 2 ^ 64 \<Longrightarrow> j = k"
proof -
  assume a: "cpu_name j = cpu_name k" "j < 2 ^ 64" "k < 2 ^ 64"
  then have "show_nat j = show_nat k" by (simp add: cpu_name_def)
  then have "parse_digits 0 (show_nat j) = parse_digits 0 (show_nat k)" by (simp only:)
  then have "Inr j = (Inr k :: nat result)"
    by (simp only: parse_digits_show_nat [OF a(2)] parse_digits_show_nat [OF a(3)])
  then show "j = k" by simp
qed

lemma cpu_name_ascii: "list_all (byte_in 0 0x7F) (cpu_name k)"
proof -
  have "byte_in 0 0x7F c" if "is_digit c" for c using that by (auto simp: byte_in_def is_digit_def)
  then have "list_all (byte_in 0 0x7F) (show_nat k)" using show_nat_digits [of k] by (auto simp: list_all_iff)
  then show ?thesis by (simp add: cpu_name_def byte_in_def)
qed

definition fixed_names :: "string list" where
  "fixed_names = map ID (BuildBatch zero_gauges \<lparr>PollCount = 0\<rparr>) @ [''TotalMemory'', ''FreeMemory'']"

lemma batch_names:
  "map ID (BuildBatch g c @ system_Gauges s) =
     fixed_names @ map cpu_name [1..<Suc (length (CPUUtilization s))]"
  by (simp add: fixed_names_def BuildBatch_def runtime_Gauges_def runtime_gauge_def zero_metrics_def
      system_Gauges_def cpu_gauges_names)

lemma fixed_names_distinct: "distinct fixed_names"
  by (simp add: fixed_names_def BuildBatch_def runtime_Gauges_def runtime_gauge_def zero_metrics_def)

lemma fixed_names_ascii: "list_all (list_all (byte_in 0 0x7F)) fixed_names"
  by (simp add: fixed_names_def BuildBatch_def runtime_Gauges_def runtime_gauge_def zero_metrics_def byte_in_def)

lemma cpu_name_not_fixed: "cpu_name k \<notin> set fixed_names"
  by (simp add: fixed_names_def BuildBatch_def runtime_Gauges_def runtime_gauge_def zero_metrics_def cpu_name_def)

lemma batch_names_distinct:
  assumes "length (CPUUtilization s) < 2 ^ 64 - 1"
  shows "distinct (map ID (BuildBatch g c @ system_Gauges s))"
proof -
  have "inj_on cpu_name (set [1..<Suc (length (CPUUtilization s))])"
  proof (rule inj_onI)
    fix j k assume "j \<in> set [1..<Suc (length (CPUUtilization s))]" "k \<in> set [1..<Suc (length (CPUUtilization s))]"
      "cpu_name j = cpu_name k"
    with assms show "j = k" by (intro cpu_name_inj) auto
  qed
  then show ?thesis
    unfolding batch_names using fixed_names_distinct cpu_name_not_fixed by (auto simp: distinct_map)
qed

lemma float_of_word_finite:
  "is_finite_float (float_of_nat (unat (w :: 64 word)))" "is_finite_float (float_of_nat (unat (v :: 32 word)))"
proof -
  have "unat w < 2 ^ 64" "unat v < 2 ^ 32" using unsigned_less [of w] unsigned_less [of v] by simp_all
  then show "is_finite_float (float_of_nat (unat w))" "is_finite_float (float_of_nat (unat v))"
    by (simp_all add: float_of_nat_finite)
qed

lemma batch_float_ok:
  assumes "is_finite_float (ms_GCCPUFraction m)" "is_finite_float rand"
    and "is_finite_float (TotalMemory s)" "is_finite_float (FreeMemory s)" "list_all is_finite_float (CPUUtilization s)"
  shows "list_all float_field_ok (BuildBatch (Collect_runtime m rand) c @ system_Gauges s)"
proof -
  show ?thesis
    using assms
    by (simp add: BuildBatch_def runtime_Gauges_def runtime_gauge_def zero_metrics_def system_Gauges_def
        float_field_ok_def Collect_runtime_def float_of_word_finite)
qed

lemma batch_complete: "list_all complete_metric (BuildBatch g c @ system_Gauges s)"
  by (simp add: BuildBatch_def runtime_Gauges_def runtime_gauge_def zero_metrics_def system_Gauges_def complete_metric_def)

lemma batch_strings: 
  "list_all (\<lambda>m. utf8_valid (MType m) \<and> Hash m = []) (BuildBatch g c @ system_Gauges s)"
proof -
  have "list_all (\<lambda>m. utf8_valid (MType m) \<and> Hash m = []) (cpu_gauges i xs)" for i xs
    by (induction xs arbitrary: i) simp_all
  then show ?thesis
    by (simp add: BuildBatch_def runtime_Gauges_def runtime_gauge_def zero_metrics_def system_Gauges_def)
qed

lemma batch_text_ok:
  assumes "list_all float_field_ok (BuildBatch g c @ system_Gauges s)"
  shows "list_all metrics_text_ok (BuildBatch g c @ system_Gauges s)"
proof -
  have "utf8_valid n" if "n \<in> set (map ID (BuildBatch g c @ system_Gauges s))" for n
    using that fixed_names_ascii cpu_name_ascii unfolding batch_names
    by (auto simp: list_all_iff intro!: utf8_valid_ascii)
  moreover have "utf8_valid []" by simp
  ultimately show ?thesis
    using assms batch_strings [of g c s] by (auto simp: list_all_iff metrics_text_ok_def)
qed

lemma batch_delta:
  "(\<Sum>m\<leftarrow>BuildBatch g c @ system_Gauges s. delta_for n m) = (if n = ''PollCount'' then PollCount c else 0)"
  by (simp add: BuildBatch_def runtime_Gauges_def system_Gauges_def)
    (simp add: delta_for_def zero_metrics_def)

text \<open>
  C32: What the agent reports is always a batch the server accepts: for any memory statistics,
  finite processor readings and up to \<open>2 ^ 64 - 2\<close> cores, the batch has 29 runtime metrics, total
  and free memory and one gauge per core, all with different names; every metric carries the
  field of its type, the JSON text exists and is read back as the same batch, and storing it
  adds exactly the poll count to \<open>PollCount\<close> and touches no other counter.
\<close>

theorem collected_batch:
  assumes "float_codec_ok fc" "is_finite_float (ms_GCCPUFraction m)" "is_finite_float rand"
    and "CollectSystem (Inr mem) (Inr loads) = Inr s" "list_all is_finite_float loads" "length loads < 2 ^ 64 - 1"
  shows "(let batch = BuildBatch (Collect_runtime m rand) c @ system_Gauges s in
     length batch = 31 + length loads \<and> distinct (map ID batch) \<and> list_all complete_metric batch \<and>
     (\<exists>data. marshal_list fc batch = Inr data \<and>
        rbind (json_decode_first data) (decode_slice (decode_metrics fc)) = Inr batch) \<and>
     batch_counters batch c0 = c0(''PollCount'' \<mapsto> go_index c0 ''PollCount'' + PollCount c))"
proof -
  obtain total free where mem: "mem = (total, free)" by force
  with assms(4) have s: "s = \<lparr>TotalMemory = float_of_nat (unat total), FreeMemory = float_of_nat (unat free), CPUUtilization = loads\<rparr>"
    by (simp add: CollectSystem_def)
  let ?b = "BuildBatch (Collect_runtime m rand) c @ system_Gauges s"
  have fin: "is_finite_float (TotalMemory s)" "is_finite_float (FreeMemory s)"
    by (simp_all add: s float_of_word_finite)
  have fl: "list_all float_field_ok ?b"
    using assms(2,3,5) fin by (intro batch_float_ok) (simp_all add: s)
  obtain data where "marshal_list fc ?b = Inr data"
      "rbind (json_decode_first data) (decode_slice (decode_metrics fc)) = Inr ?b"
    by (rule marshal_list_decode [OF assms(1) batch_text_ok [OF fl]])
  moreover have "length ?b = 31 + length loads"
    by (simp add: BuildBatch_def runtime_Gauges_def system_Gauges_def s)
  moreover have "batch_counters ?b c0 = c0(''PollCount'' \<mapsto> go_index c0 ''PollCount'' + PollCount c)"
  proof (rule map_eq_dom_index)
    have "{m \<in> set (cpu_gauges i xs). MType m = Counter \<and> Delta m \<noteq> None} = {}" for i xs
      by (induction xs arbitrary: i) auto
    moreover have "{m \<in> set ?b. MType m = Counter \<and> Delta m \<noteq> None} =
        {zero_metrics\<lparr>ID := ''PollCount'', MType := Counter, Delta := Some (PollCount c)\<rparr>}"
      using calculation by (auto simp: BuildBatch_def runtime_Gauges_def runtime_gauge_def system_Gauges_def zero_metrics_def)
    ultimately show "dom (batch_counters ?b c0) = dom (c0(''PollCount'' \<mapsto> go_index c0 ''PollCount'' + PollCount c))"
      by (simp only: dom_batch_counters) simp
  qed (simp only: go_index_batch batch_delta, simp)
  ultimately show ?thesis
    unfolding Let_def using batch_names_distinct [of s "Collect_runtime m rand" c] batch_complete assms(6) by (auto simp: s)
qed

definition zero_stats :: mem_stats where
  "zero_stats =
     \<lparr>ms_Alloc = 0, ms_BuckHashSys = 0, ms_Frees = 0, ms_GCCPUFraction = 0, ms_GCSys = 0,
      ms_HeapAlloc = 0,
      ms_HeapIdle = 0,
      ms_HeapInuse = 0,
      ms_HeapObjects = 0,
      ms_HeapReleased = 0,
      ms_HeapSys = 0, ms_LastGC = 0, ms_Lookups = 0,
      ms_MCacheInuse = 0,
      ms_MCacheSys = 0,
      ms_MSpanInuse = 0,
      ms_MSpanSys = 0,
      ms_Mallocs = 0, ms_NextGC = 0, ms_NumForcedGC = 0, ms_NumGC = 0, ms_OtherSys = 0, ms_PauseTotalNs = 0,
      ms_StackInuse = 0,
      ms_StackSys = 0,
      ms_Sys = 0, ms_TotalAlloc = 0\<rparr>"

theorem collected_batch_witness:
  "case CollectSystem (Inr (16, 8)) (Inr [0, 0]) of
     Inl e \<Rightarrow> False
   | Inr s \<Rightarrow> length (BuildBatch (Collect_runtime zero_stats 0) \<lparr>PollCount = 3\<rparr> @ system_Gauges s) = 33 \<and>
       batch_counters (BuildBatch (Collect_runtime zero_stats 0) \<lparr>PollCount = 3\<rparr> @ system_Gauges s) [''PollCount'' \<mapsto> 4]
         = [''PollCount'' \<mapsto> 7]"
proof -
  have z: "is_finite_float 0" by (simp add: is_finite_float_def)
  obtain s where s: "CollectSystem (Inr (16, 8)) (Inr [0, 0]) = Inr s" by (simp add: CollectSystem_def)
  have "is_finite_float (ms_GCCPUFraction zero_stats)" "list_all is_finite_float [0, 0]"
      "length [0 :: float64, 0] < 2 ^ 64 - 1"
    using z by (simp_all add: zero_stats_def)
  from collected_batch [OF bits_codec_ok this(1) z s this(2,3), of "\<lparr>PollCount = 3\<rparr>" "[''PollCount'' \<mapsto> 4]"]
  show ?thesis unfolding Let_def s by simp
qed

end
