(* ===== verification/Chunks.thy ===== *)
theory Chunks
  imports Main
begin

text \<open>
  \<open>chunkBatch\<close> of \<open>internal/agent/runner.go\<close>: cutting a report into one part per worker.
\<close>

text \<open>
  The loop of \<open>chunkBatch\<close> from the index \<open>start\<close>. The size is positive whenever the batch is not
  empty; the guard makes the recursion total.
\<close>

function chunk_loop :: "nat \<Rightarrow> 'a list \<Rightarrow> nat \<Rightarrow> 'a list list" where
  "chunk_loop sz batch start =
     (if start < length batch \<and> 0 < sz
      then take (min (start + sz) (length batch) - start) (drop start batch) #
           chunk_loop sz batch (start + sz)
      else [])"
  by auto
termination by (relation "measure (\<lambda>(sz, batch, start). length batch - start)") auto

declare chunk_loop.simps [simp del]

definition chunkBatch :: "'a list \<Rightarrow> nat \<Rightarrow> 'a list list" where
  "chunkBatch batch parts =
     (if batch = [] then []
      else let parts = (if parts < 1 then 1 else parts);
               sz = (length batch + parts - 1) div parts
           in chunk_loop sz batch 0)"

lemma chunk_loop_spec:
  assumes "0 < sz"
  shows "concat (chunk_loop sz batch start) = drop start batch \<and>
         list_all (\<lambda>c. c \<noteq> [] \<and> length c \<le> sz) (chunk_loop sz batch start) \<and>
         length (chunk_loop sz batch start) = (length batch - start + sz - 1) div sz"
  using assms
proof (induction sz batch start rule: chunk_loop.induct)
  case (1 sz batch start)
  show ?case
  proof (cases "start < length batch")
    case True
    let ?n = "min (start + sz) (length batch) - start"
    have ih: "concat (chunk_loop sz batch (start + sz)) = drop (start + sz) batch"
        "list_all (\<lambda>c. c \<noteq> [] \<and> length c \<le> sz) (chunk_loop sz batch (start + sz))"
        "length (chunk_loop sz batch (start + sz)) = (length batch - (start + sz) + sz - 1) div sz"
      using 1 True by simp_all
    have eq: "chunk_loop sz batch start = take ?n (drop start batch) # chunk_loop sz batch (start + sz)"
      using True 1(2) by (subst chunk_loop.simps) simp
    have tk: "take ?n (drop start batch) = take sz (drop start batch)"
      by (cases "start + sz \<le> length batch") (simp_all add: min_def)
    have cat: "take sz (drop start batch) @ drop (start + sz) batch = drop start batch"
      by (metis add.commute append_take_drop_id drop_drop)
    have len: "(length batch - start + sz - 1) div sz = Suc ((length batch - (start + sz) + sz - 1) div sz)"
    proof (cases "start + sz \<le> length batch")
      case le: True
      then have "length batch - start + sz - 1 = (length batch - (start + sz) + sz - 1) + sz" using 1(2) by simp
      then show ?thesis using 1(2) by (simp only: div_add_self2)
    next
      case False
      then have "length batch - start + sz - 1 = (length batch - start - 1) + sz" and r: "length batch - start - 1 < sz"
        "length batch - (start + sz) + sz - 1 < sz"
        using True 1(2) by simp_all
      then have "(length batch - start + sz - 1) div sz = (length batch - start - 1) div sz + 1"
        using 1(2) by (simp only: div_add_self2)
      then show ?thesis using r by (simp only: div_less)
    qed
    show ?thesis unfolding eq len using True 1(2) ih by (simp add: tk cat)
  next
    case False
    with 1(2) show ?thesis by (subst (1 2 3) chunk_loop.simps) simp
  qed
qed

lemma ceil_div_le:
  assumes "0 < (n :: nat)" "0 < p"
  shows "(n + (n + p - 1) div p - 1) div ((n + p - 1) div p) \<le> p"
proof -
  let ?s = "(n + p - 1) div p"
  have "n \<le> ?s * p" 
  proof -
    have "n + p - 1 < (?s + 1) * p" using assms(2) by (metis Suc_eq_plus1 dividend_less_div_times mult.commute mult_Suc_right add.commute)
    then show ?thesis using assms by (simp add: algebra_simps)
  qed
  moreover have s: "0 < ?s" using assms by (simp add: div_greater_zero_iff)
  ultimately have "n + ?s - 1 < (p + 1) * ?s" using assms by (simp add: algebra_simps)
  then have "(n + ?s - 1) div ?s < p + 1" using s by (simp add: div_less_iff_less_mult)
  then show ?thesis by simp
qed

text \<open>
  Splitting a batch loses nothing and respects the rate limit: the chunks joined are the batch, none
  is empty, there are at most \<open>parts\<close> of them (one when \<open>parts\<close> is below one), and their sizes are
  the batch divided by \<open>parts\<close>, rounded up, at most.
\<close>

lemma chunk_batch_parts:
  "concat (chunkBatch batch parts) = batch \<and> length (chunkBatch batch parts) \<le> max 1 parts \<and>
   list_all (\<lambda>c. c \<noteq> [] \<and> length c \<le> (length batch + max 1 parts - 1) div max 1 parts) (chunkBatch batch parts)"
proof (cases "batch = []")
  case False
  define p where "p = max 1 parts"
  have p: "0 < p" "(if parts < 1 then 1 else parts) = p" by (auto simp: p_def)
  have "p \<le> length batch + p - 1" using False by (cases batch) simp_all
  then have s: "0 < (length batch + p - 1) div p" using p(1) by (simp only: div_greater_zero_iff)
  have "chunkBatch batch parts = chunk_loop ((length batch + p - 1) div p) batch 0"
    using False p by (simp add: chunkBatch_def Let_def)
  with chunk_loop_spec [OF s, of batch 0] ceil_div_le [of "length batch" p] False p(1) show ?thesis
    by (auto simp flip: One_nat_def p_def)
qed (simp add: chunkBatch_def)

lemma concat_chunkBatch [simp]: "concat (chunkBatch batch parts) = batch"
  using chunk_batch_parts by blast

end
