(* ===== verification/Agent_Pool.thy ===== *)
theory Agent_Pool
  imports Collector Chunks Runs
begin

text \<open>
  \<open>internal/agent/pool.go\<close> and \<open>runner.go\<close>: the worker pool that bounds the agent's concurrent
  requests and the runner that polls, reports and stops. The goroutines are interleaved: a step is one
  critical section (\<open>Runner_Locks\<close> takes them apart), one channel operation or one turn of a worker. Timers fire at any time, and what
  \<open>SendBatch\<close> answers is any error or none.
\<close>

section \<open>The worker pool\<close>

datatype job_worker = JobWaiting | JobSending "metrics list" | JobDone

record worker_pool =
  wp_workers :: nat
  wp_jobs :: "metrics list list"
  wp_closed :: bool
  wp_work :: "job_worker list"

definition NewWorkerPool :: "int \<Rightarrow> worker_pool result" where
  "NewWorkerPool workers =
     (if workers < 1 then Inl (ErrText ''rate limit must be >= 1'')
      else Inr \<lparr>wp_workers = nat workers, wp_jobs = [], wp_closed = False, wp_work = []\<rparr>)"

definition Workers :: "worker_pool \<Rightarrow> nat" where
  "Workers p = wp_workers p"

definition Start :: "worker_pool \<Rightarrow> worker_pool" where
  "Start p = p\<lparr>wp_work := wp_work p @ replicate (wp_workers p) JobWaiting\<rparr>"

text \<open>
  \<open>Submit\<close>: the first argument is whether the context is done when the call looks; a call that can
  neither send nor give up is blocked, and a send on a closed channel panics.
\<close>

datatype submit_outcome = Submitted | Refused | Blocked | Panicked

definition Submit :: "bool \<Rightarrow> metrics list \<Rightarrow> worker_pool \<Rightarrow> submit_outcome \<times> worker_pool" where
  "Submit expired batch p =
     (if batch = [] then (Submitted, p)
      else if expired then (Refused, p)
      else if wp_closed p then (Panicked, p)
      else if length (wp_jobs p) < wp_workers p then (Submitted, p\<lparr>wp_jobs := wp_jobs p @ [batch]\<rparr>)
      else (Blocked, p))"

text \<open>\<open>Stop\<close> closes the queue once and then waits for the workers.\<close>

definition Stop_close :: "worker_pool \<Rightarrow> worker_pool" where
  "Stop_close p = (if wp_closed p then p else p\<lparr>wp_closed := True\<rparr>)"

definition Stop_waits :: "worker_pool \<Rightarrow> bool" where
  "Stop_waits p = list_ex (\<lambda>w. w \<noteq> JobDone) (wp_work p)"

datatype agent_label =
    APoll gauge_metrics
  | ASystem "system_metrics result"
  | AEnd
  | ACancel
  | AFlush
  | ASubmit "metrics list"
  | ARefuse "metrics list list" int64
  | APanic
  | ATake nat "metrics list"
  | ASent nat "metrics list" "go_error option"
  | AExit nat
  | AClose
  | AReturn

text \<open>One turn of the worker \<open>i\<close>; \<open>err\<close> is what \<open>SendBatch\<close> answers when it is sending.\<close>

definition work :: "nat \<Rightarrow> go_error option \<Rightarrow> worker_pool \<Rightarrow> (agent_label \<times> worker_pool) option" where
  "work i err p =
     (case wp_work p ! i of
        JobWaiting \<Rightarrow>
          (case wp_jobs p of
             batch # jobs \<Rightarrow>
               Some (ATake i batch, p\<lparr>wp_jobs := jobs, wp_work := (wp_work p)[i := JobSending batch]\<rparr>)
           | [] \<Rightarrow> if wp_closed p then Some (AExit i, p\<lparr>wp_work := (wp_work p)[i := JobDone]\<rparr>) else None)
      | JobSending batch \<Rightarrow> Some (ASent i batch err, p\<lparr>wp_work := (wp_work p)[i := JobWaiting]\<rparr>)
      | JobDone \<Rightarrow> None)"

section \<open>The runner\<close>

text \<open>Where each of the three loops is, and where \<open>Run\<close> is.\<close>

datatype loop_pc = LoopStarting | Looping | LoopEnded
datatype run_pc = InLoops | InFlush | InStop | RunReturned

record runner =
  ru_pool :: worker_pool
  ru_pollInterval :: int
  ru_reportInterval :: int
  ru_gauges :: gauge_metrics
  ru_system :: system_metrics
  ru_counters :: count_metrics
  ru_cancelled :: bool
  ru_runtime :: loop_pc
  ru_syspoll :: loop_pc
  ru_report :: loop_pc
  ru_chunks :: "(metrics list list \<times> int64) option"
  ru_pc :: run_pc

definition NewRunner :: "int \<Rightarrow> int \<Rightarrow> int \<Rightarrow> runner result" where
  "NewRunner pollInterval reportInterval rateLimit =
     (if pollInterval \<le> 0 then Inl (ErrText ''poll interval must be > 0'')
      else if reportInterval \<le> 0 then Inl (ErrText ''report interval must be > 0'')
      else rbind (NewWorkerPool rateLimit) (\<lambda>pool.
        Inr \<lparr>ru_pool = pool, ru_pollInterval = pollInterval, ru_reportInterval = reportInterval,
             ru_gauges = zero_gauges, ru_system = zero_system, ru_counters = \<lparr>PollCount = 0\<rparr>,
             ru_cancelled = False, ru_runtime = LoopStarting, ru_syspoll = LoopStarting, ru_report = Looping,
             ru_chunks = None, ru_pc = InLoops\<rparr>))"

definition updateRuntimeMetrics :: "gauge_metrics \<Rightarrow> runner \<Rightarrow> runner" where
  "updateRuntimeMetrics gauges r =
     r\<lparr>ru_gauges := gauges, ru_counters := \<lparr>PollCount = PollCount (ru_counters r) + 1\<rparr>\<rparr>"

definition updateSystemMetrics :: "system_metrics result \<Rightarrow> runner \<Rightarrow> runner" where
  "updateSystemMetrics collected r =
     (case collected of Inl e \<Rightarrow> r | Inr system \<Rightarrow> r\<lparr>ru_system := system\<rparr>)"

definition copyBatch :: "runner \<Rightarrow> metrics list \<times> int64" where
  "copyBatch r =
     (BuildBatch (ru_gauges r) (ru_counters r) @ system_Gauges (ru_system r), PollCount (ru_counters r))"

definition takeBatch :: "runner \<Rightarrow> metrics list \<times> int64 \<times> runner" where
  "takeBatch r =
     (BuildBatch (ru_gauges r) (ru_counters r) @ system_Gauges (ru_system r),
      PollCount (ru_counters r), r\<lparr>ru_counters := \<lparr>PollCount = 0\<rparr>\<rparr>)"

definition addPollCount :: "int64 \<Rightarrow> runner \<Rightarrow> runner" where
  "addPollCount n r =
     (if n = 0 then r else r\<lparr>ru_counters := \<lparr>PollCount = PollCount (ru_counters r) + n\<rparr>\<rparr>)"

text \<open>
  \<open>submitCurrentMetrics\<close>: the start cuts the batch, then each call of \<open>Submit\<close> is a step; a refused
  one gives the polls back and drops the rest.
\<close>

definition chunks_left :: "metrics list list \<Rightarrow> int64 \<Rightarrow> (metrics list list \<times> int64) option" where
  "chunks_left cs polls = (if cs = [] then None else Some (cs, polls))"

definition submit_start :: "runner \<Rightarrow> runner" where
  "submit_start r =
     (case takeBatch r of
        (batch, polls, r') \<Rightarrow>
          if batch = [] then r'
          else r'\<lparr>ru_chunks := chunks_left (chunkBatch batch (Workers (ru_pool r'))) polls\<rparr>)"

definition submit_next :: "bool \<Rightarrow> runner \<Rightarrow> (agent_label \<times> runner) option" where
  "submit_next expired r =
     (case ru_chunks r of
        None \<Rightarrow> None
      | Some ([], polls) \<Rightarrow> None
      | Some (c # cs, polls) \<Rightarrow>
          (case Submit expired c (ru_pool r) of
             (Submitted, p) \<Rightarrow> Some (ASubmit c, r\<lparr>ru_pool := p, ru_chunks := chunks_left cs polls\<rparr>)
           | (Refused, p) \<Rightarrow> Some (ARefuse (c # cs) polls, addPollCount polls (r\<lparr>ru_chunks := None\<rparr>))
           | (Panicked, p) \<Rightarrow> Some (APanic, r)
           | (Blocked, p) \<Rightarrow> None))"

text \<open>The three loops, \<open>Run\<close> and the workers.\<close>

inductive agent_step :: "runner \<Rightarrow> agent_label \<Rightarrow> runner \<Rightarrow> bool" where
  step_runtime: "ru_runtime r \<noteq> LoopEnded \<Longrightarrow>
     agent_step r (APoll g) ((updateRuntimeMetrics g r)\<lparr>ru_runtime := Looping\<rparr>)"
| step_system: "ru_syspoll r \<noteq> LoopEnded \<Longrightarrow>
     agent_step r (ASystem sys) ((updateSystemMetrics sys r)\<lparr>ru_syspoll := Looping\<rparr>)"
| step_report: "ru_report r = Looping \<Longrightarrow> ru_chunks r = None \<Longrightarrow> agent_step r AFlush (submit_start r)"
| step_cancel: "agent_step r ACancel (r\<lparr>ru_cancelled := True\<rparr>)"
| end_runtime: "ru_cancelled r \<Longrightarrow> ru_runtime r = Looping \<Longrightarrow> agent_step r AEnd (r\<lparr>ru_runtime := LoopEnded\<rparr>)"
| end_system: "ru_cancelled r \<Longrightarrow> ru_syspoll r = Looping \<Longrightarrow> agent_step r AEnd (r\<lparr>ru_syspoll := LoopEnded\<rparr>)"
| end_report: "ru_cancelled r \<Longrightarrow> ru_report r = Looping \<Longrightarrow> ru_chunks r = None \<Longrightarrow>
     agent_step r AEnd (r\<lparr>ru_report := LoopEnded\<rparr>)"
| step_submit: "submit_next expired r = Some (l, r') \<Longrightarrow> agent_step r l r'"
| step_flush: "ru_pc r = InLoops \<Longrightarrow> ru_runtime r = LoopEnded \<Longrightarrow> ru_syspoll r = LoopEnded \<Longrightarrow>
     ru_report r = LoopEnded \<Longrightarrow> agent_step r AFlush ((submit_start r)\<lparr>ru_pc := InFlush\<rparr>)"
| step_stop: "ru_pc r = InFlush \<Longrightarrow> ru_chunks r = None \<Longrightarrow>
     agent_step r AClose (r\<lparr>ru_pool := Stop_close (ru_pool r), ru_pc := InStop\<rparr>)"
| step_return: "ru_pc r = InStop \<Longrightarrow> \<not> Stop_waits (ru_pool r) \<Longrightarrow> agent_step r AReturn (r\<lparr>ru_pc := RunReturned\<rparr>)"
| step_work: "i < length (wp_work (ru_pool r)) \<Longrightarrow> work i err (ru_pool r) = Some (l, p) \<Longrightarrow>
     agent_step r l (r\<lparr>ru_pool := p\<rparr>)"

inductive_cases agent_stepE: "agent_step r l r'"

text \<open>\<open>Run\<close> starts the pool and then the loops.\<close>

definition run_start :: "runner \<Rightarrow> runner" where
  "run_start r = r\<lparr>ru_pool := Start (ru_pool r)\<rparr>"

end
