(* ===== verification/Agents_Postgres.thy ===== *)
theory Agents_Postgres
  imports Pg_Serializable Collector_Specs Agent_Pool
begin

text \<open>
  Agents and the PostgreSQL store together: every agent names its metrics in the same order, whatever its machine
  and its number of workers, so that their batches never deadlock in the database.
\<close>

text \<open>The place of a name in every report: the fixed ones first, then the cores by their number.\<close>

definition name_rank :: "string \<times> string \<Rightarrow> nat" where
  "name_rank k =
     (if fst k \<in> set fixed_names then length (takeWhile (\<lambda>n. n \<noteq> fst k) fixed_names)
      else (case parse_digits 0 (drop 14 (fst k)) of Inr i \<Rightarrow> length fixed_names + i | Inl _ \<Rightarrow> 0))"

definition report :: "gauge_metrics \<Rightarrow> count_metrics \<Rightarrow> system_metrics \<Rightarrow> metrics list" where
  "report g c s = BuildBatch g c @ system_Gauges s"

definition row_of_name :: "string \<Rightarrow> string \<times> string" where
  "row_of_name n = (n, if n = ''PollCount'' then Counter else Gauge)"

lemma cpu_gauges_rows:
  "List.map_filter metric_row (cpu_gauges i xs) = map (\<lambda>k. (cpu_name k, Gauge)) [Suc i..<Suc i + length xs]"
  by (induction xs arbitrary: i) (simp_all add: map_filter_simps metric_row_def NewGauge_def upt_rec)

lemma map_filter_append: "List.map_filter f (xs @ ys) = List.map_filter f xs @ List.map_filter f ys"
  by (simp add: map_filter_def)

lemmas fixed_defs = BuildBatch_def runtime_Gauges_def runtime_gauge_def zero_metrics_def

lemma fixed_rows:
  "List.map_filter metric_row (BuildBatch g c @ [NewGauge ''TotalMemory'' x, NewGauge ''FreeMemory'' y]) =
     map row_of_name fixed_names"
  by (simp add: fixed_names_def fixed_defs map_filter_simps metric_row_def row_of_name_def)

lemma cpu_row: "row_of_name (cpu_name k) = (cpu_name k, Gauge)"
  by (simp add: row_of_name_def cpu_name_def)

lemma report_rows:
  "List.map_filter metric_row (report g c s) =
     map row_of_name (fixed_names @ map cpu_name [1..<Suc (length (CPUUtilization s))])"
proof -
  let ?fixed = "[NewGauge ''TotalMemory'' (TotalMemory s), NewGauge ''FreeMemory'' (FreeMemory s)]"
  have "report g c s = (BuildBatch g c @ ?fixed) @ cpu_gauges 0 (CPUUtilization s)"
    by (simp add: report_def system_Gauges_def)
  then have "List.map_filter metric_row (report g c s) =
      List.map_filter metric_row (BuildBatch g c @ ?fixed) @ List.map_filter metric_row (cpu_gauges 0 (CPUUtilization s))"
    by (simp only: map_filter_append)
  then show ?thesis by (simp only: fixed_rows cpu_gauges_rows) (simp add: cpu_row)
qed

lemma fixed_ranks: "map (name_rank \<circ> row_of_name) fixed_names = [0..<31]"
  by (simp add: fixed_names_def fixed_defs name_rank_def row_of_name_def upt_rec)

lemma cpu_rank: "k < 2 ^ 64 \<Longrightarrow> name_rank (row_of_name (cpu_name k)) = length fixed_names + k"
  using cpu_name_not_fixed [of k] parse_digits_show_nat [of k]
  by (simp add: name_rank_def cpu_row) (simp add: cpu_name_def)

text \<open>The ranks of a report increase, and different rows have different ranks.\<close>

lemma report_ranks:
  assumes "length (CPUUtilization s) < 2 ^ 64 - 1"
  shows "map name_rank (List.map_filter metric_row (report g c s)) =
    [0..<31] @ map ((+) 31) [1..<Suc (length (CPUUtilization s))]"
proof -
  have "length fixed_names = 31" using arg_cong [OF fixed_ranks, of length] by simp
  then have "map (name_rank \<circ> row_of_name \<circ> cpu_name) [1..<Suc (length (CPUUtilization s))] =
      map ((+) 31) [1..<Suc (length (CPUUtilization s))]"
    using assms by (intro map_cong refl) (auto simp: cpu_rank)
  then show ?thesis by (simp only: report_rows map_append map_map comp_assoc fixed_ranks)
qed

definition report_rows_all :: "(string \<times> string) set" where
  "report_rows_all = row_of_name ` (set fixed_names \<union> cpu_name ` {0<..<2 ^ 64})"

lemma name_rank_inj: "inj_on name_rank report_rows_all"
proof -
  have len: "length fixed_names = 31" using arg_cong [OF fixed_ranks, of length] by simp
  have "distinct (map (name_rank \<circ> row_of_name) fixed_names)" unfolding fixed_ranks by (rule distinct_upt)
  then have fixed: "inj_on (name_rank \<circ> row_of_name) (set fixed_names)" by (simp add: distinct_map)
  have low: "name_rank (row_of_name n) < 31" if "n \<in> set fixed_names" for n
  proof -
    have "(name_rank \<circ> row_of_name) n \<in> set (map (name_rank \<circ> row_of_name) fixed_names)" using that by simp
    then show ?thesis unfolding fixed_ranks by simp
  qed
  have cpus: "name_rank (row_of_name (cpu_name k)) = 31 + k" if "k < 2 ^ 64" for k
    using cpu_rank [OF that] len by simp
  have "inj_on (name_rank \<circ> row_of_name) (set fixed_names \<union> cpu_name ` {0<..<2 ^ 64})"
    unfolding inj_on_Un
  proof (intro conjI)
    show "inj_on (name_rank \<circ> row_of_name) (cpu_name ` {0<..<2 ^ 64})" by (rule inj_onI) (auto simp: cpus)
  qed (use fixed low cpus in fastforce)+
  then show ?thesis unfolding report_rows_all_def by (rule inj_on_imageI)
qed

lemma report_rows_in:
  assumes "length (CPUUtilization s) < 2 ^ 64 - 1"
  shows "rows_of (report g c s) \<subseteq> report_rows_all"
proof -
  have "set [1..<Suc (length (CPUUtilization s))] \<subseteq> {0<..<2 ^ 64}" using assms by auto
  then have "set (fixed_names @ map cpu_name [1..<Suc (length (CPUUtilization s))]) \<subseteq>
      set fixed_names \<union> cpu_name ` {0<..<2 ^ 64}"
    by (simp only: set_append set_map) (intro Un_mono image_mono subset_refl)
  then show ?thesis
    unfolding set_map_filter [symmetric] report_rows report_rows_all_def set_map by (rule image_mono)
qed

section \<open>The parts of the reports\<close>

text \<open>What a worker of an agent sends: a part of a report of a machine with less than \<open>2 ^ 64 - 1\<close> cores.\<close>

inductive agent_part :: "metrics list \<Rightarrow> bool" where
  agent_partI: "part \<in> set (chunkBatch (fst (takeBatch r)) n) \<Longrightarrow>
    length (CPUUtilization (ru_system r)) < 2 ^ 64 - 1 \<Longrightarrow> agent_part part"

lemma agent_part_ok:
  assumes "agent_part part"
  shows "in_order name_rank part" "rows_of part \<subseteq> report_rows_all"
proof -
  from assms obtain r n where part: "part \<in> set (chunkBatch (fst (takeBatch r)) n)"
    and cores: "length (CPUUtilization (ru_system r)) < 2 ^ 64 - 1" by (blast elim: agent_part.cases)
  let ?b = "report (ru_gauges r) (ru_counters r) (ru_system r)"
  have "concat (chunkBatch ?b n) = ?b" by (rule concat_chunkBatch)
  moreover have "part \<in> set (chunkBatch ?b n)" using part by (simp add: takeBatch_def report_def)
  ultimately obtain xs ys where b: "?b = xs @ part @ ys" by (metis concat.simps(2) concat_append split_list)
  have "sorted (map name_rank (List.map_filter metric_row ?b))"
    unfolding report_ranks [OF cores] by (auto simp: sorted_append sorted_map)
  then show "in_order name_rank part" unfolding b by (simp add: in_order_def map_filter_append sorted_append)
  show "rows_of part \<subseteq> report_rows_all" using report_rows_in [OF cores, of "ru_gauges r" "ru_counters r"] by (simp add: b)
qed

text \<open>
  C17: Agents never deadlock each other in PostgreSQL. Any number of agents, each with any number of workers and
  cores, may have parts of any of their reports in progress at the server: from every state they can reach the
  open transactions can all be run to their end, because every report names its metrics in the same order and
  every part keeps it.
\<close>

theorem agents_never_deadlock:
  assumes "run pg_moves (pg_start t) ls s" "list_all agent_part (concat (map begun ls))"
  shows "\<exists>ms s'. run pg_moves s ms s' \<and> ps_open s' = [] \<and> list_all own_step ms \<and>
    length ms \<le> (\<Sum>x\<leftarrow>ps_open s. Suc (length (tx_todo x)))"
proof (rule pg_ordered_finish [OF assms(1)])
  show "list_all (in_order name_rank) (concat (map begun ls))"
    using assms(2) agent_part_ok(1) by (auto simp: list_all_iff)
  show "inj_on name_rank (\<Union>b \<in> set (concat (map begun ls)). rows_of b)"
    using assms(2) agent_part_ok(2) by (intro inj_on_subset [OF name_rank_inj]) (auto simp: list_all_iff)
qed

text \<open>Two agents with one worker each report at the same time.\<close>

theorem agents_never_deadlock_witness:
  "\<exists>r s ms s'. NewRunner 1 1 1 = Inr r \<and>
    run pg_moves (pg_start Map.empty) [PBegin (fst (takeBatch r)), PBegin (fst (takeBatch r))] s \<and>
    run pg_moves s ms s' \<and> ps_open s' = [] \<and> list_all own_step ms"
proof -
  obtain r where r: "NewRunner 1 1 1 = Inr r" "ru_system r = zero_system"
    by (simp add: NewRunner_def NewWorkerPool_def)
  let ?b = "fst (takeBatch r)" and ?ls = "[PBegin (fst (takeBatch r)), PBegin (fst (takeBatch r))]"
  obtain s where s: "run pg_moves (pg_start Map.empty) ?ls s"
    using pg_exec [of ?ls "pg_start Map.empty"] by (simp add: pg_start_def)
  have "?b \<noteq> []" by (simp add: takeBatch_def BuildBatch_def)
  then have "chunkBatch ?b 1 \<noteq> []" using concat_chunkBatch [of ?b 1] by (metis concat.simps(1))
  moreover have "length (chunkBatch ?b 1) \<le> 1" using chunk_batch_parts [of ?b 1] by simp
  ultimately obtain c where c: "chunkBatch ?b 1 = [c]" by (cases "chunkBatch ?b 1") auto
  have "c = ?b" using concat_chunkBatch [of ?b 1] unfolding c by simp
  with c have "?b \<in> set (chunkBatch ?b 1)" by (metis list.set_intros(1))
  then have "agent_part ?b" by (rule agent_partI) (simp add: r(2) zero_system_def)
  then have "list_all agent_part (concat (map begun ?ls))" by simp
  from agents_never_deadlock [OF s this] r(1) s show ?thesis by blast
qed

end
