(* ===== verification/Http.thy ===== *)
theory Http
  imports Prelude
begin

text \<open>
  What the server uses of \<open>net/http\<close>: requests, the calls a handler makes on its
  \<open>ResponseWriter\<close> as a list of actions, and the response the writer of the server makes of
  them. A middleware that wraps the writer is a function on the list of actions.

  A body is the bytes read up to the end, with the error that takes the place of a clean end.
\<close>

type_synonym stream = "bytes \<times> go_error option"

record request =
  rq_method :: string
  rq_path :: string
  rq_header :: "string \<Rightarrow> string"
  rq_body :: stream
  rq_params :: "string \<Rightarrow> string"
  rq_remote :: string
  rq_now :: int

definition blank_request :: request where
  "blank_request =
     \<lparr>rq_method = ''GET'', rq_path = ''/'', rq_header = (\<lambda>_. []), rq_body = ([], None),
      rq_params = (\<lambda>_. []), rq_remote = ''127.0.0.1:5000'', rq_now = 0\<rparr>"

datatype waction =
    WSet string string
  | WDel string
  | WHeader nat
  | WWrite bytes

section \<open>The base writer\<close>

text \<open>
  The header map stays open; the response's status and header are those of the first
  \<open>WriteHeader\<close>, or 200 at the first write.
\<close>

record response =
  rs_live :: "string \<rightharpoonup> string"
  rs_head :: "(nat \<times> (string \<rightharpoonup> string)) option"
  rs_body :: bytes

definition rs_init :: response where
  "rs_init = \<lparr>rs_live = Map.empty, rs_head = None, rs_body = []\<rparr>"

definition rs_header :: "nat \<Rightarrow> response \<Rightarrow> response" where
  "rs_header code r = (case rs_head r of None \<Rightarrow> r\<lparr>rs_head := Some (code, rs_live r)\<rparr> | Some _ \<Rightarrow> r)"

fun rs_step :: "waction \<Rightarrow> response \<Rightarrow> response" where
  "rs_step (WSet k v) r = r\<lparr>rs_live := (rs_live r)(k \<mapsto> v)\<rparr>"
| "rs_step (WDel k) r = r\<lparr>rs_live := (rs_live r)(k := None)\<rparr>"
| "rs_step (WHeader code) r = rs_header code r"
| "rs_step (WWrite b) r = (rs_header 200 r)\<lparr>rs_body := rs_body r @ b\<rparr>"

definition rs_run :: "waction list \<Rightarrow> response \<Rightarrow> response" where
  "rs_run as r = fold rs_step as r"

lemma rs_run_simps [simp]:
  "rs_run [] r = r" "rs_run (a # as) r = rs_run as (rs_step a r)"
  "rs_run (as @ bs) r = rs_run bs (rs_run as r)"
  by (simp_all add: rs_run_def)

text \<open>The server ends a response nobody started with an empty 200.\<close>

definition respond :: "waction list \<Rightarrow> response" where
  "respond as = rs_header 200 (rs_run as rs_init)"

definition status_of :: "waction list \<Rightarrow> nat" where
  "status_of as = fst (the (rs_head (respond as)))"

definition header_of :: "waction list \<Rightarrow> string \<rightharpoonup> string" where
  "header_of as = snd (the (rs_head (respond as)))"

definition body_of :: "waction list \<Rightarrow> bytes" where
  "body_of as = rs_body (respond as)"

lemmas response_defs = status_of_def header_of_def body_of_def respond_def rs_init_def rs_header_def

section \<open>Handlers\<close>

text \<open>
  A handler answers a request in a state: its actions, the new state, and the audit
  notifications it makes, by the names of the metrics.
\<close>

type_synonym ('s, 'e) handler = "request \<Rightarrow> 's \<Rightarrow> waction list \<times> 's \<times> 'e list"

text \<open>\<open>http.Error\<close> and \<open>http.NotFound\<close>.\<close>

definition http_Error :: "string \<Rightarrow> nat \<Rightarrow> waction list" where
  "http_Error msg code =
     [WDel ''Content-Length'', WSet ''Content-Type'' ''text/plain; charset=utf-8'',
      WSet ''X-Content-Type-Options'' ''nosniff'', WHeader code, WWrite (msg @ [CHR 0x0A])]"

definition http_NotFound :: "waction list" where
  "http_NotFound = http_Error ''404 page not found'' 404"

lemma http_Error_response [simp]:
  "status_of (http_Error msg code) = code"
  "body_of (http_Error msg code) = msg @ [CHR 0x0A]"
  by (simp_all add: http_Error_def response_defs)

text \<open>\<open>io.ReadAll\<close>.\<close>

definition read_all :: "stream \<Rightarrow> bytes result" where
  "read_all b = (case snd b of None \<Rightarrow> Inr (fst b) | Some e \<Rightarrow> Inl e)"

text \<open>
  A sequence of actions that starts its response at most once: no \<open>WriteHeader\<close> follows a
  \<open>WriteHeader\<close> or a write.
\<close>

fun starts_once :: "waction list \<Rightarrow> bool" where
  "starts_once [] = True"
| "starts_once (WHeader c # as) = list_all (\<lambda>a. \<forall>c. a \<noteq> WHeader c) as"
| "starts_once (WWrite b # as) = list_all (\<lambda>a. \<forall>c. a \<noteq> WHeader c) as"
| "starts_once (a # as) = starts_once as"

lemma starts_once_Error [simp]: "starts_once (http_Error msg code)"
  by (simp add: http_Error_def)

text \<open>What does not touch the header, status and body of a started response.\<close>

lemma rs_head_started: "rs_head r = Some h \<Longrightarrow> rs_head (rs_run as r) = Some h"
proof (induction as arbitrary: r)
  case (Cons a as)
  then have "rs_head (rs_step a r) = Some h" by (cases a) (simp_all add: rs_header_def)
  with Cons show ?case by simp
qed simp

definition written :: "waction list \<Rightarrow> bytes" where
  "written as = concat (map (\<lambda>a. case a of WWrite b \<Rightarrow> b | _ \<Rightarrow> []) as)"

lemma written_simps [simp]:
  "written [] = []" "written (WWrite b # as) = b @ written as"
  "written (WHeader c # as) = written as" "written (WSet k v # as) = written as"
  "written (WDel k # as) = written as" "written (as @ bs) = written as @ written bs"
  by (simp_all add: written_def)

lemma rs_body_run: "rs_body (rs_run as r) = rs_body r @ written as"
proof (induction as arbitrary: r)
  case (Cons a as)
  then show ?case by (cases a) (simp_all add: rs_header_def split: option.split)
qed simp

lemma body_of_written: "body_of as = written as"
  by (simp add: body_of_def respond_def rs_header_def rs_body_run rs_init_def split: option.split)

end
