(* ===== verification/Handlers.thy ===== *)
theory Handlers
  imports Http Repository Codec
begin

text \<open>
  \<open>internal/handler\<close>: the HTTP handlers over a repository and the audit event they notify. The
  first argument of a handler is whether there is an auditor.
\<close>

section \<open>Audit events\<close>

record event =
  TS :: int
  Metrics :: "string list"
  IPAddress :: string

text \<open>
  \<open>net.SplitHostPort\<close> on an address: the host before the last colon, with the brackets of
  an IPv6 host removed; it fails when the port is missing or colons or brackets are out of place.
\<close>

definition last_colon :: "string \<Rightarrow> (string \<times> string) option" where
  "last_colon s =
     (let port = takeWhile (\<lambda>c. c \<noteq> CHR '':'') (rev s); pre = dropWhile (\<lambda>c. c \<noteq> CHR '':'') (rev s)
      in if pre = [] then None else Some (rev (tl pre), rev port))"

definition split_host_port :: "string \<Rightarrow> (string \<times> string) option" where
  "split_host_port s =
     (case last_colon s of None \<Rightarrow> None
      | Some (h, port) \<Rightarrow>
          if CHR ''['' \<in> set port \<or> CHR '']'' \<in> set port then None
          else if h \<noteq> [] \<and> hd h = CHR ''[''
          then (if last h = CHR '']'' \<and> CHR '']'' \<notin> set (butlast (tl h)) \<and> CHR ''['' \<notin> set (tl h)
                then Some (butlast (tl h), port) else None)
          else if CHR '':'' \<in> set h \<or> CHR ''['' \<in> set h \<or> CHR '']'' \<in> set h then None
          else Some (h, port))"

definition clientIP :: "request \<Rightarrow> string" where
  "clientIP r = (case split_host_port (rq_remote r) of None \<Rightarrow> rq_remote r | Some (h, p) \<Rightarrow> h)"

definition NewEvent :: "request \<Rightarrow> string list \<Rightarrow> event" where
  "NewEvent r names = \<lparr>TS = rq_now r, Metrics = names, IPAddress = clientIP r\<rparr>"

text \<open>\<open>NotifyRequest\<close> on an auditor that may be nil: the events it hands to the subject.\<close>

definition NotifyRequest :: "bool \<Rightarrow> request \<Rightarrow> string list \<Rightarrow> event list" where
  "NotifyRequest auditor r names = (if \<not> auditor \<or> names = [] then [] else [NewEvent r names])"

section \<open>Reading a JSON body\<close>

definition is_container :: "json \<Rightarrow> bool" where
  "is_container v = (case v of JObj _ \<Rightarrow> True | JArr _ \<Rightarrow> True | _ \<Rightarrow> False)"

text \<open>
  \<open>Decoder.Decode\<close> on a stream: a value other than an object or an array needs a byte or
  the end after it, so a failed read there is an error.
\<close>

definition decoder_Decode :: "stream \<Rightarrow> json result" where
  "decoder_Decode b =
     (case parse_value (json_fuel (skip_ws (fst b))) maxNestingDepth (skip_ws (fst b)) of
        None \<Rightarrow> Inl (case snd b of Some e \<Rightarrow> e | None \<Rightarrow> ErrText ''json syntax'')
      | Some (v, r) \<Rightarrow>
          (case snd b of
             None \<Rightarrow> Inr v
           | Some e \<Rightarrow> if r = [] \<and> \<not> is_container v then Inl e else Inr v))"

lemma decoder_Decode_clean: "json_decode_first data = Inr v \<Longrightarrow> decoder_Decode (data, None) = Inr v"
  by (auto simp: json_decode_first_def decoder_Decode_def split: option.splits)

section \<open>Writing\<close>

definition valid_mtype :: "string \<Rightarrow> bool" where
  "valid_mtype t \<longleftrightarrow> \<not> (t \<noteq> Counter \<and> t \<noteq> Gauge)"

definition bad_mtype :: "nat \<Rightarrow> waction list" where
  "bad_mtype code = http_Error (''Invalid metric type. Must be '' @ CHR 0x27 # ''gauge'' @ CHR 0x27 # '' or '' @
      CHR 0x27 # ''counter'' @ [CHR 0x27]) code"

definition json_content_type :: "request \<Rightarrow> bool" where
  "json_content_type r \<longleftrightarrow> str_contains (rq_header r ''Content-Type'') ''application/json''"

definition bad_content_type :: "waction list" where
  "bad_content_type = http_Error ''Content-Type must be application/json'' 415"

text \<open>\<open>POST /update/{mtype}/{name}/{value}\<close>.\<close>

definition post_handler ::
  "float_codec \<Rightarrow> 's repository \<Rightarrow> bool \<Rightarrow> ('s, event) handler" where
  "post_handler fc repo auditor r s =
     (let mtype = rq_params r ''mtype''; name = rq_params r ''name''; valueStr = rq_params r ''value'';
          ok = (\<lambda>resp s. ([WSet ''Content-Type'' ''text/plain; charset=utf-8'', WHeader 200, WWrite resp],
                          s, NotifyRequest auditor r [name]))
      in if mtype \<noteq> Counter \<and> mtype \<noteq> Gauge then (bad_mtype 400, s, [])
         else if mtype = Counter then
           (case parse_int valueStr of
              Inl e \<Rightarrow> (http_Error ''Invalid value parameter'' 400, s, [])
            | Inr value \<Rightarrow>
                (case UpdateCounter repo name value s of
                   (Inl e, s') \<Rightarrow> (http_Error ''Failed to save counter'' 500, s', [])
                 | (Inr newValue, s') \<Rightarrow> ok (format_int newValue) s'))
         else
           (case ParseFloat fc valueStr of
              Inl e \<Rightarrow> (http_Error ''Invalid gauge parameter'' 400, s, [])
            | Inr value \<Rightarrow>
                (case UpdateGauge repo name value s of
                   (Inl e, s') \<Rightarrow> (http_Error ''Failed to save gauge'' 500, s', [])
                 | (Inr newValue, s') \<Rightarrow> ok (FormatFloat fc newValue) s')))"

text \<open>\<open>POST /update\<close>. The encoder writes nothing when it fails.\<close>

definition update_handler ::
  "float_codec \<Rightarrow> 's repository \<Rightarrow> bool \<Rightarrow> ('s, event) handler" where
  "update_handler fc repo auditor r s =
     (if \<not> json_content_type r then (bad_content_type, s, [])
      else case rbind (decoder_Decode (rq_body r)) (decode_metrics fc) of
        Inl e \<Rightarrow> ([WHeader 400], s, [])
      | Inr req \<Rightarrow>
          if MType req \<noteq> Counter \<and> MType req \<noteq> Gauge then (bad_mtype 400, s, [])
          else
            (let finish = (\<lambda>resp s.
                   (WSet ''Content-Type'' ''application/json; charset=utf-8'' #
                      (case encoder_encode fc resp of
                         Inr data \<Rightarrow> [WWrite data]
                       | Inl e \<Rightarrow> http_Error ''Internal Server Error'' 500),
                    s, NotifyRequest auditor r [ID req]))
             in if MType req = Counter then
                  (case Delta req of
                     None \<Rightarrow> (http_Error ''Invalid counter value'' 400, s, [])
                   | Some d \<Rightarrow>
                       (case UpdateCounter repo (ID req) d s of
                          (Inl e, s') \<Rightarrow> (http_Error ''Failed to save counter'' 500, s', [])
                        | (Inr newValue, s') \<Rightarrow>
                            finish (zero_metrics\<lparr>ID := ID req, MType := Counter, Delta := Some newValue\<rparr>) s'))
                else
                  (case Value req of
                     None \<Rightarrow> (http_Error ''Invalid gauge value'' 400, s, [])
                   | Some x \<Rightarrow>
                       (case UpdateGauge repo (ID req) x s of
                          (Inl e, s') \<Rightarrow> (http_Error ''Failed to save gauge'' 500, s', [])
                        | (Inr newValue, s') \<Rightarrow>
                            finish (zero_metrics\<lparr>ID := ID req, MType := Gauge, Value := Some newValue\<rparr>) s'))))"

text \<open>\<open>POST /updates\<close>: the loop that validates the batch, then one call.\<close>

fun validate_batch :: "metrics list \<Rightarrow> waction list option" where
  "validate_batch [] = None"
| "validate_batch (m # ms) =
     (if MType m = Counter then
        (if Delta m = None then Some (http_Error ''Invalid counter value'' 400) else validate_batch ms)
      else if MType m = Gauge then
        (if Value m = None then Some (http_Error ''Invalid gauge value'' 400) else validate_batch ms)
      else Some (bad_mtype 400))"

definition updates_handler ::
  "float_codec \<Rightarrow> 's repository \<Rightarrow> bool \<Rightarrow> ('s, event) handler" where
  "updates_handler fc repo auditor r s =
     (if \<not> json_content_type r then (bad_content_type, s, [])
      else case rbind (decoder_Decode (rq_body r)) (decode_slice (decode_metrics fc)) of
        Inl e \<Rightarrow> ([WHeader 400], s, [])
      | Inr batch \<Rightarrow>
          if batch = [] then ([WHeader 200], s, [])
          else (case validate_batch batch of
             Some err \<Rightarrow> (err, s, [])
           | None \<Rightarrow>
               (case UpdateBatch repo batch s of
                  (Inl e, s') \<Rightarrow> (http_Error ''Failed to save metrics'' 500, s', [])
                | (Inr _, s') \<Rightarrow>
                    ([WSet ''Content-Type'' ''application/json; charset=utf-8'', WHeader 200],
                     s', NotifyRequest auditor r (map ID batch)))))"

section \<open>Reading\<close>

text \<open>\<open>POST /value\<close>: the request's metric with the stored value filled in.\<close>

definition value_handler :: "float_codec \<Rightarrow> 's repository \<Rightarrow> ('s, event) handler" where
  "value_handler fc repo r s =
     (if \<not> json_content_type r then (bad_content_type, s, [])
      else case rbind (decoder_Decode (rq_body r)) (decode_metrics fc) of
        Inl e \<Rightarrow> ([WHeader 400], s, [])
      | Inr req \<Rightarrow>
          if MType req \<noteq> Counter \<and> MType req \<noteq> Gauge then (bad_mtype 400, s, [])
          else
            (let finish = (\<lambda>req s.
                   (case encoder_encode fc req of
                      Inl e \<Rightarrow> (http_Error ''Internal Server Error'' 500, s, [])
                    | Inr data \<Rightarrow>
                        ([WSet ''Content-Type'' ''application/json; charset=utf-8'', WHeader 200, WWrite data],
                         s, [])))
             in if MType req = Counter then
                  (case svc_GetCounter repo (ID req) s of
                     (Inl e, s') \<Rightarrow> (http_Error ''Counter not found'' 404, s', [])
                   | (Inr v, s') \<Rightarrow> finish (req\<lparr>Delta := Some v\<rparr>) s')
                else
                  (case svc_GetGauge repo (ID req) s of
                     (Inl e, s') \<Rightarrow> (http_Error ''Gauge not found'' 404, s', [])
                   | (Inr x, s') \<Rightarrow> finish (req\<lparr>Value := Some x\<rparr>) s')))"

text \<open>\<open>GET /value/{mtype}/{name}\<close>.\<close>

definition get_handler :: "float_codec \<Rightarrow> 's repository \<Rightarrow> ('s, event) handler" where
  "get_handler fc repo r s =
     (let mtype = rq_params r ''mtype''; name = rq_params r ''name'';
          ok = (\<lambda>resp s. ([WSet ''Content-Type'' ''text/plain; charset=utf-8'', WHeader 200, WWrite resp], s, []))
      in if mtype \<noteq> Counter \<and> mtype \<noteq> Gauge then (bad_mtype 404, s, [])
         else if mtype = Counter then
           (case svc_GetCounter repo name s of
              (Inl e, s') \<Rightarrow> (http_Error ''Counter not found'' 404, s', [])
            | (Inr v, s') \<Rightarrow> ok (format_int v) s')
         else
           (case svc_GetGauge repo name s of
              (Inl e, s') \<Rightarrow> (http_Error ''Gauge not found'' 404, s', [])
            | (Inr x, s') \<Rightarrow> ok (FormatFloat fc x) s'))"

text \<open>\<open>GET /ping\<close>: \<open>None\<close> is a server without a database, else the outcome of the ping.\<close>

definition ping_handler :: "go_error option option \<Rightarrow> ('s, event) handler" where
  "ping_handler db r s =
     (case db of
        None \<Rightarrow> (http_Error ''Database is not configured'' 500, s, [])
      | Some (Some e) \<Rightarrow> (http_Error ''Database connection failed'' 500, s, [])
      | Some None \<Rightarrow> ([WHeader 200], s, []))"

end
