(* ===== verification/Audit_Trail.thy ===== *)
theory Audit_Trail
  imports Handlers Runs
begin

text \<open>
  \<open>internal/audit\<close>: the subject that queues events and hands them to its observers from a
  background worker, and the two observers.

  The subject is a state machine whose steps are the critical sections of its methods and the
  worker's turns: \<open>Notify\<close> holds the read lock over its non-blocking send, \<open>Close\<close> the lock
  over closing the channel. Labels record what a step did.
\<close>

section \<open>The subject\<close>

definition eventBufferSize :: nat where "eventBufferSize = 64"

text \<open>The worker waits for an event, has one left for some observers, or has returned.\<close>

datatype 'o worker = Waiting | Delivering event "'o list" | Returned

record 'o subject =
  su_observers :: "'o list"
  su_events :: "event list"
  su_closed :: bool
  su_worker :: "'o worker"

definition NewSubject :: "'o subject" where
  "NewSubject = \<lparr>su_observers = [], su_events = [], su_closed = False, su_worker = Waiting\<rparr>"

datatype 'o audit_label =
    LSubscribe 'o
  | LNotify event bool
  | LClose
  | LTake event "'o list"
  | LObserve 'o event
  | LReturn
  | LRelease "'o list"

definition Subscribe :: "'o \<Rightarrow> 'o subject \<Rightarrow> 'o subject" where
  "Subscribe ob s = s\<lparr>su_observers := su_observers s @ [ob]\<rparr>"

text \<open>\<open>Notify\<close>: whether the event was queued, and the new state.\<close>

definition Notify :: "event \<Rightarrow> 'o subject \<Rightarrow> bool \<times> 'o subject" where
  "Notify e s =
     (if su_closed s then (False, s)
      else if length (su_events s) < eventBufferSize then (True, s\<lparr>su_events := su_events s @ [e]\<rparr>)
      else (False, s))"

text \<open>The first part of \<open>Close\<close>; the rest waits for the worker and releases the observers.\<close>

definition close_events :: "'o subject \<Rightarrow> 'o subject" where
  "close_events s = (if \<not> su_closed s then s\<lparr>su_closed := True\<rparr> else s)"

definition delivering :: "event \<Rightarrow> 'o list \<Rightarrow> 'o worker" where
  "delivering e obs = (if obs = [] then Waiting else Delivering e obs)"

text \<open>One turn of \<open>dispatch\<close>: \<open>None\<close> while it waits for an event.\<close>

definition dispatch :: "'o subject \<Rightarrow> ('o audit_label \<times> 'o subject) option" where
  "dispatch s =
     (case su_worker s of
        Waiting \<Rightarrow>
          (case su_events s of
             e # es \<Rightarrow>
               Some (LTake e (su_observers s),
                     s\<lparr>su_events := es, su_worker := delivering e (su_observers s)\<rparr>)
           | [] \<Rightarrow> if su_closed s then Some (LReturn, s\<lparr>su_worker := Returned\<rparr>) else None)
      | Delivering e obs \<Rightarrow>
          (case obs of
             [] \<Rightarrow> None
           | ob # obs' \<Rightarrow> Some (LObserve ob e, s\<lparr>su_worker := delivering e obs'\<rparr>))
      | Returned \<Rightarrow> None)"

inductive audit_step :: "'o subject \<Rightarrow> 'o audit_label \<Rightarrow> 'o subject \<Rightarrow> bool" where
  step_subscribe: "audit_step s (LSubscribe ob) (Subscribe ob s)"
| step_notify: "Notify e s = (b, t) \<Longrightarrow> audit_step s (LNotify e b) t"
| step_close: "audit_step s LClose (close_events s)"
| step_dispatch: "dispatch s = Some (l, t) \<Longrightarrow> audit_step s l t"
| step_release: "su_closed s \<Longrightarrow> su_worker s = Returned \<Longrightarrow> audit_step s (LRelease (su_observers s)) s"

inductive_cases audit_stepE: "audit_step s l t"

section \<open>Histories\<close>

fun accepted :: "'o audit_label \<Rightarrow> event list" where
  "accepted (LNotify e True) = [e]"
| "accepted _ = []"

fun taken :: "'o audit_label \<Rightarrow> event list" where
  "taken (LTake e obs) = [e]"
| "taken _ = []"

text \<open>Deliveries: scheduled when an event is taken, done when an observer is called.\<close>

fun scheduled :: "'o audit_label \<Rightarrow> ('o \<times> event) list" where
  "scheduled (LTake e obs) = map (\<lambda>ob. (ob, e)) obs"
| "scheduled _ = []"

fun observed :: "'o audit_label \<Rightarrow> ('o \<times> event) list" where
  "observed (LObserve ob e) = [(ob, e)]"
| "observed _ = []"

definition pending :: "'o subject \<Rightarrow> ('o \<times> event) list" where
  "pending s = (case su_worker s of Delivering e obs \<Rightarrow> map (\<lambda>ob. (ob, e)) obs | _ \<Rightarrow> [])"

lemma pending_delivering [simp]:
  "pending (s\<lparr>su_worker := delivering e obs\<rparr>) = map (\<lambda>ob. (ob, e)) obs"
  by (simp add: pending_def delivering_def)

lemma dispatch_cases:
  assumes "dispatch s = Some (l, t)"
  obtains (take) e es where "su_worker s = Waiting" "su_events s = e # es" "l = LTake e (su_observers s)"
      "t = s\<lparr>su_events := es, su_worker := delivering e (su_observers s)\<rparr>"
  | (observe) e ob obs where "su_worker s = Delivering e (ob # obs)" "l = LObserve ob e"
      "t = s\<lparr>su_worker := delivering e obs\<rparr>"
  | (return) "su_worker s = Waiting" "su_events s = []" "su_closed s" "l = LReturn" "t = s\<lparr>su_worker := Returned\<rparr>"
  using assms by (auto simp: dispatch_def split: worker.splits list.splits if_splits)

interpretation queue: fifo_system audit_step su_events accepted taken "Some eventBufferSize"
proof (unfold_locales, goal_cases)
  case (1 s l t)
  then show ?case
  proof (cases rule: audit_step.cases)
    case step_dispatch
    then show ?thesis by (cases rule: dispatch_cases) simp_all
  qed (auto simp: Subscribe_def Notify_def close_events_def split: if_splits)
next
  case (2 s l t k)
  from 2(1) show ?case
  proof (cases rule: audit_step.cases)
    case step_dispatch
    then show ?thesis by (cases rule: dispatch_cases) (use 2 in simp_all)
  qed (use 2 in \<open>auto simp: Subscribe_def Notify_def close_events_def split: if_splits\<close>)
qed

interpretation deliveries: fifo_system audit_step pending scheduled observed None
proof (unfold_locales, goal_cases)
  case (1 s l t)
  then show ?case
  proof (cases rule: audit_step.cases)
    case step_dispatch
    then show ?thesis by (cases rule: dispatch_cases) (simp_all add: pending_def delivering_def)
  qed (auto simp: Subscribe_def Notify_def close_events_def pending_def split: if_splits)
qed simp

text \<open>A worker that returned left nothing behind, and nothing is accepted after closing.\<close>

definition audit_inv :: "'o subject \<Rightarrow> bool" where
  "audit_inv s \<longleftrightarrow> length (su_events s) \<le> eventBufferSize \<and>
     (su_worker s = Returned \<longrightarrow> su_closed s \<and> su_events s = []) \<and>
     (\<forall>e. su_worker s \<noteq> Delivering e [])"

lemma audit_inv_step: "audit_inv s \<Longrightarrow> audit_step s l t \<Longrightarrow> audit_inv t"
proof (erule audit_stepE)
  fix l' t' assume inv: "audit_inv s" and d: "dispatch s = Some (l, t)"
  from d show "audit_inv t"
    by (cases rule: dispatch_cases) (use inv in \<open>auto simp: audit_inv_def delivering_def\<close>)
qed (auto simp: audit_inv_def Subscribe_def Notify_def close_events_def split: if_splits)

lemma audit_inv_run: "run audit_step NewSubject ls s \<Longrightarrow> audit_inv s"
  by (erule run_invariant) (simp_all add: audit_inv_step, simp add: audit_inv_def NewSubject_def)

lemma fixed_observers:
  "run audit_step s ls t \<Longrightarrow> (\<forall>ob. LSubscribe ob \<notin> set ls) \<Longrightarrow>
   su_observers t = su_observers s \<and>
   concat (map scheduled ls) = concat (map (\<lambda>e. map (\<lambda>ob. (ob, e)) (su_observers s)) (concat (map taken ls)))"
proof (induction rule: run.induct)
  case (run_snoc s ls t l u)
  then have ih: "su_observers t = su_observers s"
    "concat (map scheduled ls) = concat (map (\<lambda>e. map (\<lambda>ob. (ob, e)) (su_observers s)) (concat (map taken ls)))"
    and l: "\<And>ob. l \<noteq> LSubscribe ob" by auto
  from run_snoc.hyps(2) have "su_observers u = su_observers t \<and>
      scheduled l = concat (map (\<lambda>e. map (\<lambda>ob. (ob, e)) (su_observers t)) (taken l))"
  proof (cases rule: audit_step.cases)
    case step_dispatch
    then show ?thesis by (cases rule: dispatch_cases) simp_all
  qed (use l in \<open>auto simp: Notify_def close_events_def split: if_splits\<close>)
  with ih show ?case by simp
qed simp


section \<open>Delivery\<close>

text \<open>A subject with its observers subscribed, as the server starts it.\<close>

definition subscribed :: "'o list \<Rightarrow> 'o subject" where
  "subscribed obs = fold Subscribe obs NewSubject"

lemma subscribed_simps [simp]:
  "su_observers (subscribed obs) = obs" "su_events (subscribed obs) = []"
  "su_closed (subscribed obs) = False" "su_worker (subscribed obs) = Waiting"
proof -
  have "fold Subscribe obs s = s\<lparr>su_observers := su_observers s @ obs\<rparr>" for s :: "'a subject"
    by (induction obs arbitrary: s) (simp_all add: Subscribe_def)
  then show "su_observers (subscribed obs) = obs" "su_events (subscribed obs) = []"
    "su_closed (subscribed obs) = False" "su_worker (subscribed obs) = Waiting"
    by (simp_all add: subscribed_def NewSubject_def)
qed

lemma subscribed_inv: "audit_inv (subscribed obs)"
  by (simp add: audit_inv_def)

lemma audit_run_inv: "run audit_step s ls t \<Longrightarrow> audit_inv s \<Longrightarrow> audit_inv t"
  by (erule run_invariant) (simp_all add: audit_inv_step)

text \<open>
  C15: The audit loses no event it accepted and never delivers one twice or out of order. In
  every interleaving of notifications, closing and the worker, the events taken are a prefix
  of the events accepted, at most 64 wait, and the calls made are the calls due: once the
  worker has returned, which only happens after closing, every observer has seen exactly the
  accepted events, in the order they were accepted.
\<close>

theorem audit_delivery:
  assumes run: "run audit_step (subscribed obs) ls s" and fixed: "\<forall>ob. LSubscribe ob \<notin> set ls"
  shows "concat (map accepted ls) = concat (map taken ls) @ su_events s \<and>
         length (su_events s) \<le> eventBufferSize \<and>
         concat (map observed ls) @ pending s =
           concat (map (\<lambda>e. map (\<lambda>ob. (ob, e)) obs) (concat (map taken ls))) \<and>
         (su_worker s = Returned \<longrightarrow>
            su_closed s \<and>
            concat (map observed ls) = concat (map (\<lambda>e. map (\<lambda>ob. (ob, e)) obs) (concat (map accepted ls))))"
proof -
  have inv: "audit_inv s" by (rule audit_run_inv [OF run subscribed_inv])
  have acc: "concat (map accepted ls) = concat (map taken ls) @ su_events s"
    using queue.fifo_run [OF run] by simp
  have "concat (map scheduled ls) = concat (map observed ls) @ pending s"
    using deliveries.fifo_run [OF run] by (simp add: pending_def [of "subscribed obs"])
  with fixed_observers [OF run fixed]
  have obs: "concat (map observed ls) @ pending s =
      concat (map (\<lambda>e. map (\<lambda>ob. (ob, e)) obs) (concat (map taken ls)))" by simp
  show ?thesis
    using inv acc obs by (auto simp: audit_inv_def pending_def)
qed

text \<open>Two events through a closed subject with one observer.\<close>

definition sample_event :: "string \<Rightarrow> event" where
  "sample_event n = \<lparr>TS = 1, Metrics = [n], IPAddress = ''10.0.0.1''\<rparr>"

theorem audit_delivery_witness:
  "\<exists>s. run audit_step (subscribed [True])
     [LNotify (sample_event ''a'') True, LClose, LTake (sample_event ''a'') [True],
      LObserve True (sample_event ''a''), LReturn] s \<and> su_worker s = Returned \<and> su_closed s"
proof -
  let ?e = "sample_event ''a''"
  let ?s0 = "subscribed [True]"
  define s1 where "s1 = ?s0\<lparr>su_events := [?e]\<rparr>"
  define s2 where "s2 = s1\<lparr>su_closed := True\<rparr>"
  define s3 where "s3 = s2\<lparr>su_events := [], su_worker := Delivering ?e [True]\<rparr>"
  define s4 where "s4 = s3\<lparr>su_worker := Waiting\<rparr>"
  define s5 where "s5 = s4\<lparr>su_worker := Returned\<rparr>"
  have "audit_step ?s0 (LNotify ?e True) s1"
    by (rule step_notify) (simp add: Notify_def s1_def eventBufferSize_def)
  from run_one [where step = audit_step, OF this]
  have r1: "run audit_step ?s0 [LNotify ?e True] s1" .
  have "close_events s1 = s2" by (simp add: close_events_def s1_def s2_def)
  then have "audit_step s1 LClose s2" using step_close [of s1] by simp
  from run_snoc [OF r1 this] have r2: "run audit_step ?s0 [LNotify ?e True, LClose] s2" by simp
  have "audit_step s2 (LTake ?e [True]) s3"
    by (rule step_dispatch) (simp add: dispatch_def s1_def s2_def s3_def delivering_def)
  from run_snoc [OF r2 this] have r3: "run audit_step ?s0 [LNotify ?e True, LClose, LTake ?e [True]] s3" by simp
  have "audit_step s3 (LObserve True ?e) s4"
    by (rule step_dispatch) (simp add: dispatch_def s3_def s4_def delivering_def)
  from run_snoc [OF r3 this]
  have r4: "run audit_step ?s0 [LNotify ?e True, LClose, LTake ?e [True], LObserve True ?e] s4" by simp
  have "audit_step s4 LReturn s5"
    by (rule step_dispatch) (simp add: dispatch_def s1_def s2_def s3_def s4_def s5_def)
  from run_snoc [OF r4 this]
  have r5: "run audit_step ?s0
      [LNotify ?e True, LClose, LTake ?e [True], LObserve True ?e, LReturn] s5" by simp
  have "su_worker s5 = Returned" by (simp add: s5_def)
  with audit_delivery [OF r5] r5 show ?thesis by auto
qed

section \<open>Closing\<close>

definition worker_work :: "'o subject \<Rightarrow> nat" where
  "worker_work s =
     (case su_worker s of Returned \<Rightarrow> 0
      | Waiting \<Rightarrow> 1 + length (su_events s) * (1 + length (su_observers s))
      | Delivering e obs \<Rightarrow> 1 + length obs + length (su_events s) * (1 + length (su_observers s)))"

lemma dispatch_progress:
  assumes "audit_inv s" "su_closed s" "su_worker s \<noteq> Returned"
  shows "\<exists>l t. dispatch s = Some (l, t) \<and> su_closed t \<and> worker_work s = Suc (worker_work t)"
proof (cases "su_worker s")
  case Waiting
  then show ?thesis
    using assms(2) by (cases "su_events s") (auto simp: dispatch_def worker_work_def delivering_def)
next
  case (Delivering e obs)
  with assms(1) obtain ob obs' where "obs = ob # obs'" by (cases obs) (auto simp: audit_inv_def)
  with Delivering assms(2) show ?thesis
    by (auto simp: dispatch_def worker_work_def delivering_def)
qed (use assms in simp)

text \<open>
  C37: Closing ends: from any reachable state in which the subject is closed, the worker alone
  returns after exactly as many turns as there are events and calls left, so \<open>Close\<close>, which
  waits for it, returns, and the observers are released after the last delivery.
\<close>

theorem audit_close_ends:
  assumes "audit_inv s" "su_closed s"
  shows "\<exists>ls t. run (\<lambda>s l t. dispatch s = Some (l, t)) s ls t \<and> length ls = worker_work s \<and>
           su_worker t = Returned \<and> su_events t = [] \<and> audit_step t (LRelease (su_observers t)) t"
  using assms
proof (induction "worker_work s" arbitrary: s)
  case 0
  then have "su_worker s = Returned" by (auto simp: worker_work_def split: worker.splits)
  moreover from this 0 have "su_events s = []" by (simp add: audit_inv_def)
  ultimately show ?case
    using 0 step_release [of s] by (intro exI [of _ "[]"] exI [of _ s]) (auto intro: run_Nil)
next
  case (Suc n)
  then have "su_worker s \<noteq> Returned" by (auto simp: worker_work_def)
  from dispatch_progress [OF Suc.prems this] obtain l u where u: "dispatch s = Some (l, u)" "su_closed u"
      "worker_work s = Suc (worker_work u)" by blast
  have "audit_inv u" by (rule audit_inv_step [OF Suc.prems(1) step_dispatch [OF u(1)]])
  with Suc.hyps u obtain ls t where t: "run (\<lambda>s l t. dispatch s = Some (l, t)) u ls t" "length ls = worker_work u"
      "su_worker t = Returned" "su_events t = []" "audit_step t (LRelease (su_observers t)) t"
    by (metis Suc_inject)
  have "run (\<lambda>s l t. dispatch s = Some (l, t)) s ([l] @ ls) t"
    by (rule run_append [OF t(1) run_one]) (rule u(1))
  with t u show ?case by (intro exI [of _ "l # ls"] exI [of _ t]) simp
qed

theorem audit_close_ends_witness:
  "\<exists>ls t. run (\<lambda>s l t. dispatch s = Some (l, t)) ((subscribed [True, False])\<lparr>su_closed := True\<rparr>) ls t \<and>
          length ls = 1 \<and> su_worker t = Returned"
proof -
  have "audit_inv ((subscribed [True, False])\<lparr>su_closed := True\<rparr>)" by (simp add: audit_inv_def)
  from audit_close_ends [OF this] show ?thesis by (auto simp: worker_work_def)
qed

section \<open>Observers\<close>

definition event_json :: "event \<Rightarrow> json" where
  "event_json e =
     JObj [(''ts'', JNum (format_int (word_of_int (TS e)))), (''metrics'', JArr (map JStr (Metrics e))),
           (''ip_address'', JStr (IPAddress e))]"

text \<open>
  The file observer appends to the file it holds open; a write that fails is logged. Its file is
  \<open>None\<close> once closed.
\<close>

type_synonym file_observer = "bytes option"

definition FileObserver_Observe :: "go_error option \<Rightarrow> event \<Rightarrow> file_observer \<Rightarrow> file_observer" where
  "FileObserver_Observe write_fault e ob =
     (let line = json_compact (event_json e) in
      case ob of None \<Rightarrow> None
      | Some content \<Rightarrow> if write_fault = None then Some (content @ line @ [CHR 0x0A]) else Some content)"

definition NewFileObserver :: "go_error option \<Rightarrow> bytes \<Rightarrow> file_observer result" where
  "NewFileObserver open_fault content = (case open_fault of Some e \<Rightarrow> Inl e | None \<Rightarrow> Inr (Some content))"

definition FileObserver_Close :: "file_observer \<Rightarrow> file_observer" where
  "FileObserver_Close ob = None"

text \<open>The HTTP observer posts the event, whatever the answer.\<close>

definition HTTPObserver_Observe :: "string \<Rightarrow> event \<Rightarrow> (string \<times> bytes) list \<Rightarrow> (string \<times> bytes) list" where
  "HTTPObserver_Observe url e sent = sent @ [(url, json_compact (event_json e))]"

definition decode_event :: "json \<Rightarrow> event option" where
  "decode_event v =
     (case v of
        JObj [(_, JNum ts), (_, JArr ms), (_, JStr ip)] \<Rightarrow>
          (case parse_int ts of Inl e \<Rightarrow> None
           | Inr i \<Rightarrow> Some \<lparr>TS = sint i, Metrics = concat (map (\<lambda>m. case m of JStr s \<Rightarrow> [s] | _ \<Rightarrow> []) ms), IPAddress = ip\<rparr>)
      | _ \<Rightarrow> None)"

definition event_ok :: "event \<Rightarrow> bool" where
  "event_ok e \<longleftrightarrow> - (2 ^ 63) \<le> TS e \<and> TS e < 2 ^ 63 \<and> list_all utf8_valid (Metrics e) \<and> utf8_valid (IPAddress e)"

lemma event_json_decode:
  assumes "event_ok e"
  shows "json_decode_all (json_compact (event_json e)) = Inr (event_json e)"
    and "decode_event (event_json e) = Some e"
proof -
  have "utf8_valid ''ts''" "utf8_valid ''metrics''" "utf8_valid ''ip_address''"
    by (rule utf8_valid_ascii, simp add: byte_in_def)+
  then have "json_ok maxNestingDepth (event_json e)"
    using assms
    by (auto simp: event_json_def event_ok_def maxNestingDepth_def json_number_format_int list_all_iff)
  then show "json_decode_all (json_compact (event_json e)) = Inr (event_json e)"
    by (rule decode_compact(2))
  have "sint (word_of_int (TS e) :: int64) = TS e"
    using assms by (simp add: event_ok_def signed_of_int signed_take_bit_int_eq_self)
  then show "decode_event (event_json e) = Some e"
    by (simp add: decode_event_def event_json_def parse_int_format_int comp_def)
qed

text \<open>
  The audit file is the old content followed by one JSON line per event, in order, and each
  line reads back as the event; after the observer is closed nothing is written.
\<close>

theorem audit_file_lines:
  assumes "list_all event_ok es"
  shows "fold (FileObserver_Observe None) es (Some content) =
           Some (content @ concat (map (\<lambda>e. json_compact (event_json e) @ [CHR 0x0A]) es)) \<and>
         map (\<lambda>e. rbind (json_decode_all (json_compact (event_json e))) (\<lambda>v. Inr (decode_event v))) es =
           map (\<lambda>e. Inr (Some e)) es \<and>
         fold (FileObserver_Observe None) es (FileObserver_Close (Some content)) = None"
proof (intro conjI)
  show "fold (FileObserver_Observe None) es (Some content) =
           Some (content @ concat (map (\<lambda>e. json_compact (event_json e) @ [CHR 0x0A]) es))"
    by (induction es arbitrary: content) (simp_all add: FileObserver_Observe_def Let_def)
  show "map (\<lambda>e. rbind (json_decode_all (json_compact (event_json e))) (\<lambda>v. Inr (decode_event v))) es =
           map (\<lambda>e. Inr (Some e)) es"
    using assms by (auto simp: list_all_iff event_json_decode)
  show "fold (FileObserver_Observe None) es (FileObserver_Close (Some content)) = None"
    by (induction es) (simp_all add: FileObserver_Close_def FileObserver_Observe_def)
qed

theorem audit_file_lines_witness:
  "fold (FileObserver_Observe None) [sample_event ''a''] (Some []) =
     Some (json_compact (event_json (sample_event ''a'')) @ [CHR 0x0A])"
proof -
  have "utf8_valid ''a''" "utf8_valid ''10.0.0.1''" by (rule utf8_valid_ascii, simp add: byte_in_def)+
  then have "list_all event_ok [sample_event ''a'']" by (simp add: event_ok_def sample_event_def)
  from audit_file_lines [OF this, of "[]"] show ?thesis by simp
qed

end
