(* ===== verification/Html_Page.thy ===== *)
theory Html_Page
  imports Handlers Mem_Storage "HOL-Library.List_Lexorder" "HOL-Library.Char_ord"
begin

text \<open>
  \<open>internal/handler/html/index.go\<close>: the dashboard \<open>GET /\<close>. The template is cut at its
  actions; names and values are escaped for HTML text as \<open>html/template\<close> does, and a range
  visits the keys in sorted order. The formatting of a float by \<open>fmt\<close> is a parameter.
\<close>

section \<open>The template\<close>

fun join_lines :: "string list \<Rightarrow> string" where
  "join_lines [] = []"
| "join_lines [l] = l"
| "join_lines (l # ls) = l @ CHR 0x0A # join_lines ls"

definition tmpl_head :: string where
  "tmpl_head = join_lines
     [''<!DOCTYPE html>'',
      ''<html>'',
      ''<head>'',
      ''    <title>Metrics Dashboard</title>'',
      ''    <meta charset=\"utf-8\">'',
      ''    <style>'',
      ''        body { font-family: Arial, sans-serif; margin: 20px; background-color: #f5f5f5; }'',
      ''        .container { max-width: 1200px; margin: 0 auto; background: white; padding: 20px; border-radius: 8px; box-shadow: 0 2px 4px rgba(0,0,0,0.1); }'',
      ''        h1 { color: #333; }'',
      ''        h2 { color: #666; margin-top: 30px; }'',
      ''        table { border-collapse: collapse; width: 100%; margin-top: 10px; }'',
      ''        th, td { border: 1px solid #ddd; padding: 12px; text-align: left; }'',
      ''        th { background-color: #4CAF50; color: white; }'',
      ''        tr:nth-child(even) { background-color: #f9f9f9; }'',
      ''        .empty { color: #999; font-style: italic; }'',
      ''    </style>'',
      ''</head>'',
      ''<body>'',
      ''    <div class=\"container\">'',
      ''        <h1>Metrics Dashboard</h1>'',
      ''        '',
      ''        <h2>Counters</h2>'',
      ''        '']"

definition tmpl_table :: string where
  "tmpl_table = join_lines
     ['''',
      ''        <table>'',
      ''            <tr><th>Name</th><th>Value</th></tr>'',
      ''            '']"

definition tmpl_row_open :: string where
  "tmpl_row_open = join_lines
     ['''',
      ''            <tr><td>'']"

definition tmpl_row_mid :: string where
  "tmpl_row_mid = join_lines
     [''</td><td>'']"

definition tmpl_row_close :: string where
  "tmpl_row_close = join_lines
     [''</td></tr>'',
      ''            '']"

definition tmpl_table_end :: string where
  "tmpl_table_end = join_lines
     ['''',
      ''        </table>'',
      ''        '']"

definition tmpl_no_counters :: string where
  "tmpl_no_counters = join_lines
     ['''',
      ''        <p class=\"empty\">No counters available</p>'',
      ''        '']"

definition tmpl_mid :: string where
  "tmpl_mid = join_lines
     ['''',
      ''        '',
      ''        <h2>Gauges</h2>'',
      ''        '']"

definition tmpl_no_gauges :: string where
  "tmpl_no_gauges = join_lines
     ['''',
      ''        <p class=\"empty\">No gauges available</p>'',
      ''        '']"

definition tmpl_tail :: string where
  "tmpl_tail = join_lines
     ['''',
      ''    </div>'',
      ''</body>'',
      ''</html>'']"

text \<open>Escaping of a string in HTML text, byte by byte.\<close>

definition escape_html_char :: "char \<Rightarrow> string" where
  "escape_html_char c =
     (if c = CHR 0x00 then [CHR 0xEF, CHR 0xBF, CHR 0xBD]
      else if c = CHR 0x22 then ''&#34;''
      else if c = CHR 0x26 then ''&amp;''
      else if c = CHR 0x27 then ''&#39;''
      else if c = CHR 0x2B then ''&#43;''
      else if c = CHR 0x3C then ''&lt;''
      else if c = CHR 0x3E then ''&gt;''
      else [c])"

definition escape_html :: "string \<Rightarrow> string" where
  "escape_html s = concat (map escape_html_char s)"

definition page_row :: "string \<times> string \<Rightarrow> string list" where
  "page_row nv = [tmpl_row_open, escape_html (fst nv), tmpl_row_mid, escape_html (snd nv), tmpl_row_close]"

definition page_section :: "string \<Rightarrow> (string \<times> string) list \<Rightarrow> string list" where
  "page_section none rows =
     (if rows = [] then [none] else [tmpl_table] @ concat (map page_row rows) @ [tmpl_table_end])"

text \<open>The rows of a map: its keys in order with their formatted values.\<close>

definition page_rows :: "('v \<Rightarrow> string) \<Rightarrow> (string \<rightharpoonup> 'v) \<Rightarrow> (string \<times> string) list" where
  "page_rows f m = map (\<lambda>(k, v). (k, f v)) (map_range (sorted_list_of_set (dom m)) m)"

definition render_page ::
  "(float64 \<Rightarrow> string) \<Rightarrow> (string \<rightharpoonup> int64) \<Rightarrow> (string \<rightharpoonup> float64) \<Rightarrow> string list" where
  "render_page fmt_float counters gauges =
     [tmpl_head] @ page_section tmpl_no_counters (page_rows format_int counters) @
     [tmpl_mid] @ page_section tmpl_no_gauges (page_rows fmt_float gauges) @ [tmpl_tail]"

section \<open>The handler\<close>

definition html_handler :: "(float64 \<Rightarrow> string) \<Rightarrow> 's repository \<Rightarrow> ('s, event) handler" where
  "html_handler fmt_float repo r s =
     (let (rc, s1) = svc_GetAllCounters repo s;
          counters = (case rc of Inl e \<Rightarrow> Map.empty | Inr m \<Rightarrow> m);
          (rg, s2) = svc_GetAllGauges repo s1;
          gauges = (case rg of Inl e \<Rightarrow> Map.empty | Inr m \<Rightarrow> m)
      in (WSet ''Content-Type'' ''text/html; charset=utf-8'' # map WWrite (render_page fmt_float counters gauges),
          s2, []))"

section \<open>Markup\<close>

definition angles :: "string \<Rightarrow> string" where
  "angles s = filter (\<lambda>c. c = CHR 0x3C \<or> c = CHR 0x3E) s"

lemma angles_append [simp]: "angles (s @ t) = angles s @ angles t" "angles [] = []"
  by (simp_all add: angles_def)

lemma escape_html_char_angles: "angles (escape_html_char c) = []"
  by (simp add: escape_html_char_def angles_def)

lemma escape_html_angles [simp]: "angles (escape_html s) = []"
  by (induction s) (simp_all add: escape_html_def escape_html_char_angles)

lemma angles_concat: "angles (concat xs) = concat (map angles xs)"
  by (induction xs) simp_all

lemma angles_row: "angles (concat (page_row nv)) = angles (tmpl_row_open @ tmpl_row_mid @ tmpl_row_close)"
  by (simp add: page_row_def)

lemma angles_rows:
  "length rows = length rows' \<Longrightarrow>
   angles (concat (concat (map page_row rows))) = angles (concat (concat (map page_row rows')))"
  by (induction rows rows' rule: list_induct2) (simp_all add: angles_row)

lemma angles_section:
  assumes "length rows = length rows'"
  shows "angles (concat (page_section none rows)) = angles (concat (page_section none rows'))"
  using angles_rows [OF assms] assms
  by (cases "rows = []"; cases "rows' = []") (simp_all add: page_section_def)

lemma length_page_rows: "finite (dom m) \<Longrightarrow> length (page_rows f m) = card (dom m)"
proof -
  assume "finite (dom m)"
  then have "map fst (map_range (sorted_list_of_set (dom m)) m) = sorted_list_of_set (dom m)"
    by (intro map_range_keys) simp
  then have "length (map_range (sorted_list_of_set (dom m)) m) = card (dom m)"
    by (metis length_map length_sorted_list_of_set)
  then show ?thesis by (simp add: page_rows_def)
qed

lemma written_writes [simp]: "written (map WWrite bs) = concat bs"
  by (induction bs) simp_all

text \<open>
  C27: No metric can inject markup into the dashboard: the angle brackets of the page are those of
  the template, so two stores with as many counters and as many gauges give pages with the
  same markup, whatever the names and the values of their metrics.
\<close>

theorem html_markup:
  assumes "finite (dom c)" "finite (dom g)" "finite (dom c')" "finite (dom g')"
    and "card (dom c) = card (dom c')" "card (dom g) = card (dom g')"
    and "svc_GetAllCounters repo s = (Inr c, s1)" "svc_GetAllGauges repo s1 = (Inr g, s2)"
    and "svc_GetAllCounters repo' t = (Inr c', t1)" "svc_GetAllGauges repo' t1 = (Inr g', t2)"
  shows "angles (body_of (fst (html_handler f repo r s))) = angles (body_of (fst (html_handler f' repo' r' t)))"
proof -
  have "angles (concat (page_section tmpl_no_counters (page_rows format_int c))) =
        angles (concat (page_section tmpl_no_counters (page_rows format_int c')))"
    using assms by (intro angles_section) (simp add: length_page_rows)
  moreover have "angles (concat (page_section tmpl_no_gauges (page_rows f g))) =
        angles (concat (page_section tmpl_no_gauges (page_rows f' g')))"
    using assms by (intro angles_section) (simp add: length_page_rows)
  ultimately show ?thesis
    using assms by (simp add: html_handler_def body_of_written render_page_def)
qed

theorem html_markup_witness:
  "angles (body_of (fst (html_handler format_int mem_repo blank_request
       \<lparr>Counters = [''<b>'' \<mapsto> 1], Gauges = Map.empty\<rparr>))) =
   angles (body_of (fst (html_handler format_int mem_repo blank_request
       \<lparr>Counters = [''a'' \<mapsto> 2], Gauges = Map.empty\<rparr>)))"
proof -
  have reads: "svc_GetAllCounters mem_repo m = (Inr (Counters m), m)"
    "svc_GetAllGauges mem_repo m = (Inr (Gauges m), m)" for m
    by (simp_all add: service_defs repo_defs)
  show ?thesis
    by (rule html_markup [OF _ _ _ _ _ _ reads reads]) simp_all
qed

end
