(* ===== verification/Handler_Specs.thy ===== *)
theory Handler_Specs
  imports Html_Page Snapshot Postgres
begin

text \<open>
  What the handlers guarantee over any store that keeps the contract of a repository, proved
  once in the contract's locale, and its instances on the in-memory and the PostgreSQL store.
\<close>

section \<open>Batches\<close>

definition decoded_batch :: "float_codec \<Rightarrow> request \<Rightarrow> metrics list option" where
  "decoded_batch fc r =
     (if json_content_type r then
        (case rbind (decoder_Decode (rq_body r)) (decode_slice (decode_metrics fc)) of
           Inl e \<Rightarrow> None | Inr b \<Rightarrow> Some b)
      else None)"

text \<open>The metric a JSON update leaves in the store.\<close>

definition stored_metric :: "(string \<rightharpoonup> int64) \<Rightarrow> metrics \<Rightarrow> metrics" where
  "stored_metric c m =
     (if MType m = Counter
      then zero_metrics\<lparr>ID := ID m, MType := Counter, Delta := Some (go_index c (ID m) + the (Delta m))\<rparr>
      else zero_metrics\<lparr>ID := ID m, MType := Gauge, Value := Value m\<rparr>)"

lemma validate_batch_None: "validate_batch ms = None \<longleftrightarrow> list_all complete_metric ms"
  by (induction ms) (auto simp: complete_metric_def)

lemma validate_batch_Some: "validate_batch ms = Some as \<Longrightarrow> status_of as = 400"
  by (induction ms) (auto simp: bad_mtype_def split: if_splits)

lemma status_simps [simp]:
  "status_of [WHeader c] = c"
  "status_of [WSet k v, WHeader c] = c"
  "status_of [WSet k v, WHeader c, WWrite b] = c"
  "status_of [WSet k v, WWrite b] = 200"
  "status_of bad_content_type = 415" "status_of (bad_mtype c) = c"
  "body_of [WSet k v, WHeader c, WWrite b] = b"
  "body_of [WSet k v, WWrite b] = b"
  by (simp_all add: response_defs bad_content_type_def bad_mtype_def flip: status_of_def) (simp_all add: response_defs http_Error_def)

context metrics_repository
begin

text \<open>A batch is stored whole, or refused without a trace.\<close>

lemma updates_spec:
  assumes "ok s"
    and "\<And>b. decoded_batch fc r = Some b \<Longrightarrow> list_all complete_metric b \<Longrightarrow> batch_accepts acc (ctr s) b"
  shows "case updates_handler fc repo auditor r s of (as, s', ev) \<Rightarrow>
     (case decoded_batch fc r of
        None \<Rightarrow> s' = s \<and> ev = [] \<and> status_of as \<in> {400, 415}
      | Some b \<Rightarrow>
          if list_all complete_metric b
          then status_of as = 200 \<and> ok s' \<and> ev = NotifyRequest auditor r (map ID b) \<and>
               ctr s' = batch_counters b (ctr s) \<and> gau s' = batch_gauges b (gau s)
          else s' = s \<and> ev = [] \<and> status_of as = 400)"
proof (cases "decoded_batch fc r")
  case None
  then show ?thesis
    by (auto simp: updates_handler_def decoded_batch_def split: sum.splits if_splits)
next
  case (Some b)
  then have ct: "json_content_type r"
    and dec: "rbind (decoder_Decode (rq_body r)) (decode_slice (decode_metrics fc)) = Inr b"
    by (auto simp: decoded_batch_def split: sum.splits if_splits)
  show ?thesis
  proof (cases "list_all complete_metric b")
    case True
    note acc = assms(2) [OF Some True]
    from save_batch [OF assms(1) acc] obtain s' where s': "SaveBatch repo b s = (Inr (), s')" "ok s'"
        "ctr s' = batch_counters b (ctr s)" "gau s' = batch_gauges b (gau s)" by blast
    have "validate_batch b = None" using True by (simp add: validate_batch_None)
    with True Some ct dec s' assms(1) show ?thesis
      by (simp add: updates_handler_def service_defs NotifyRequest_def)
  next
    case False
    then obtain as where as: "validate_batch b = Some as"
      using validate_batch_None [of b] by (cases "validate_batch b") auto
    have "b \<noteq> []" using False by auto
    with False Some ct dec as validate_batch_Some [OF as] show ?thesis
      by (simp add: updates_handler_def)
  qed
qed

section \<open>Text interface\<close>

text \<open>What a text update answers is what reading the metric answers afterwards.\<close>

lemma post_get_counter:
  assumes "ok s" "rq_params r ''mtype'' = Counter" "parse_int (rq_params r ''value'') = Inr d"
    and "acc (go_index (ctr s) (rq_params r ''name'')) d"
    and "rq_params r' ''mtype'' = Counter" "rq_params r' ''name'' = rq_params r ''name''"
  shows "case post_handler fc repo auditor r s of (as, s', ev) \<Rightarrow>
     status_of as = 200 \<and> body_of as = format_int (go_index (ctr s) (rq_params r ''name'') + d) \<and>
     ev = NotifyRequest auditor r [rq_params r ''name''] \<and>
     status_of (fst (get_handler fc repo r' s')) = 200 \<and>
     body_of (fst (get_handler fc repo r' s')) = body_of as"
proof -
  let ?n = "rq_params r ''name''"
  from save_counter [OF assms(1,4)] obtain s' where s': "ok s'"
      "SaveCounter repo ?n d s = (Inr (go_index (ctr s) ?n + d), s')"
      "ctr s' = add_metric (NewCounter ?n d) (ctr s)" by blast
  then have "ctr s' ?n = Some (go_index (ctr s) ?n + d)" by simp
  from get_counter_found [OF s'(1) this] obtain s'' where
    "GetCounter repo ?n s' = (Inr (go_index (ctr s) ?n + d), s'')" by blast
  with s' assms show ?thesis
    by (simp add: post_handler_def get_handler_def service_defs Let_def)
qed

lemma post_get_gauge:
  assumes "ok s" "rq_params r ''mtype'' = Gauge" "ParseFloat fc (rq_params r ''value'') = Inr x"
    and "rq_params r' ''mtype'' = Gauge" "rq_params r' ''name'' = rq_params r ''name''"
  shows "case post_handler fc repo auditor r s of (as, s', ev) \<Rightarrow>
     status_of as = 200 \<and> body_of as = FormatFloat fc x \<and>
     ev = NotifyRequest auditor r [rq_params r ''name''] \<and>
     status_of (fst (get_handler fc repo r' s')) = 200 \<and>
     body_of (fst (get_handler fc repo r' s')) = body_of as"
proof -
  let ?n = "rq_params r ''name''"
  from save_gauge [OF assms(1)] obtain s' where s': "ok s'"
      "SaveGauge repo ?n x s = (Inr x, s')" "gau s' = set_metric (NewGauge ?n x) (gau s)" by blast
  then have "gau s' ?n = Some x" by simp
  from get_gauge_found [OF s'(1) this] obtain s'' where "GetGauge repo ?n s' = (Inr x, s'')" by blast
  with s' assms show ?thesis
    by (simp add: post_handler_def get_handler_def service_defs Let_def)
qed

section \<open>JSON interface\<close>

text \<open>
  A JSON update is answered with the metric now stored, and reading that metric as JSON
  answers the same text.
\<close>

lemma update_value_spec:
  assumes ok: "ok s"
    and r: "json_content_type r" "rbind (decoder_Decode (rq_body r)) (decode_metrics fc) = Inr m"
    and m: "complete_metric m" "float_field_ok m"
    and acc: "\<And>d. MType m = Counter \<Longrightarrow> Delta m = Some d \<Longrightarrow> acc (go_index (ctr s) (ID m)) d"
    and r': "json_content_type r'"
      "rbind (decoder_Decode (rq_body r')) (decode_metrics fc) = Inr (zero_metrics\<lparr>ID := ID m, MType := MType m\<rparr>)"
  shows "case update_handler fc repo auditor r s of (as, s', ev) \<Rightarrow>
     status_of as = 200 \<and> encoder_encode fc (stored_metric (ctr s) m) = Inr (body_of as) \<and>
     ev = NotifyRequest auditor r [ID m] \<and>
     status_of (fst (value_handler fc repo r' s')) = 200 \<and>
     body_of (fst (value_handler fc repo r' s')) = body_of as"
proof (cases "MType m = Counter")
  case True
  with m obtain d where d: "Delta m = Some d" by (auto simp: complete_metric_def)
  let ?v = "go_index (ctr s) (ID m) + d"
  let ?m = "zero_metrics\<lparr>ID := ID m, MType := Counter, Delta := Some ?v\<rparr>"
  from save_counter [OF ok acc [OF True d]] obtain s' where s': "ok s'"
      "SaveCounter repo (ID m) d s = (Inr ?v, s')" "ctr s' = add_metric (NewCounter (ID m) d) (ctr s)" by blast
  then have "ctr s' (ID m) = Some ?v" by simp
  from get_counter_found [OF s'(1) this] obtain s'' where g: "GetCounter repo (ID m) s' = (Inr ?v, s'')" by blast
  have "float_field_ok ?m" by (simp add: float_field_ok_def zero_metrics_def)
  then obtain data where e: "encoder_encode fc ?m = Inr data"
    by (simp add: encoder_encode_def encode_metrics_def)
  with True d s' g r r' show ?thesis
    by (simp add: update_handler_def value_handler_def service_defs Let_def stored_metric_def)
next
  case False
  with m obtain x where x: "MType m = Gauge" "Value m = Some x" by (auto simp: complete_metric_def)
  let ?m = "zero_metrics\<lparr>ID := ID m, MType := Gauge, Value := Some x\<rparr>"
  from save_gauge [OF ok] obtain s' where s': "ok s'"
      "SaveGauge repo (ID m) x s = (Inr x, s')" "gau s' = set_metric (NewGauge (ID m) x) (gau s)" by blast
  then have "gau s' (ID m) = Some x" by simp
  from get_gauge_found [OF s'(1) this] obtain s'' where g: "GetGauge repo (ID m) s' = (Inr x, s'')" by blast
  have "float_field_ok ?m" using m(2) x by (simp add: float_field_ok_def zero_metrics_def)
  then obtain data where e: "encoder_encode fc ?m = Inr data"
    by (simp add: encoder_encode_def encode_metrics_def)
  with False x s' g r r' show ?thesis
    by (simp add: update_handler_def value_handler_def service_defs Let_def stored_metric_def)
qed

end

section \<open>The in-memory store\<close>

text \<open>
  C11: A batch sent to \<open>POST /updates\<close> is stored whole or refused without a trace. The
  request is refused (400 or 415) unless it is JSON of a list of metrics; the list is refused
  (400) when any metric has an unknown type or lacks the field of its type; otherwise the
  answer is 200, every delta is added, every gauge is set, and the auditor is told the
  names. A refused request changes nothing and is not audited.
\<close>

theorem updates_all_or_nothing:
  "case updates_handler fc mem_repo auditor r s of (as, s', ev) \<Rightarrow>
     (case decoded_batch fc r of
        None \<Rightarrow> s' = s \<and> ev = [] \<and> status_of as \<in> {400, 415}
      | Some b \<Rightarrow>
          if list_all complete_metric b
          then status_of as = 200 \<and> ev = NotifyRequest auditor r (map ID b) \<and>
               Counters s' = batch_counters b (Counters s) \<and> Gauges s' = batch_gauges b (Gauges s)
          else s' = s \<and> ev = [] \<and> status_of as = 400)"
  using mem.updates_spec [where s = s and fc = fc and r = r and auditor = auditor]
  by (auto split: prod.splits option.splits if_splits)

text \<open>
  What a text update answers is what reading the metric answers. \<open>POST
  /update/counter/n/v\<close> answers the old value plus \<open>v\<close> (modulo \<open>2 ^ 64\<close>), \<open>POST
  /update/gauge/n/v\<close> the formatted value, and a following \<open>GET /value\<close> for the same
  type and name answers 200 with the same text.
\<close>

theorem text_update_then_get:
  assumes mtype: "rq_params r ''mtype'' = Counter \<and> parse_int (rq_params r ''value'') = Inr d \<or>
                  rq_params r ''mtype'' = Gauge \<and> ParseFloat fc (rq_params r ''value'') = Inr x"
    and same: "rq_params r' ''mtype'' = rq_params r ''mtype''" "rq_params r' ''name'' = rq_params r ''name''"
  shows "case post_handler fc mem_repo auditor r s of (as, s', ev) \<Rightarrow>
     status_of as = 200 \<and>
     body_of as = (if rq_params r ''mtype'' = Counter
                   then format_int (go_index (Counters s) (rq_params r ''name'') + d) else FormatFloat fc x) \<and>
     ev = NotifyRequest auditor r [rq_params r ''name''] \<and>
     status_of (fst (get_handler fc mem_repo r' s')) = 200 \<and>
     body_of (fst (get_handler fc mem_repo r' s')) = body_of as"
  using mtype
proof
  assume c: "rq_params r ''mtype'' = Counter \<and> parse_int (rq_params r ''value'') = Inr d"
  with mem.post_get_counter [where s = s and r = r and d = d and r' = r' and fc = fc and auditor = auditor] same show ?thesis by (simp split: prod.splits)
next
  assume g: "rq_params r ''mtype'' = Gauge \<and> ParseFloat fc (rq_params r ''value'') = Inr x"
  with mem.post_get_gauge [where s = s and r = r and x = x and r' = r' and fc = fc and auditor = auditor] same show ?thesis by (simp split: prod.splits)
qed

definition text_request :: "string \<Rightarrow> string \<Rightarrow> string \<Rightarrow> request" where
  "text_request t n v =
     blank_request\<lparr>rq_params := (\<lambda>k. if k = ''mtype'' then t else if k = ''name'' then n
                                     else if k = ''value'' then v else [])\<rparr>"

theorem text_update_then_get_witness:
  "case post_handler bits_codec mem_repo False (text_request Counter ''a'' (format_int 5)) New of
     (as, s', ev) \<Rightarrow>
       body_of as = format_int 5 \<and>
       body_of (fst (get_handler bits_codec mem_repo (text_request Counter ''a'' []) s')) = format_int 5"
proof -
  have "rq_params (text_request Counter ''a'' (format_int 5)) ''mtype'' = Counter \<and>
        parse_int (rq_params (text_request Counter ''a'' (format_int 5)) ''value'') = Inr 5 \<or>
        rq_params (text_request Counter ''a'' (format_int 5)) ''mtype'' = Gauge \<and>
        ParseFloat bits_codec (rq_params (text_request Counter ''a'' (format_int 5)) ''value'') = Inr 0"
    by (simp add: text_request_def parse_int_format_int)
  from text_update_then_get [OF this, where r' = "text_request Counter ''a'' []" and auditor = False and s = New]
  show ?thesis by (simp add: text_request_def New_def split: prod.splits)
qed

text \<open>
  C26: What a JSON update answers is what reading the metric as JSON answers. \<open>POST /update\<close>
  with a complete metric (a finite gauge) answers 200 and the metric now stored, as one line
  of JSON, and \<open>POST /value\<close> with its name and type then answers 200 with the same text.
\<close>

theorem json_update_then_value:
  assumes r: "json_content_type r" "rbind (decoder_Decode (rq_body r)) (decode_metrics fc) = Inr m"
    and m: "complete_metric m" "float_field_ok m"
    and r': "json_content_type r'"
      "rbind (decoder_Decode (rq_body r')) (decode_metrics fc) = Inr (zero_metrics\<lparr>ID := ID m, MType := MType m\<rparr>)"
  shows "case update_handler fc mem_repo auditor r s of (as, s', ev) \<Rightarrow>
     status_of as = 200 \<and> encoder_encode fc (stored_metric (Counters s) m) = Inr (body_of as) \<and>
     ev = NotifyRequest auditor r [ID m] \<and>
     status_of (fst (value_handler fc mem_repo r' s')) = 200 \<and>
     body_of (fst (value_handler fc mem_repo r' s')) = body_of as"
  by (rule mem.update_value_spec [OF _ r m _ r']) simp_all

text \<open>A request with the JSON text of a metric.\<close>

definition json_request :: "bytes \<Rightarrow> request" where
  "json_request data =
     blank_request\<lparr>rq_header := (\<lambda>k. if k = ''Content-Type'' then ''application/json'' else []),
                   rq_body := (data, None)\<rparr>"

lemma json_request_decodes:
  assumes "float_codec_ok fc" "metrics_text_ok m"
  shows "json_content_type (json_request (json_compact (metrics_json fc m)))"
    and "rbind (decoder_Decode (rq_body (json_request (json_compact (metrics_json fc m))))) (decode_metrics fc) = Inr m"
proof -
  show "json_content_type (json_request (json_compact (metrics_json fc m)))"
    by (simp add: json_content_type_def json_request_def str_contains_self)
  have "json_ok maxNestingDepth (metrics_json fc m)"
    using assms by (intro metrics_json_ok) (simp_all add: maxNestingDepth_def)
  from decoder_Decode_clean [OF decode_compact(1) [OF this]]
  show "rbind (decoder_Decode (rq_body (json_request (json_compact (metrics_json fc m))))) (decode_metrics fc) = Inr m"
    using assms by (simp add: json_request_def decode_metrics_json metrics_text_ok_def)
qed

theorem json_update_then_value_witness:
  "case update_handler bits_codec mem_repo True
          (json_request (json_compact (metrics_json bits_codec (NewCounter ''a'' 5)))) New of
     (as, s', ev) \<Rightarrow>
       status_of as = 200 \<and> encoder_encode bits_codec (NewCounter ''a'' 5) = Inr (body_of as)"
proof -
  have ascii: "utf8_valid ''a''" by (rule utf8_valid_ascii) (simp add: byte_in_def)
  have ok: "metrics_text_ok (NewCounter ''a'' 5)"
    using ascii by (simp add: metrics_text_ok_def float_field_ok_def)
  let ?q = "zero_metrics\<lparr>ID := ID (NewCounter ''a'' 5), MType := MType (NewCounter ''a'' 5)\<rparr>"
  have okq: "metrics_text_ok ?q"
    using ascii by (simp add: metrics_text_ok_def float_field_ok_def zero_metrics_def)
  have c: "complete_metric (NewCounter ''a'' 5)" "float_field_ok (NewCounter ''a'' 5)"
    by (simp_all add: complete_metric_def float_field_ok_def)
  note inst = json_update_then_value [OF json_request_decodes [OF bits_codec_ok ok] c
      json_request_decodes [OF bits_codec_ok okq], where auditor = True and s = New]
  have "stored_metric (Counters New) (NewCounter ''a'' 5) = NewCounter ''a'' 5"
    by (simp add: stored_metric_def New_def zero_metrics_def NewCounter_def)
  with inst show ?thesis by (auto split: prod.splits)
qed

section \<open>One answer per request\<close>

text \<open>
  Every handler starts its response at most once, on every branch and over every store:
  no status is set after another or after a part of the body, so the status and the headers
  the client sees are the ones the branch that answers chose.
\<close>

theorem handlers_answer_once:
  "starts_once (fst (post_handler fc repo auditor r s)) \<and>
   starts_once (fst (update_handler fc repo auditor r s)) \<and>
   starts_once (fst (updates_handler fc repo auditor r s)) \<and>
   starts_once (fst (value_handler fc repo r s)) \<and>
   starts_once (fst (get_handler fc repo r s)) \<and>
   starts_once (fst (html_handler f repo r s)) \<and>
   starts_once (fst (ping_handler db r s))"
proof (intro conjI)
  have once: "starts_once [WHeader c]" "starts_once (bad_mtype c)" "starts_once bad_content_type"
      "starts_once [WSet k v, WHeader c]" "starts_once [WSet k v, WHeader c, WWrite b]"
      "starts_once [WSet k v, WWrite b]" "starts_once (WSet k v # http_Error m c)" for c k v b m
    by (simp_all add: bad_mtype_def bad_content_type_def)
  show "starts_once (fst (post_handler fc repo auditor r s))"
    by (simp add: post_handler_def Let_def once split: sum.split prod.split)
  show "starts_once (fst (update_handler fc repo auditor r s))"
    by (simp add: update_handler_def Let_def once split: sum.split prod.split option.split)
  have "validate_batch b = Some as \<Longrightarrow> starts_once as" for b as
    by (induction b) (auto simp: once split: if_splits)
  then show "starts_once (fst (updates_handler fc repo auditor r s))"
    by (simp add: updates_handler_def once split: sum.split prod.split option.split)
  show "starts_once (fst (value_handler fc repo r s))"
    by (simp add: value_handler_def Let_def once split: sum.split prod.split)
  show "starts_once (fst (get_handler fc repo r s))"
    by (simp add: get_handler_def Let_def once split: sum.split prod.split)
  have "starts_once (WSet k v # map WWrite bs)" for k v bs
    by (cases bs) (simp_all add: list_all_iff)
  then show "starts_once (fst (html_handler f repo r s))"
    by (simp add: html_handler_def Let_def split_beta)
  show "starts_once (fst (ping_handler db r s))"
    by (simp add: ping_handler_def once split: option.split)
qed

section \<open>The PostgreSQL store\<close>

text \<open>
  The PostgreSQL store refines the in-memory one: while the database answers and no
  counter leaves the range of \<open>bigint\<close>, the same updates from the same contents leave the
  same counters and the same gauges in both.
\<close>

theorem pg_refines_memory:
  assumes "pg_ok (pg_table p)"
    and "pg_counters (pg_table p) = Counters s" "pg_gauges (pg_table p) = Gauges s"
    and "batch_accepts bigint_add_ok (Counters s) (concat (map update_metrics us))"
  shows "pg_counters (pg_table (run_updates (pg_repo (clean_env ce) ctx_background) us p))
           = Counters (run_updates mem_repo us s) \<and>
         pg_gauges (pg_table (run_updates (pg_repo (clean_env ce) ctx_background) us p))
           = Gauges (run_updates mem_repo us s)"
  using pg.run_updates_view [of p us ce] assms by (simp add: mem_run_updates)

theorem pg_refines_memory_witness:
  "pg_counters (pg_table (run_updates (pg_repo (clean_env (\<lambda>_. False)) ctx_background)
      [UpdCounter ''a'' 5, UpdBatch [NewCounter ''a'' 2]] empty_db)) ''a'' = Some 7"
proof -
  let ?us = "[UpdCounter ''a'' 5, UpdBatch [NewCounter ''a'' 2]]"
  have "pg_ok (pg_table empty_db)" "pg_counters (pg_table empty_db) = Counters New"
      "pg_gauges (pg_table empty_db) = Gauges New"
    by (simp_all add: pg_ok_def empty_db_def pg_counters_def pg_gauges_def New_def fun_eq_iff)
  moreover have "batch_accepts bigint_add_ok (Counters New) (concat (map update_metrics ?us))"
    by (simp add: bigint_add_ok_def New_def)
  ultimately have "pg_counters (pg_table (run_updates (pg_repo (clean_env (\<lambda>_. False)) ctx_background) ?us empty_db))
      = Counters (run_updates mem_repo ?us New)"
    using pg_refines_memory by blast
  moreover have "Counters (run_updates mem_repo ?us New) ''a'' = Some 7"
    unfolding mem_run_updates by (simp add: New_def)
  ultimately show ?thesis by simp
qed

end
