(* ===== verification/Security.thy ===== *)
theory Security
  imports Strconv
begin

text \<open>
  \<open>internal/hash\<close>, \<open>internal/rsaenc\<close> and \<open>internal/realip\<close>: request signatures, hybrid
  encryption and the trusted subnet. The cryptographic primitives are parameters; what the
  code relies on of them is stated as named laws.
\<close>

section \<open>Signatures\<close>

text \<open>\<open>mac key data\<close> is the HMAC-SHA256 of the standard library: 32 bytes.\<close>

type_synonym mac = "bytes \<Rightarrow> bytes \<Rightarrow> bytes"

definition hash_Header :: string where "hash_Header = ''HashSHA256''"

definition Sign :: "mac \<Rightarrow> bytes \<Rightarrow> bytes \<Rightarrow> string" where
  "Sign mac data key = hex_encode (mac key data)"

definition Valid :: "mac \<Rightarrow> bytes \<Rightarrow> bytes \<Rightarrow> string \<Rightarrow> bool" where
  "Valid mac data key signature =
     (case hex_decode signature of Inl e \<Rightarrow> False | Inr got \<Rightarrow> got = mac key data)"

text \<open>
  A signature is accepted for exactly the data with its MAC: signing validates under the same
  key, and the signature of some data under some key validates for other data or another key only when
  the two MACs are equal; anything that is not hexadecimal is refused.
\<close>

theorem sign_valid:
  "Valid mac data key (Sign mac data key) \<and>
   Valid mac data' key' (Sign mac data key) = (mac key' data' = mac key data) \<and>
   (case hex_decode sig of Inl e \<Rightarrow> \<not> Valid mac data key sig | Inr got \<Rightarrow> Valid mac data key sig = (got = mac key data))"
  by (auto simp: Valid_def Sign_def hex_decode_encode split: sum.split)

section \<open>Hybrid encryption\<close>

text \<open>
  A key pair with the primitives: RSA-OAEP with its modulus length, AES-GCM with its nonce
  length. Their randomness is an argument; \<open>rnd\<close> carries what \<open>crypto/rand\<close> returns.
\<close>

record key_pair =
  rsa_Size :: nat
  EncryptOAEP :: "bytes \<Rightarrow> bytes \<Rightarrow> bytes result"
  DecryptOAEP :: "bytes \<Rightarrow> bytes result"
  NonceSize :: nat
  gcm_Seal :: "bytes \<Rightarrow> bytes \<Rightarrow> bytes \<Rightarrow> bytes"
  gcm_Open :: "bytes \<Rightarrow> bytes \<Rightarrow> bytes \<Rightarrow> bytes result"

record randomness =
  rnd_key :: "bytes result"
  rnd_oaep :: bytes
  rnd_nonce :: "bytes result"

definition rsa_Header :: string where "rsa_Header = ''X-Encrypted''"
definition rsa_HeaderValue :: string where "rsa_HeaderValue = ''1''"

text \<open>The AES key lengths; \<open>aes.NewCipher\<close> refuses others.\<close>

definition aes_key_ok :: "bytes \<Rightarrow> bool" where
  "aes_key_ok k \<longleftrightarrow> length k \<in> {16, 24, 32}"

definition sealAESGCM :: "key_pair \<Rightarrow> bytes result \<Rightarrow> bytes \<Rightarrow> bytes \<Rightarrow> (bytes \<times> bytes) result" where
  "sealAESGCM kp rn aesKey plaintext =
     (if \<not> aes_key_ok aesKey then Inl (ErrWrap ''aes'' (ErrText ''invalid key size''))
      else rbind (wrap_err ''nonce'' rn) (\<lambda>nonce. Inr (nonce, gcm_Seal kp aesKey nonce plaintext)))"

definition openAESGCM :: "key_pair \<Rightarrow> bytes \<Rightarrow> bytes \<Rightarrow> bytes result" where
  "openAESGCM kp aesKey rest =
     (if \<not> aes_key_ok aesKey then Inl (ErrWrap ''aes'' (ErrText ''invalid key size''))
      else if length rest < NonceSize kp then Inl (ErrText ''ciphertext too short'')
      else wrap_err ''gcm open'' (gcm_Open kp aesKey (take (NonceSize kp) rest) (drop (NonceSize kp) rest)))"

text \<open>\<open>None\<close> is a nil key: the text is left in the clear.\<close>

definition Encrypt :: "key_pair option \<Rightarrow> randomness \<Rightarrow> bytes \<Rightarrow> bytes result" where
  "Encrypt pub rnd plaintext =
     (case pub of None \<Rightarrow> Inr plaintext
      | Some kp \<Rightarrow>
          rbind (wrap_err ''generate aes key'' (rnd_key rnd)) (\<lambda>aesKey.
          rbind (wrap_err ''rsa-oaep'' (EncryptOAEP kp (rnd_oaep rnd) aesKey)) (\<lambda>encKey.
          rbind (sealAESGCM kp (rnd_nonce rnd) aesKey plaintext) (\<lambda>(nonce, sealed).
          Inr (encKey @ nonce @ sealed)))))"

definition Decrypt :: "key_pair option \<Rightarrow> bytes \<Rightarrow> bytes result" where
  "Decrypt priv ciphertext =
     (case priv of None \<Rightarrow> Inr ciphertext
      | Some kp \<Rightarrow>
          if length ciphertext < rsa_Size kp then Inl (ErrText ''ciphertext too short'')
          else rbind (wrap_err ''rsa-oaep'' (DecryptOAEP kp (take (rsa_Size kp) ciphertext))) (\<lambda>aesKey.
            if length aesKey \<noteq> 32 then Inl (ErrText ''unexpected aes key length'')
            else openAESGCM kp aesKey (drop (rsa_Size kp) ciphertext)))"

text \<open>
  The documented behaviour of the primitives: an OAEP ciphertext has the length of the modulus
  and opens to the message, a GCM box opens to the plaintext; \<open>rand.Read\<close> fills the buffer it is given.
\<close>

definition crypto_ok :: "key_pair \<Rightarrow> bool" where
  "crypto_ok kp \<longleftrightarrow>
     (\<forall>r k c. EncryptOAEP kp r k = Inr c \<longrightarrow> length c = rsa_Size kp \<and> DecryptOAEP kp c = Inr k) \<and>
     (\<forall>k n p. gcm_Open kp k n (gcm_Seal kp k n p) = Inr p)"

definition rand_ok :: "key_pair \<Rightarrow> randomness \<Rightarrow> bool" where
  "rand_ok kp rnd \<longleftrightarrow>
     (case rnd_key rnd of Inl e \<Rightarrow> True | Inr k \<Rightarrow> length k = 32) \<and>
     (case rnd_nonce rnd of Inl e \<Rightarrow> True | Inr n \<Rightarrow> length n = NonceSize kp)"

lemma decrypt_encrypt_key:
  assumes "crypto_ok kp" "rand_ok kp rnd" "Encrypt (Some kp) rnd plain = Inr c"
  shows "Decrypt (Some kp) c = Inr plain"
proof -
  from assms(3) obtain k ek n where k: "rnd_key rnd = Inr k" and ek: "EncryptOAEP kp (rnd_oaep rnd) k = Inr ek"
    and n: "rnd_nonce rnd = Inr n" and c: "c = ek @ n @ gcm_Seal kp k n plain"
    by (auto simp: Encrypt_def sealAESGCM_def rbind_Inr_iff split: if_splits)
  from assms(2) k n have len: "length k = 32" "length n = NonceSize kp" by (simp_all add: rand_ok_def)
  from assms(1) ek have "length ek = rsa_Size kp" "DecryptOAEP kp ek = Inr k"
    by (simp_all add: crypto_ok_def)
  with assms(1) len show ?thesis
    by (simp add: Decrypt_def openAESGCM_def aes_key_ok_def c crypto_ok_def)
qed

text \<open>
  C31: What the agent encrypts the server decrypts: whenever encryption succeeds, decryption
  with the other key of the pair gives back the plaintext; without keys the text goes through
  unchanged; and a ciphertext shorter than the modulus is refused before any decryption.
\<close>

theorem decrypt_encrypt:
  assumes "crypto_ok kp" "rand_ok kp rnd" "Encrypt (map_option (\<lambda>_. kp) k) rnd plain = Inr c"
  shows "Decrypt (map_option (\<lambda>_. kp) k) c = Inr plain \<and>
         (length short < rsa_Size kp \<longrightarrow> Decrypt (Some kp) short = Inl (ErrText ''ciphertext too short''))"
  using assms decrypt_encrypt_key [OF assms(1,2), of plain c]
  by (cases k) (simp_all add: Decrypt_def Encrypt_def)

text \<open>A key pair that keeps the laws, for concrete evaluations.\<close>

definition plain_pair :: key_pair where
  "plain_pair =
     \<lparr>rsa_Size = 32, EncryptOAEP = (\<lambda>r k. if length k = 32 then Inr k else Inl (ErrText ''message too long'')),
      DecryptOAEP = (\<lambda>c. Inr c), NonceSize = 1, gcm_Seal = (\<lambda>k n p. rev p), gcm_Open = (\<lambda>k n c. Inr (rev c))\<rparr>"

definition plain_random :: randomness where
  "plain_random = \<lparr>rnd_key = Inr (replicate 32 (CHR ''k'')), rnd_oaep = [], rnd_nonce = Inr ''n''\<rparr>"

lemma plain_pair_ok: "crypto_ok plain_pair" "rand_ok plain_pair plain_random"
  by (simp_all add: crypto_ok_def rand_ok_def plain_pair_def plain_random_def)

theorem decrypt_encrypt_witness:
  "Encrypt (Some plain_pair) plain_random ''abc'' = Inr (replicate 32 (CHR ''k'') @ ''ncba'') \<and>
   Decrypt (Some plain_pair) (replicate 32 (CHR ''k'') @ ''ncba'') = Inr ''abc''"
proof -
  have "Encrypt (Some plain_pair) plain_random ''abc'' = Inr (replicate 32 (CHR ''k'') @ ''ncba'')"
    by (simp add: Encrypt_def sealAESGCM_def aes_key_ok_def plain_pair_def plain_random_def)
  with decrypt_encrypt [OF plain_pair_ok, of "Some ()" "''abc''"] show ?thesis by simp
qed

section \<open>Key files\<close>

text \<open>
  Loading a key: the PEM block of the file and the parsers of \<open>crypto/x509\<close> are parameters;
  a PKIX or PKCS#8 structure may hold a key that is not RSA (\<open>None\<close>).
\<close>

definition LoadPublicKey ::
  "(string \<Rightarrow> bytes result) \<Rightarrow> (bytes \<Rightarrow> bytes option) \<Rightarrow> (bytes \<Rightarrow> 'k option result) \<Rightarrow> (bytes \<Rightarrow> 'k result) \<Rightarrow>
   string \<Rightarrow> 'k result" where
  "LoadPublicKey ReadFile pem ParsePKIX ParsePKCS1 path =
     rbind (wrap_err ''read public key'' (ReadFile path)) (\<lambda>data.
       case pem data of None \<Rightarrow> Inl (ErrWrap ''public key'' (ErrText ''pem block not found''))
       | Some block \<Rightarrow>
           (case ParsePKIX block of
              Inr (Some pub) \<Rightarrow> Inr pub
            | Inr None \<Rightarrow> Inl (ErrText ''not an rsa public key'')
            | Inl _ \<Rightarrow> wrap_err ''parse public key'' (ParsePKCS1 block)))"

definition LoadPrivateKey ::
  "(string \<Rightarrow> bytes result) \<Rightarrow> (bytes \<Rightarrow> bytes option) \<Rightarrow> (bytes \<Rightarrow> 'k result) \<Rightarrow> (bytes \<Rightarrow> 'k option result) \<Rightarrow>
   string \<Rightarrow> 'k result" where
  "LoadPrivateKey ReadFile pem ParsePKCS1 ParsePKCS8 path =
     rbind (wrap_err ''read private key'' (ReadFile path)) (\<lambda>data.
       case pem data of None \<Rightarrow> Inl (ErrWrap ''private key'' (ErrText ''pem block not found''))
       | Some block \<Rightarrow>
           (case ParsePKCS1 block of
              Inr key \<Rightarrow> Inr key
            | Inl _ \<Rightarrow>
                rbind (wrap_err ''parse private key'' (ParsePKCS8 block)) (\<lambda>parsed.
                  case parsed of Some key \<Rightarrow> Inr key | None \<Rightarrow> Inl (ErrText ''not an rsa private key''))))"

section \<open>Addresses\<close>

text \<open>
  A parsed address after \<open>To4\<close>: an IPv6 address of the mapped range is the IPv4 address.
  The IPv6 text syntax is a parameter (\<open>None\<close> also for an address with a zone).
\<close>

datatype ip_addr = V4 "32 word" | V6 "128 word"

definition unmap :: "128 word \<Rightarrow> ip_addr" where
  "unmap w = (if drop_bit 32 w = 0xFFFF then V4 (ucast w) else V6 w)"

text \<open>One field of a dotted quad: one to three digits, no leading zero, below 256.\<close>

definition ip4_field :: "string \<Rightarrow> nat option" where
  "ip4_field s =
     (if s = [] \<or> \<not> list_all is_digit s \<or> 1 < length s \<and> hd s = CHR ''0'' then None
      else (let v = foldl (\<lambda>n c. 10 * n + digit_val c) 0 s in if 255 < v then None else Some v))"

definition parse_ip4 :: "string \<Rightarrow> (32 word) option" where
  "parse_ip4 s =
     (case map ip4_field (split_on (CHR ''.'') s) of
        [Some a, Some b, Some c, Some d] \<Rightarrow> Some (of_nat (((a * 256 + b) * 256 + c) * 256 + d))
      | _ \<Rightarrow> None)"

text \<open>\<open>ParseAddr\<close> decides by the first dot, colon or percent sign.\<close>

definition ip_ParseAddr :: "(string \<Rightarrow> (128 word) option) \<Rightarrow> string \<Rightarrow> (32 word + 128 word) option" where
  "ip_ParseAddr parse6 s =
     (case filter (\<lambda>c. c \<in> {CHR ''.'', CHR '':'', CHR 0x25}) s of
        [] \<Rightarrow> None
      | c # _ \<Rightarrow> if c = CHR ''.'' then map_option Inl (parse_ip4 s)
                 else if c = CHR '':'' then map_option Inr (parse6 s) else None)"

definition ip_Parse :: "(string \<Rightarrow> (128 word) option) \<Rightarrow> string \<Rightarrow> ip_addr option" where
  "ip_Parse parse6 s =
     (case ip_ParseAddr parse6 s of None \<Rightarrow> None | Some (Inl a) \<Rightarrow> Some (V4 a) | Some (Inr w) \<Rightarrow> Some (unmap w))"

text \<open>A network: its address with the host bits cleared and the number of host bits.\<close>

datatype ip_net = Net4 "32 word" nat | Net6 "128 word" nat

definition clear_low :: "nat \<Rightarrow> 'a::len word \<Rightarrow> 'a word" where
  "clear_low k w = push_bit k (drop_bit k w)"

definition digits_nat :: "string \<Rightarrow> nat option" where
  "digits_nat s =
     (if s = [] \<or> \<not> list_all is_digit s then None
      else (let v = foldl (\<lambda>n c. 10 * n + digit_val c) 0 s in if 0xFFFFFF \<le> v then None else Some v))"

definition net_ParseCIDR :: "(string \<Rightarrow> (128 word) option) \<Rightarrow> string \<Rightarrow> ip_net result" where
  "net_ParseCIDR parse6 s =
     (let addr = takeWhile (\<lambda>c. c \<noteq> CHR ''/'') s; r = dropWhile (\<lambda>c. c \<noteq> CHR ''/'') s;
          bad = Inl (ErrText ''invalid CIDR address'')
      in if r = [] then bad
         else case ip_ParseAddr parse6 addr of None \<Rightarrow> bad
         | Some a \<Rightarrow>
             (case digits_nat (tl r) of None \<Rightarrow> bad
              | Some n \<Rightarrow>
                  (case a of
                     Inl w \<Rightarrow> if 32 < n then bad else Inr (Net4 (clear_low (32 - n) w) (32 - n))
                   | Inr w \<Rightarrow> if 128 < n then bad
                              else (case unmap (clear_low (128 - n) w) of
                                      V4 v \<Rightarrow> Inr (Net4 v (128 - n)) | V6 v \<Rightarrow> Inr (Net6 v (128 - n))))))"

fun net_Contains :: "ip_net \<Rightarrow> ip_addr \<Rightarrow> bool" where
  "net_Contains (Net4 n k) (V4 a) = (clear_low k n = clear_low k a)"
| "net_Contains (Net6 n k) (V6 a) = (clear_low k n = clear_low k a)"
| "net_Contains _ _ = False"

section \<open>The trusted subnet\<close>

definition realip_Header :: string where "realip_Header = ''X-Real-IP''"

definition ParseCIDR :: "(string \<Rightarrow> (128 word) option) \<Rightarrow> string \<Rightarrow> ip_net option result" where
  "ParseCIDR parse6 cidr =
     (if cidr = [] then Inr None
      else rbind (wrap_err ''invalid trusted_subnet'' (net_ParseCIDR parse6 cidr)) (\<lambda>n. Inr (Some n)))"

definition Allowed :: "(string \<Rightarrow> (128 word) option) \<Rightarrow> ip_net option \<Rightarrow> string \<Rightarrow> bool" where
  "Allowed parse6 network raw =
     (case network of None \<Rightarrow> True
      | Some n \<Rightarrow> (case ip_Parse parse6 raw of None \<Rightarrow> False | Some ip \<Rightarrow> net_Contains n ip))"

text \<open>
  The host's own address: of an outbound socket, else of the first interface with a
  non-loopback IPv4 address. Both are what the network reports; an address is its text and
  whether it is a loopback address and an IPv4 address.
\<close>

record iface_addr =
  if_ipnet :: bool
  if_loopback :: bool
  if_ip4 :: "string option"

definition outboundIPv4 :: "(go_error + string option) \<Rightarrow> string" where
  "outboundIPv4 dial = (case dial of Inl e \<Rightarrow> [] | Inr None \<Rightarrow> [] | Inr (Some s) \<Rightarrow> s)"

fun first_ip4 :: "iface_addr list \<Rightarrow> string" where
  "first_ip4 [] = []"
| "first_ip4 (a # as) =
     (if \<not> if_ipnet a \<or> if_loopback a then first_ip4 as
      else case if_ip4 a of Some s \<Rightarrow> s | None \<Rightarrow> first_ip4 as)"

definition firstNonLoopbackIPv4 :: "iface_addr list result \<Rightarrow> string" where
  "firstNonLoopbackIPv4 addrs = (case addrs of Inl e \<Rightarrow> [] | Inr as \<Rightarrow> first_ip4 as)"

definition realip_Host :: "(go_error + string option) \<Rightarrow> iface_addr list result \<Rightarrow> string" where
  "realip_Host dial addrs =
     (if outboundIPv4 dial \<noteq> [] then outboundIPv4 dial
      else if firstNonLoopbackIPv4 addrs \<noteq> [] then firstNonLoopbackIPv4 addrs
      else ''127.0.0.1'')"

lemma drop_bit_clear_low [simp]: "drop_bit k (clear_low k w) = drop_bit k (w :: 'a::len word)"
  by (rule bit_word_eqI) (auto simp: clear_low_def bit_simps dest: bit_imp_le_length)

lemma clear_low_eq: "clear_low k x = clear_low k y \<longleftrightarrow> drop_bit k x = drop_bit k (y :: 'a::len word)"
  by (metis drop_bit_clear_low clear_low_def)

lemma foldl_digits:
  "foldl (\<lambda>n c. 10 * n + digit_val c) a (show_nat n) = a * 10 ^ length (show_nat n) + n"
proof (induction n arbitrary: a rule: show_nat.induct)
  case (1 n)
  show ?case
  proof (cases "n < 10")
    case True
    then show ?thesis by (subst (1 2) show_nat.simps) simp
  next
    case False
    have s: "show_nat n = show_nat (n div 10) @ [digit_char (n mod 10)]"
      using False by (subst show_nat.simps) simp
    have "10 * (n div 10) + n mod 10 = n" by simp
    then show ?thesis using 1 [OF False, of a] by (simp add: s algebra_simps)
  qed
qed

lemma digits_nat_show: "n < 0xFFFFFF \<Longrightarrow> digits_nat (show_nat n) = Some n"
  using show_nat_digits [of n] foldl_digits [of 0 n] by (simp add: digits_nat_def list_all_iff)

text \<open>
  C30: The trusted subnet is the CIDR block it is written as: for an IPv4 block \<open>addr/n\<close>,
  parsing succeeds exactly when \<open>n\<close> is at most 32, and an \<open>X-Real-IP\<close> value is allowed exactly
  when it parses as an address (IPv4, or IPv4 mapped into IPv6) that agrees with \<open>addr\<close> on the
  first \<open>n\<close> bits; an empty header and any text that is not an address are refused. Without a
  configured subnet everything is allowed.
\<close>

theorem subnet_is_cidr_block:
  assumes addr: "ip_ParseAddr parse6 addr = Some (Inl w)" "CHR ''/'' \<notin> set addr" and n: "n < 0xFFFFFF"
  shows "(case ParseCIDR parse6 (addr @ CHR ''/'' # show_nat n) of
            Inl e \<Rightarrow> 32 < n
          | Inr net \<Rightarrow> n \<le> 32 \<and>
              Allowed parse6 net raw =
                (case ip_Parse parse6 raw of
                   Some (V4 a) \<Rightarrow> drop_bit (32 - n) a = drop_bit (32 - n) w
                 | _ \<Rightarrow> False)) \<and>
         ParseCIDR parse6 [] = Inr None \<and> Allowed parse6 None raw"
proof -
  have tw: "takeWhile (\<lambda>c. c \<noteq> CHR ''/'') (addr @ CHR ''/'' # show_nat n) = addr"
      "dropWhile (\<lambda>c. c \<noteq> CHR ''/'') (addr @ CHR ''/'' # show_nat n) = CHR ''/'' # show_nat n"
    using addr(2) by (simp_all add: takeWhile_append dropWhile_append)
  have net: "net_ParseCIDR parse6 (addr @ CHR ''/'' # show_nat n) =
      (if 32 < n then Inl (ErrText ''invalid CIDR address'') else Inr (Net4 (clear_low (32 - n) w) (32 - n)))"
    unfolding net_ParseCIDR_def Let_def tw using addr(1) digits_nat_show [OF n] by simp
  show ?thesis
  proof (cases "32 < n")
    case True
    then show ?thesis by (simp add: ParseCIDR_def net Allowed_def)
  next
    case False
    then show ?thesis
      by (auto simp: ParseCIDR_def net Allowed_def clear_low_eq split: option.split ip_addr.split)
  qed
qed

theorem subnet_is_cidr_block_witness:
  "case ParseCIDR (\<lambda>_. None) (''10.1.0.0'' @ CHR ''/'' # show_nat 8) of
     Inl e \<Rightarrow> False
   | Inr net \<Rightarrow> Allowed (\<lambda>_. None) net ''10.200.3.4'' \<and> \<not> Allowed (\<lambda>_. None) net []"
proof -
  have a: "ip_ParseAddr (\<lambda>_. None) ''10.1.0.0'' = Some (Inl (0x0A010000 :: 32 word))" "CHR ''/'' \<notin> set ''10.1.0.0''"
    by (simp_all add: ip_ParseAddr_def parse_ip4_def ip4_field_def is_digit_def digit_val_def Let_def)
  have b: "ip_Parse (\<lambda>_. None) ''10.200.3.4'' = Some (V4 (0x0AC80304 :: 32 word))" "ip_Parse (\<lambda>_. None) [] = None"
    by (simp_all add: ip_Parse_def ip_ParseAddr_def parse_ip4_def ip4_field_def is_digit_def digit_val_def Let_def)
  have d: "drop_bit 24 (0x0AC80304 :: 32 word) = drop_bit 24 (0x0A010000 :: 32 word)" by simp
  have n: "(8 :: nat) < 0xFFFFFF" by simp
  from subnet_is_cidr_block [OF a n, of "''10.200.3.4''"] subnet_is_cidr_block [OF a n, of "[]"] b d
  show ?thesis by (simp split: sum.splits)
qed

end
