(* ===== verification/Middleware.thy ===== *)
theory Middleware
  imports Http Security
begin

text \<open>
  \<open>internal/middleware\<close>: the middlewares of the server as functions on handlers. A wrapped
  \<open>ResponseWriter\<close> is a function on the actions of the inner handler.
\<close>

section \<open>Access log\<close>

text \<open>
  What the wrapped writer reports of a response: the status of the first header (0 when there
  was none) and the bytes written. Nothing is wrapped unless debug records are enabled.
\<close>

fun logged_status :: "waction list \<Rightarrow> nat" where
  "logged_status [] = 0"
| "logged_status (WHeader c # as) = c"
| "logged_status (WWrite b # as) = 200"
| "logged_status (a # as) = logged_status as"

type_synonym log_entry = "string \<times> string \<times> nat \<times> nat"

definition logger_mw ::
  "bool \<Rightarrow> ('s, 'e) handler \<Rightarrow> request \<Rightarrow> 's \<Rightarrow> (waction list \<times> 's \<times> 'e list) \<times> log_entry list" where
  "logger_mw debug nxt r s =
     (case nxt r s of (as, s', ev) \<Rightarrow>
        ((as, s', ev),
         if debug then [(rq_method r, rq_path r, logged_status as, length (written as))] else []))"

section \<open>Trusted subnet\<close>

definition subnet_mw ::
  "(string \<Rightarrow> (128 word) option) \<Rightarrow> ip_net \<Rightarrow> ('s, 'e) handler \<Rightarrow> ('s, 'e) handler" where
  "subnet_mw parse6 network nxt r s =
     (if \<not> Allowed parse6 (Some network) (rq_header r realip_Header)
      then (http_Error ''forbidden'' 403, s, [])
      else nxt r s)"

section \<open>Decryption\<close>

definition decrypt_mw :: "key_pair \<Rightarrow> ('s, 'e) handler \<Rightarrow> ('s, 'e) handler" where
  "decrypt_mw priv nxt r s =
     (if rq_header r rsa_Header = [] then nxt r s
      else case read_all (rq_body r) of
        Inl e \<Rightarrow> (http_Error ''failed to read request body'' 400, s, [])
      | Inr body \<Rightarrow>
          (case Decrypt (Some priv) body of
             Inl e \<Rightarrow> (http_Error ''failed to decrypt request body'' 400, s, [])
           | Inr plain \<Rightarrow>
               nxt (r\<lparr>rq_body := (plain, None),
                      rq_header := (rq_header r)(''Content-Length'' := [])\<rparr>) s))"

section \<open>Signatures\<close>

text \<open>The buffering writer: the header map is shared, status and body are kept until the flush.\<close>

record sign_writer =
  sw_out :: "waction list"
  sw_body :: bytes
  sw_status :: nat
  sw_wroteHeader :: bool

definition sw_WriteHeader :: "nat \<Rightarrow> sign_writer \<Rightarrow> sign_writer" where
  "sw_WriteHeader code w = (if sw_wroteHeader w then w else w\<lparr>sw_status := code, sw_wroteHeader := True\<rparr>)"

fun sw_step :: "waction \<Rightarrow> sign_writer \<Rightarrow> sign_writer" where
  "sw_step (WHeader code) w = sw_WriteHeader code w"
| "sw_step (WWrite b) w =
     (let w' = (if sw_wroteHeader w then w else sw_WriteHeader 200 w) in w'\<lparr>sw_body := sw_body w' @ b\<rparr>)"
| "sw_step a w = w\<lparr>sw_out := sw_out w @ [a]\<rparr>"

definition sw_flush :: "mac \<Rightarrow> bytes \<Rightarrow> sign_writer \<Rightarrow> waction list" where
  "sw_flush mac key w =
     sw_out w @ [WSet hash_Header (Sign mac (sw_body w) key), WHeader (sw_status w)] @
     (if sw_body w = [] then [] else [WWrite (sw_body w)])"

definition sign_actions :: "mac \<Rightarrow> bytes \<Rightarrow> waction list \<Rightarrow> waction list" where
  "sign_actions mac key as =
     sw_flush mac key (fold sw_step as \<lparr>sw_out = [], sw_body = [], sw_status = 200, sw_wroteHeader = False\<rparr>)"

definition sign_mw :: "mac \<Rightarrow> bytes \<Rightarrow> ('s, 'e) handler \<Rightarrow> ('s, 'e) handler" where
  "sign_mw mac key nxt r s =
     (case read_all (rq_body r) of
        Inl e \<Rightarrow> (http_Error ''failed to read request body'' 400, s, [])
      | Inr body \<Rightarrow>
          (let signature = rq_header r hash_Header in
           if signature \<noteq> [] \<and> \<not> Valid mac body key signature
           then (http_Error ''invalid signature'' 400, s, [])
           else (case nxt (r\<lparr>rq_body := (body, None)\<rparr>) s of
                   (as, s', ev) \<Rightarrow> (sign_actions mac key as, s', ev))))"

section \<open>Compression\<close>

text \<open>
  The writer that compresses: its view of the header map, whether something was written,
  the open compressor with the bytes given to it, and its calls on the underlying writer. The
  compressor's output is complete when it is closed.
\<close>

record gzip_writer =
  gz_live :: "string \<rightharpoonup> string"
  gz_written :: bool
  gz_writer :: "bytes option"
  gz_out :: "waction list"

definition gz_init :: gzip_writer where
  "gz_init = \<lparr>gz_live = Map.empty, gz_written = False, gz_writer = None, gz_out = []\<rparr>"

definition compressibleType :: "string \<Rightarrow> bool" where
  "compressibleType t \<longleftrightarrow> t = ''text/html'' \<or> t = ''application/json''"

definition shouldCompress :: "(string \<rightharpoonup> string) \<Rightarrow> bool" where
  "shouldCompress h =
     compressibleType (trim_space (takeWhile (\<lambda>c. c \<noteq> CHR '';'')
       (case h ''Content-Type'' of None \<Rightarrow> [] | Some t \<Rightarrow> t)))"

fun gz_step :: "waction \<Rightarrow> gzip_writer \<Rightarrow> gzip_writer" where
  "gz_step (WSet k v) g = g\<lparr>gz_live := (gz_live g)(k \<mapsto> v), gz_out := gz_out g @ [WSet k v]\<rparr>"
| "gz_step (WDel k) g = g\<lparr>gz_live := (gz_live g)(k := None), gz_out := gz_out g @ [WDel k]\<rparr>"
| "gz_step (WHeader code) g =
     (if shouldCompress (gz_live g)
      then g\<lparr>gz_live := (gz_live g)(''Content-Encoding'' \<mapsto> ''gzip'', ''Content-Length'' := None),
             gz_out := gz_out g @
               [WSet ''Content-Encoding'' ''gzip'', WDel ''Content-Length'', WHeader code]\<rparr>
      else g\<lparr>gz_out := gz_out g @ [WHeader code]\<rparr>)"
| "gz_step (WWrite data) g =
     (if gz_written g then
        (case gz_writer g of
           Some buf \<Rightarrow> g\<lparr>gz_writer := Some (buf @ data)\<rparr>
         | None \<Rightarrow> g\<lparr>gz_out := gz_out g @ [WWrite data]\<rparr>)
      else if gz_live g ''Content-Encoding'' = Some ''gzip''
      then g\<lparr>gz_written := True, gz_writer := Some data\<rparr>
      else g\<lparr>gz_written := True, gz_out := gz_out g @ [WWrite data]\<rparr>)"

definition gz_Close :: "(bytes \<Rightarrow> bytes) \<Rightarrow> gzip_writer \<Rightarrow> waction list" where
  "gz_Close gzip g =
     gz_out g @ (case gz_writer g of None \<Rightarrow> [] | Some buf \<Rightarrow> [WWrite (gzip buf)])"

definition compress_actions :: "(bytes \<Rightarrow> bytes) \<Rightarrow> waction list \<Rightarrow> waction list" where
  "compress_actions gzip as = gz_Close gzip (fold gz_step as gz_init)"

definition acceptsGzip :: "string \<Rightarrow> bool" where
  "acceptsGzip accept = list_ex (\<lambda>enc. has_prefix (trim_space enc) ''gzip'') (split_on (CHR '','') accept)"

text \<open>
  \<open>gunzip\<close> is \<open>gzip.NewReader\<close>: \<open>None\<close> when the header is invalid, else the stream it reads.
\<close>

definition compress_mw ::
  "(bytes \<Rightarrow> bytes) \<Rightarrow> (stream \<Rightarrow> stream option) \<Rightarrow> ('s, 'e) handler \<Rightarrow> ('s, 'e) handler" where
  "compress_mw gzip gunzip nxt r s =
     (if has_prefix (rq_path r) ''/debug/pprof'' then nxt r s
      else
        (let body = (if str_contains (rq_header r ''Content-Encoding'') ''gzip''
                     then gunzip (rq_body r) else Some (rq_body r))
         in case body of
              None \<Rightarrow> (http_Error ''invalid gzip body'' 400, s, [])
            | Some b \<Rightarrow>
                (let r' = r\<lparr>rq_body := b\<rparr> in
                 if \<not> acceptsGzip (rq_header r ''Accept-Encoding'') then nxt r' s
                 else (case nxt r' s of (as, s', ev) \<Rightarrow> (compress_actions gzip as, s', ev)))))"


section \<open>What signing preserves\<close>

lemma sw_fold:
  "fold sw_step as w = w' \<Longrightarrow>
   sw_body w' = sw_body w @ written as \<and>
   sw_status w' = (if sw_wroteHeader w then sw_status w
                   else case rs_head (rs_run as (rs\<lparr>rs_head := None\<rparr>)) of None \<Rightarrow> sw_status w | Some h \<Rightarrow> fst h) \<and>
   list_all (\<lambda>a. (\<forall>c. a \<noteq> WHeader c) \<and> (\<forall>b. a \<noteq> WWrite b)) (sw_out w') =
   list_all (\<lambda>a. (\<forall>c. a \<noteq> WHeader c) \<and> (\<forall>b. a \<noteq> WWrite b)) (sw_out w)"
proof (induction as arbitrary: w rs)
  case Nil
  then show ?case by auto
next
  case (Cons a as)
  have upd: "rs\<lparr>rs_head := None, rs_live := l\<rparr> = (rs\<lparr>rs_live := l\<rparr>)\<lparr>rs_head := None\<rparr>" for l by simp
  have started: "rs_head (rs_run as (rs\<lparr>rs_head := Some h\<rparr>)) = Some h" for h
    by (rule rs_head_started) simp
  have started': "rs_head (rs_run as (rs\<lparr>rs_head := Some h, rs_body := b\<rparr>)) = Some h" for h b
    by (rule rs_head_started) simp
  show ?case
  proof (cases a)
    case (WSet k v)
    with Cons.prems Cons.IH [of "sw_step (WSet k v) w" "rs\<lparr>rs_live := (rs_live rs)(k \<mapsto> v)\<rparr>"] show ?thesis
      by (simp add: upd cong: option.case_cong)
  next
    case (WDel k)
    with Cons.prems Cons.IH [of "sw_step (WDel k) w" "rs\<lparr>rs_live := (rs_live rs)(k := None)\<rparr>"] show ?thesis
      by (simp add: upd cong: option.case_cong)
  next
    case (WHeader c)
    with Cons.prems Cons.IH [of "sw_step (WHeader c) w"] show ?thesis
      by (simp add: sw_WriteHeader_def rs_header_def started split: if_splits cong: option.case_cong)
  next
    case (WWrite b)
    with Cons.prems Cons.IH [of "sw_step (WWrite b) w"] show ?thesis
      by (simp add: sw_WriteHeader_def rs_header_def started' Let_def split: if_splits cong: option.case_cong)
  qed
qed

definition only_sets :: "waction list \<Rightarrow> bool" where
  "only_sets as = list_all (\<lambda>a. (\<forall>c. a \<noteq> WHeader c) \<and> (\<forall>b. a \<noteq> WWrite b)) as"

lemma only_sets_run:
  "only_sets as \<Longrightarrow> rs_head (rs_run as r) = rs_head r \<and> written as = []"
proof (induction as arbitrary: r)
  case (Cons a as)
  then show ?case by (cases a) (simp_all add: only_sets_def)
qed simp

lemma sign_actions_response:
  "status_of (sign_actions mac key as) = status_of as \<and>
   body_of (sign_actions mac key as) = body_of as \<and>
   header_of (sign_actions mac key as) hash_Header = Some (Sign mac (body_of as) key)"
proof -
  define w where "w = fold sw_step as \<lparr>sw_out = [], sw_body = [], sw_status = 200, sw_wroteHeader = False\<rparr>"
  note fold = sw_fold [OF w_def [symmetric], of rs_init]
  have body: "sw_body w = written as" using fold by simp
  have init: "rs_init\<lparr>rs_head := None\<rparr> = rs_init" by (simp add: rs_init_def)
  have st: "sw_status w = status_of as"
    using fold by (auto simp: init status_of_def respond_def rs_header_def split: option.splits)
  have "only_sets (sw_out w)" using fold by (simp add: only_sets_def)
  from only_sets_run [OF this] have head: "rs_head (rs_run (sw_out w) rs_init) = None" and wr: "written (sw_out w) = []"
    by (simp_all add: rs_init_def)
  have acts: "sign_actions mac key as =
      sw_out w @ [WSet hash_Header (Sign mac (written as) key), WHeader (status_of as)] @
      (if written as = [] then [] else [WWrite (written as)])"
    by (simp add: sign_actions_def sw_flush_def body st flip: w_def)
  show ?thesis
    by (simp add: acts body_of_written wr)
      (simp add: status_of_def header_of_def respond_def rs_header_def head)
qed


section \<open>What compression preserves\<close>

text \<open>Actions that leave the content encoding alone, as those of the handlers and of signing do.\<close>

definition no_encoding :: "waction list \<Rightarrow> bool" where
  "no_encoding as =
     list_all (\<lambda>a. (\<forall>v. a \<noteq> WSet ''Content-Encoding'' v) \<and> a \<noteq> WDel ''Content-Encoding'') as"

definition has_write :: "waction list \<Rightarrow> bool" where
  "has_write as = list_ex (\<lambda>a. case a of WWrite b \<Rightarrow> True | _ \<Rightarrow> False) as"

definition no_header :: "waction list \<Rightarrow> bool" where
  "no_header as = list_all (\<lambda>a. \<forall>c. a \<noteq> WHeader c) as"

text \<open>Without a content encoding everything passes through.\<close>

lemma gz_transparent:
  "no_header as \<Longrightarrow> no_encoding as \<Longrightarrow> gz_writer g = None \<Longrightarrow> gz_live g ''Content-Encoding'' \<noteq> Some ''gzip'' \<Longrightarrow>
   gz_out (fold gz_step as g) = gz_out g @ as \<and> gz_writer (fold gz_step as g) = None"
proof (induction as arbitrary: g)
  case (Cons a as)
  then show ?case by (cases a) (auto simp: no_header_def no_encoding_def)
qed simp

text \<open>With it everything written goes to the compressor.\<close>

lemma gz_compressing:
  "no_header as \<Longrightarrow> no_encoding as \<Longrightarrow> gz_live g ''Content-Encoding'' = Some ''gzip'' \<Longrightarrow>
   (gz_written g \<longleftrightarrow> gz_writer g \<noteq> None) \<Longrightarrow>
   \<exists>sets. only_sets sets \<and> gz_out (fold gz_step as g) = gz_out g @ sets \<and>
     gz_writer (fold gz_step as g) =
       (case gz_writer g of
          Some buf \<Rightarrow> Some (buf @ written as)
        | None \<Rightarrow> if has_write as then Some (written as) else None)"
proof (induction as arbitrary: g)
  case Nil
  then show ?case by (intro exI [of _ "[]"]) (simp add: only_sets_def has_write_def split: option.split)
next
  case (Cons a as)
  have ih: "\<exists>sets. only_sets sets \<and> gz_out (fold gz_step as g') = gz_out g' @ sets \<and>
      gz_writer (fold gz_step as g') =
        (case gz_writer g' of Some buf \<Rightarrow> Some (buf @ written as)
         | None \<Rightarrow> if has_write as then Some (written as) else None)"
    if "gz_live g' ''Content-Encoding'' = Some ''gzip''" "gz_written g' \<longleftrightarrow> gz_writer g' \<noteq> None" for g'
    using Cons that by (auto simp: no_header_def no_encoding_def)
  show ?case
  proof (cases a)
    case (WSet k v)
    with Cons.prems ih [of "gz_step a g"] obtain sets where
      "only_sets sets" "gz_out (fold gz_step as (gz_step a g)) = gz_out g @ WSet k v # sets"
      "gz_writer (fold gz_step as (gz_step a g)) =
        (case gz_writer g of Some buf \<Rightarrow> Some (buf @ written as)
         | None \<Rightarrow> if has_write as then Some (written as) else None)"
      by (auto simp: no_encoding_def)
    with WSet show ?thesis
      by (intro exI [of _ "WSet k v # sets"]) (simp add: only_sets_def has_write_def split: option.split)
  next
    case (WDel k)
    with Cons.prems ih [of "gz_step a g"] obtain sets where
      "only_sets sets" "gz_out (fold gz_step as (gz_step a g)) = gz_out g @ WDel k # sets"
      "gz_writer (fold gz_step as (gz_step a g)) =
        (case gz_writer g of Some buf \<Rightarrow> Some (buf @ written as)
         | None \<Rightarrow> if has_write as then Some (written as) else None)"
      by (auto simp: no_encoding_def)
    with WDel show ?thesis
      by (intro exI [of _ "WDel k # sets"]) (simp add: only_sets_def has_write_def split: option.split)
  next
    case (WHeader c)
    with Cons.prems show ?thesis by (simp add: no_header_def)
  next
    case (WWrite b)
    with Cons.prems ih [of "gz_step a g"] show ?thesis
      by (auto simp: has_write_def split: option.splits)
  qed
qed

text \<open>Actions before the response starts.\<close>

lemma gz_only_sets:
  "only_sets as \<Longrightarrow>
   gz_out (fold gz_step as g) = gz_out g @ as \<and> gz_writer (fold gz_step as g) = gz_writer g \<and>
   gz_written (fold gz_step as g) = gz_written g \<and>
   gz_live (fold gz_step as g) = rs_live (rs_run as (r\<lparr>rs_live := gz_live g\<rparr>))"
proof (induction as arbitrary: g r)
  case (Cons a as)
  then show ?case
  proof (cases a)
    case (WSet k v)
    with Cons.prems Cons.IH [of "gz_step a g" r] show ?thesis by (simp add: only_sets_def fun_upd_def)
  next
    case (WDel k)
    with Cons.prems Cons.IH [of "gz_step a g" r] show ?thesis by (simp add: only_sets_def fun_upd_def)
  qed (simp_all add: only_sets_def)
qed simp

lemma has_write_only_sets: "only_sets pre \<Longrightarrow> \<not> has_write pre"
  by (induction pre) (auto simp: only_sets_def has_write_def split: waction.splits)

lemma starts_once_split:
  assumes "starts_once as"
  obtains (unstarted) "no_header as"
  | (started) pre c post where "as = pre @ WHeader c # post" "only_sets pre" "no_header post"
proof -
  have "no_header as \<or> (\<exists>pre c post. as = pre @ WHeader c # post \<and> only_sets pre \<and> no_header post)"
    using assms
  proof (induction as)
    case (Cons a as)
    have skip: ?case if "only_sets [a]" "no_header [a]" "starts_once as"
      using Cons.IH [OF that(3)]
    proof (elim disjE exE conjE)
      fix pre c post assume "as = pre @ WHeader c # post" "only_sets pre" "no_header post"
      then show ?case using that(1) by (intro disjI2 exI [of _ "a # pre"]) (simp add: only_sets_def)
    qed (use that(2) in \<open>simp add: no_header_def\<close>)
    show ?case
    proof (cases a)
      case (WHeader c)
      then show ?thesis using Cons.prems
        by (intro disjI2 exI [of _ "[]"]) (simp add: only_sets_def no_header_def)
    next
      case (WWrite b)
      then show ?thesis using Cons.prems by (simp add: no_header_def)
    qed (use Cons.prems skip in \<open>simp_all add: only_sets_def no_header_def\<close>)
  qed (simp add: no_header_def)
  then show thesis using unstarted started by blast
qed

text \<open>Nothing but the compressing writer sets the encoding.\<close>

definition unencoded :: "response \<Rightarrow> bool" where
  "unencoded r \<longleftrightarrow>
     rs_live r ''Content-Encoding'' = None \<and>
     (case rs_head r of None \<Rightarrow> True | Some h \<Rightarrow> snd h ''Content-Encoding'' = None)"

lemma unencoded_run: "no_encoding as \<Longrightarrow> unencoded r \<Longrightarrow> unencoded (rs_run as r)"
proof (induction as arbitrary: r)
  case (Cons a as)
  then have "unencoded (rs_step a r)"
    by (cases a) (auto simp: unencoded_def no_encoding_def rs_header_def split: option.splits)
  with Cons show ?case by (simp add: no_encoding_def)
qed simp

lemma header_unencoded: "no_encoding as \<Longrightarrow> header_of as ''Content-Encoding'' = None"
  using unencoded_run [of as rs_init]
  by (auto simp: unencoded_def header_of_def respond_def rs_header_def rs_init_def split: option.splits)

lemma compress_unstarted:
  "no_header as \<Longrightarrow> no_encoding as \<Longrightarrow> compress_actions gzip as = as"
  using gz_transparent [of as gz_init] by (simp add: compress_actions_def gz_Close_def gz_init_def)

lemma compress_started:
  assumes as: "as = pre @ WHeader c # post" and pre: "only_sets pre" and post: "no_header post"
    and enc: "no_encoding as"
  defines "L \<equiv> rs_live (rs_run pre rs_init)"
  shows "if shouldCompress L
    then \<exists>sets. only_sets sets \<and> compress_actions gzip as =
           pre @ [WSet ''Content-Encoding'' ''gzip'', WDel ''Content-Length'', WHeader c] @ sets @
           (if has_write post then [WWrite (gzip (written post))] else [])
    else compress_actions gzip as = as"
proof -
  have encs: "no_encoding pre" "no_encoding post" using enc by (simp_all add: as no_encoding_def)
  define g where "g = fold gz_step pre gz_init"
  have g: "gz_out g = pre" "gz_writer g = None" "\<not> gz_written g" "gz_live g = L"
    using gz_only_sets [OF pre, of gz_init rs_init] by (simp_all add: g_def gz_init_def L_def rs_init_def)
  have L: "L ''Content-Encoding'' = None"
    using unencoded_run [OF encs(1), of rs_init] by (simp add: L_def unencoded_def rs_init_def)
  have run: "compress_actions gzip as = gz_Close gzip (fold gz_step post (gz_step (WHeader c) g))"
    by (simp add: compress_actions_def as g_def)
  show ?thesis
  proof (cases "shouldCompress L")
    case True
    have "gz_live (gz_step (WHeader c) g) ''Content-Encoding'' = Some ''gzip''"
      "gz_written (gz_step (WHeader c) g) \<longleftrightarrow> gz_writer (gz_step (WHeader c) g) \<noteq> None"
      using True g by simp_all
    from gz_compressing [OF post encs(2) this] True g obtain sets where sets: "only_sets sets"
      "gz_out (fold gz_step post (gz_step (WHeader c) g)) =
        pre @ [WSet ''Content-Encoding'' ''gzip'', WDel ''Content-Length'', WHeader c] @ sets"
      "gz_writer (fold gz_step post (gz_step (WHeader c) g)) = (if has_write post then Some (written post) else None)"
      by auto
    with True show ?thesis
      by (auto simp: run gz_Close_def intro!: exI [of _ sets] simp del: gz_step.simps)
  next
    case False
    then have "gz_live (gz_step (WHeader c) g) ''Content-Encoding'' \<noteq> Some ''gzip''"
      "gz_writer (gz_step (WHeader c) g) = None" "gz_out (gz_step (WHeader c) g) = pre @ [WHeader c]"
      using g L by simp_all
    with gz_transparent [OF post encs(2), of "gz_step (WHeader c) g"]
    have "gz_Close gzip (fold gz_step post (gz_step (WHeader c) g)) = as"
      by (simp add: gz_Close_def as del: gz_step.simps)
    with False show ?thesis by (simp only: run if_False)
  qed
qed



end
