(* ===== verification/Router.thy ===== *)
theory Router
  imports Handler_Specs Middleware
begin

text \<open>
  \<open>createRouter\<close> of \<open>cmd/server/main.go\<close>: the middlewares around the routes. Matching a path is chi's
  and a parameter: it picks a registered method and pattern with the values of its placeholders, or
  none, and then chi answers by itself. The profiler under \<open>/debug\<close> is a parameter too; the request
  identifier only goes into log records.
\<close>

record router_env =
  rt_codec :: float_codec
  rt_html_float :: "float64 \<Rightarrow> string"
  rt_parse6 :: "string \<Rightarrow> (128 word) option"
  rt_mac :: mac
  rt_gzip :: "bytes \<Rightarrow> bytes"
  rt_gunzip :: "stream \<Rightarrow> stream option"
  rt_pick :: "(string \<times> string) list \<Rightarrow> string \<Rightarrow> string \<Rightarrow> ((string \<times> string) \<times> (string \<Rightarrow> string)) option"
  rt_default :: "request \<Rightarrow> waction list"
  rt_profiler :: "request \<Rightarrow> waction list"
  rt_debug :: bool

type_synonym 's route = "(string \<times> string) \<times> ('s, event) handler"

definition not_found_handler :: "('s, event) handler" where
  "not_found_handler r s = (http_NotFound, s, [])"

text \<open>The routes in the order they are registered; the group of updates is behind the subnet check.\<close>

definition routes ::
  "router_env \<Rightarrow> 's repository \<Rightarrow> go_error option option \<Rightarrow> bool \<Rightarrow> ip_net option \<Rightarrow> 's route list" where
  "routes env repo pinger auditor trusted =
     (let fc = rt_codec env;
          guard = (\<lambda>h. case trusted of None \<Rightarrow> h | Some network \<Rightarrow> subnet_mw (rt_parse6 env) network h)
      in
      [((''*'', ''/debug/*''), \<lambda>r s. (rt_profiler env r, s, [])),
       ((''GET'', ''/ping''), ping_handler pinger),
       ((''POST'', ''/update''), guard (update_handler fc repo auditor)),
       ((''POST'', ''/update/''), guard (update_handler fc repo auditor)),
       ((''POST'', ''/updates''), guard (updates_handler fc repo auditor)),
       ((''POST'', ''/updates/''), guard (updates_handler fc repo auditor)),
       ((''POST'', ''/update/{mtype}/{name}/{value}''), guard (post_handler fc repo auditor)),
       ((''POST'', ''/{mtype}/{name}/{value}''), guard (post_handler fc repo auditor)),
       ((''POST'', ''/value''), value_handler fc repo),
       ((''POST'', ''/value/''), value_handler fc repo),
       ((''POST'', ''/*''), not_found_handler),
       ((''GET'', ''/value/{mtype}/{name}''), get_handler fc repo),
       ((''GET'', ''/''), html_handler (rt_html_float env) repo),
       ((''GET'', ''/*''), not_found_handler)])"

definition route_handler :: "router_env \<Rightarrow> 's route list \<Rightarrow> ('s, event) handler" where
  "route_handler env table r s =
     (case rt_pick env (map fst table) (rq_method r) (rq_path r) of
        None \<Rightarrow> (rt_default env r, s, [])
      | Some (mp, params) \<Rightarrow>
          (case map_of table mp of
             None \<Rightarrow> (rt_default env r, s, [])
           | Some h \<Rightarrow> h (r\<lparr>rq_params := params\<rparr>) s))"

definition createRouter ::
  "router_env \<Rightarrow> 's repository \<Rightarrow> go_error option option \<Rightarrow> bytes \<Rightarrow> key_pair option \<Rightarrow> bool \<Rightarrow> ip_net option \<Rightarrow>
   request \<Rightarrow> 's \<Rightarrow> (waction list \<times> 's \<times> event list) \<times> log_entry list" where
  "createRouter env repo pinger key priv auditor trusted =
     (let routed = route_handler env (routes env repo pinger auditor trusted);
          signed = (if key \<noteq> [] then sign_mw (rt_mac env) key routed else routed);
          compressed = compress_mw (rt_gzip env) (rt_gunzip env) signed;
          decrypted = (case priv of None \<Rightarrow> compressed | Some p \<Rightarrow> decrypt_mw p compressed)
      in logger_mw (rt_debug env) decrypted)"

text \<open>
  The documented behaviour of chi: a path that is itself a registered pattern without placeholders
  goes to that route. And of gzip: reading a compressed stream gives back the bytes.
\<close>

definition chi_ok :: "router_env \<Rightarrow> bool" where
  "chi_ok env \<longleftrightarrow>
     (\<forall>table m p. (m, p) \<in> set table \<and> CHR ''{'' \<notin> set p \<and> CHR ''*'' \<notin> set p \<longrightarrow>
        (\<exists>params. rt_pick env table m p = Some ((m, p), params)))"

definition gzip_ok :: "router_env \<Rightarrow> bool" where
  "gzip_ok env \<longleftrightarrow> (\<forall>data. rt_gunzip env (rt_gzip env data, None) = Some (data, None))"

text \<open>An instance with the laws, for concrete evaluations.\<close>

definition plain_env :: router_env where
  "plain_env =
     \<lparr>rt_codec = bits_codec, rt_html_float = format_int, rt_parse6 = (\<lambda>_. None),
      rt_mac = (\<lambda>key data. key @ data), rt_gzip = rev,
      rt_gunzip = (\<lambda>(b, e). case e of None \<Rightarrow> Some (rev b, None) | Some _ \<Rightarrow> None),
      rt_pick = (\<lambda>table m p. if (m, p) \<in> set table then Some ((m, p), \<lambda>_. []) else None),
      rt_default = (\<lambda>_. http_NotFound), rt_profiler = (\<lambda>_. http_NotFound), rt_debug = False\<rparr>"

lemma plain_env_ok: "chi_ok plain_env" "gzip_ok plain_env" "float_codec_ok (rt_codec plain_env)"
  by (simp_all add: chi_ok_def gzip_ok_def plain_env_def bits_codec_ok)

section \<open>Routing\<close>

lemma routes_update:
  "map_of (routes env repo pinger auditor trusted) (''POST'', ''/updates/'') =
     Some (case trusted of None \<Rightarrow> updates_handler (rt_codec env) repo auditor
           | Some n \<Rightarrow> subnet_mw (rt_parse6 env) n (updates_handler (rt_codec env) repo auditor))"
  by (simp add: routes_def Let_def split: option.split)

lemma updates_static: "CHR ''{'' \<notin> set ''/updates/''" "CHR ''*'' \<notin> set ''/updates/''"
  by simp_all

lemma route_updates:
  assumes "chi_ok env" "rq_method r = ''POST''" "rq_path r = ''/updates/''"
  obtains params where
    "route_handler env (routes env repo pinger auditor trusted) r s =
       (case trusted of None \<Rightarrow> updates_handler (rt_codec env) repo auditor
        | Some n \<Rightarrow> subnet_mw (rt_parse6 env) n (updates_handler (rt_codec env) repo auditor)) (r\<lparr>rq_params := params\<rparr>) s"
proof -
  have "(''POST'', ''/updates/'') \<in> set (map fst (routes env repo pinger auditor trusted))"
    by (simp add: routes_def Let_def)
  with assms(1) obtain params where
    "rt_pick env (map fst (routes env repo pinger auditor trusted)) ''POST'' ''/updates/'' = Some ((''POST'', ''/updates/''), params)"
    unfolding chi_ok_def by (metis (no_types, lifting) updates_static)
  with that show thesis by (simp add: route_handler_def assms routes_update)
qed

end
