(* ===== verification/Router_Specs.thy ===== *)
theory Router_Specs
  imports Router
begin

text \<open>
  What holds of every request the server answers, whatever chi's matching and the profiler do.
\<close>

section \<open>Only trusted callers write\<close>

text \<open>A handler that changes nothing and notifies nobody unless the caller is trusted.\<close>

definition guarded :: "router_env \<Rightarrow> ip_net option \<Rightarrow> ('s, event) handler \<Rightarrow> bool" where
  "guarded env trusted h \<longleftrightarrow>
     (\<forall>r s. \<not> Allowed (rt_parse6 env) trusted (rq_header r realip_Header) \<longrightarrow>
        fst (snd (h r s)) = s \<and> snd (snd (h r s)) = [])"

lemma guardedI:
  "(\<And>r s. \<not> Allowed (rt_parse6 env) trusted (rq_header r realip_Header) \<Longrightarrow>
      fst (snd (h r s)) = s \<and> snd (snd (h r s)) = []) \<Longrightarrow> guarded env trusted h"
  by (simp add: guarded_def)

lemma guardedD:
  assumes "guarded env trusted h" "\<not> Allowed (rt_parse6 env) trusted (rq_header r realip_Header)"
  shows "fst (snd (h r s)) = s" "snd (snd (h r s)) = []"
  using assms by (simp_all add: guarded_def)

lemma guarded_subnet:
  "guarded env trusted (case trusted of None \<Rightarrow> h | Some n \<Rightarrow> subnet_mw (rt_parse6 env) n h)"
  by (rule guardedI) (auto simp: Allowed_def subnet_mw_def split: option.splits)

text \<open>The handlers that read the in-memory store.\<close>

lemma guarded_readers:
  "guarded env trusted (value_handler fc mem_repo)"
  "guarded env trusted (get_handler fc mem_repo)"
  "guarded env trusted (html_handler f mem_repo)"
  "guarded env trusted (ping_handler db)"
  "guarded env trusted not_found_handler"
  "guarded env trusted (\<lambda>r s. (g r, s, []))"
  by (rule guardedI,
      simp add: value_handler_def get_handler_def html_handler_def ping_handler_def not_found_handler_def
        service_defs repo_defs Let_def split: option.splits sum.splits prod.splits)+

lemma guarded_routes:
  assumes "((m, p), h) \<in> set (routes env mem_repo pinger auditor trusted)"
  shows "guarded env trusted h"
proof -
  have "list_all (\<lambda>(mp, h). guarded env trusted h) (routes env mem_repo pinger auditor trusted)"
    unfolding routes_def Let_def
    by (simp only: list.pred_inject prod.case guarded_readers guarded_subnet simp_thms)
  with assms show ?thesis by (auto simp: list_all_iff)
qed

lemma guarded_route_handler: "guarded env trusted (route_handler env (routes env mem_repo pinger auditor trusted))"
proof (rule guardedI)
  fix r :: request and s
  assume no: "\<not> Allowed (rt_parse6 env) trusted (rq_header r realip_Header)"
  show "fst (snd (route_handler env (routes env mem_repo pinger auditor trusted) r s)) = s \<and>
      snd (snd (route_handler env (routes env mem_repo pinger auditor trusted) r s)) = []"
  proof (cases "rt_pick env (map fst (routes env mem_repo pinger auditor trusted)) (rq_method r) (rq_path r)")
    case None
    then show ?thesis by (simp add: route_handler_def)
  next
    case (Some x)
    obtain m p params where x: "x = ((m, p), params)" by (metis prod.exhaust)
    show ?thesis
    proof (cases "map_of (routes env mem_repo pinger auditor trusted) (m, p)")
      case None
      with Some x show ?thesis by (simp add: route_handler_def)
    next
      case h: (Some h)
      have "guarded env trusted h" using map_of_SomeD [OF h] by (rule guarded_routes)
      from guardedD [OF this, of "r\<lparr>rq_params := params\<rparr>" s] no Some x h show ?thesis
        by (simp add: route_handler_def)
    qed
  qed
qed

text \<open>The middlewares leave the caller's address alone.\<close>

lemma guarded_sign: "guarded env trusted h \<Longrightarrow> guarded env trusted (sign_mw mac key h)"
  by (rule guardedI) (simp add: sign_mw_def Let_def guardedD split_beta split: sum.split)

lemma guarded_compress: "guarded env trusted h \<Longrightarrow> guarded env trusted (compress_mw gz gunz h)"
  by (rule guardedI) (simp add: compress_mw_def Let_def guardedD split_beta split: option.split)

lemma guarded_decrypt: "guarded env trusted h \<Longrightarrow> guarded env trusted (decrypt_mw kp h)"
  by (rule guardedI) (simp add: decrypt_mw_def realip_Header_def guardedD split: sum.split)

text \<open>
  C12: Only trusted callers write. Whatever is requested, by any method and path, encrypted, compressed or
  signed, a request that changes the in-memory store or notifies the auditor carries an \<open>X-Real-IP\<close>
  of the trusted subnet (any, when no subnet is configured).
\<close>

theorem only_trusted_write:
  "case createRouter env mem_repo pinger key priv auditor trusted r s of
     ((as, s', ev), log) \<Rightarrow>
       s' = s \<and> ev = [] \<or> Allowed (rt_parse6 env) trusted (rq_header r realip_Header)"
proof -
  let ?h = "route_handler env (routes env mem_repo pinger auditor trusted)"
  let ?s = "if key \<noteq> [] then sign_mw (rt_mac env) key ?h else ?h"
  let ?c = "compress_mw (rt_gzip env) (rt_gunzip env) ?s"
  let ?d = "case priv of None \<Rightarrow> ?c | Some p \<Rightarrow> decrypt_mw p ?c"
  have "guarded env trusted ?s" by (simp add: guarded_sign guarded_route_handler)
  then have "guarded env trusted ?c" by (rule guarded_compress)
  then have g: "guarded env trusted ?d" by (cases priv) (simp_all add: guarded_decrypt)
  moreover have "createRouter env mem_repo pinger key priv auditor trusted = logger_mw (rt_debug env) ?d"
    unfolding createRouter_def Let_def ..
  ultimately obtain D where D: "guarded env trusted D"
    "createRouter env mem_repo pinger key priv auditor trusted = logger_mw (rt_debug env) D" by blast
  show ?thesis
    using guardedD [OF D(1), of r s] by (auto simp: D(2) logger_mw_def split_beta)
qed

section \<open>Compression and the overview page\<close>

text \<open>
  The overview page is compressed exactly when answers are signed. Its handler writes without calling
  \<open>WriteHeader\<close>, so the compressing writer never decides to compress it, although it lists
  \<open>text/html\<close> as compressible; behind the signing writer, which does call it, the page is compressed.
\<close>

theorem html_compression:
  "header_of (compress_actions gz (fst (html_handler f repo r s))) ''Content-Encoding'' = None \<and>
   body_of (compress_actions gz (fst (html_handler f repo r s))) = body_of (fst (html_handler f repo r s)) \<and>
   header_of (compress_actions gz (sign_actions mac key (fst (html_handler f repo r s)))) ''Content-Encoding'' = Some ''gzip''"
proof -
  obtain ws where ws: "fst (html_handler f repo r s) = WSet ''Content-Type'' ''text/html; charset=utf-8'' # map WWrite ws"
  proof -
    obtain rc s1 where c: "svc_GetAllCounters repo s = (rc, s1)" by force
    obtain rg s2 where g: "svc_GetAllGauges repo s1 = (rg, s2)" by force
    show thesis by (rule that) (simp add: html_handler_def Let_def c g)
  qed
  have nh: "no_header (map WWrite ws)" "no_encoding (map WWrite ws)"
    by (simp_all add: no_header_def no_encoding_def list_all_iff)
  let ?g = "gz_step (WSet ''Content-Type'' ''text/html; charset=utf-8'') gz_init"
  have same: "compress_actions gz (fst (html_handler f repo r s)) = fst (html_handler f repo r s)"
    using gz_transparent [OF nh, of ?g] unfolding ws
    by (simp add: compress_actions_def gz_Close_def gz_init_def)
  have live: "rs_live (rs_run (map WWrite xs) q) = rs_live q \<and> rs_head (rs_run (map WWrite xs) q) =
      (if xs = [] \<or> rs_head q \<noteq> None then rs_head q else Some (200, rs_live q))" for xs q
    by (induction xs arbitrary: q) (auto simp: rs_header_def split: option.splits)
  have none: "header_of (fst (html_handler f repo r s)) ''Content-Encoding'' = None"
    unfolding ws by (auto simp: header_of_def respond_def rs_header_def rs_init_def live split: option.splits)
  have sw: "fold sw_step (map WWrite xs) w =
      w\<lparr>sw_body := sw_body w @ concat xs, sw_wroteHeader := sw_wroteHeader w \<or> xs \<noteq> []\<rparr>" if "sw_status w = 200" for xs w
    using that by (induction xs arbitrary: w) (auto simp: sw_WriteHeader_def Let_def)
  have "header_of (compress_actions gz (sign_actions mac key (fst (html_handler f repo r s)))) ''Content-Encoding'' = Some ''gzip''"
    unfolding ws
    by (simp add: sign_actions_def sw sw_flush_def compress_actions_def gz_init_def gz_Close_def shouldCompress_def
        compressibleType_def trim_space_def is_space_def hash_Header_def header_of_def respond_def rs_header_def rs_init_def)
  with same none show ?thesis by simp
qed

end
