(* ===== verification/Handler_Logs.thy ===== *)
theory Handler_Logs
  imports Runs
begin

text \<open>
  The loggers of the handlers (\<open>internal/handler\<close>). \<open>Handlers\<close> leaves log records out; here is only what happens to the
  variable \<open>log\<close>. The handlers of \<open>post\<close>, \<open>update\<close>, \<open>value\<close>, \<open>get\<close> and \<open>ping\<close> assign the result of \<open>With\<close> to the
  variable their closure has captured, which is one for all requests; \<open>html\<close> keeps it in a variable of the request.
  (\<open>updates\<close> assigns the captured one at the level Debug only, which \<open>SetupLogger\<close> never enables.)
\<close>

type_synonym attr = "string \<times> string"

definition request_attrs :: "string \<Rightarrow> string \<Rightarrow> attr list" where
  "request_attrs op rid = [(''op'', op), (''request_id'', rid)]"

text \<open>
  A request in progress: its identifier, the logger \<open>With\<close> made for it, and whether it has been assigned.
  \<open>lg_var\<close> is the captured variable, by the attributes of the logger in it; the records name the request that wrote them.
\<close>

record log_task =
  lt_id :: string
  lt_log :: "attr list option"
  lt_ready :: bool

record log_state =
  lg_var :: "attr list"
  lg_tasks :: "log_task list"
  lg_records :: "(nat \<times> attr list) list"

datatype log_label = LogRequest string | LogWith nat | LogAssign nat | LogEmit nat

definition log_start :: "attr list \<Rightarrow> log_state" where
  "log_start base = \<lparr>lg_var = base, lg_tasks = [], lg_records = []\<rparr>"

text \<open>Reading the variable, assigning it and writing a record are one step each; \<open>captured\<close> tells which variable.\<close>

fun log_step :: "bool \<Rightarrow> string \<Rightarrow> log_state \<Rightarrow> log_label \<Rightarrow> log_state option" where
  "log_step captured op s (LogRequest rid) =
     Some (s\<lparr>lg_tasks := lg_tasks s @ [\<lparr>lt_id = rid, lt_log = None, lt_ready = False\<rparr>]\<rparr>)"
| "log_step captured op s (LogWith i) =
     (if i < length (lg_tasks s) \<and> lt_log (lg_tasks s ! i) = None
      then Some (s\<lparr>lg_tasks := (lg_tasks s)[i := (lg_tasks s ! i)
             \<lparr>lt_log := Some (lg_var s @ request_attrs op (lt_id (lg_tasks s ! i)))\<rparr>]\<rparr>)
      else None)"
| "log_step captured op s (LogAssign i) =
     (if i < length (lg_tasks s) \<and> \<not> lt_ready (lg_tasks s ! i) then
        (case lt_log (lg_tasks s ! i) of
           None \<Rightarrow> None
         | Some l \<Rightarrow> Some (s\<lparr>lg_var := (if captured then l else lg_var s),
                             lg_tasks := (lg_tasks s)[i := (lg_tasks s ! i)\<lparr>lt_ready := True\<rparr>]\<rparr>))
      else None)"
| "log_step captured op s (LogEmit i) =
     (if i < length (lg_tasks s) \<and> lt_ready (lg_tasks s ! i) then
        (case lt_log (lg_tasks s ! i) of
           None \<Rightarrow> None
         | Some l \<Rightarrow> Some (s\<lparr>lg_records := lg_records s @ [(i, if captured then lg_var s else l)]\<rparr>))
      else None)"

section \<open>A variable of the request\<close>

definition own_log :: "string \<Rightarrow> attr list \<Rightarrow> log_task \<Rightarrow> bool" where
  "own_log op base th = (case lt_log th of None \<Rightarrow> True | Some r \<Rightarrow> r = base @ request_attrs op (lt_id th))"

definition own_records :: "string \<Rightarrow> attr list \<Rightarrow> log_state \<Rightarrow> bool" where
  "own_records op base s \<longleftrightarrow> lg_var s = base \<and> list_all (own_log op base) (lg_tasks s) \<and>
     (\<forall>(i, r) \<in> set (lg_records s).
        i < length (lg_tasks s) \<and> r = base @ request_attrs op (map lt_id (lg_tasks s) ! i))"

lemma own_log_update: "list_all P xs \<Longrightarrow> P y \<Longrightarrow> list_all P (xs[i := y])"
  by (auto simp: list_all_iff dest: set_update_subset_insert [THEN subsetD])

lemma ids_update: "i < length ths \<Longrightarrow> lt_id th = lt_id (ths ! i) \<Longrightarrow> map lt_id (ths[i := th]) = map lt_id ths"
  by (metis length_map list_update_id map_update nth_map)

lemma own_records_step:
  assumes "own_records op base s" "log_step False op s l = Some t"
  shows "own_records op base t"
proof -
  note own = assms(1) [unfolded own_records_def]
  show ?thesis
  proof (cases l)
    case (LogRequest rid)
    with assms(2) own show ?thesis by (fastforce simp: own_records_def own_log_def nth_append)
  next
    case (LogWith i)
    with assms(2) own show ?thesis by (auto simp: own_records_def ids_update own_log_def intro!: own_log_update split: if_splits)
  next
    case (LogAssign i)
    with assms(2) obtain r where r: "i < length (lg_tasks s)" "lt_log (lg_tasks s ! i) = Some r"
        "t = s\<lparr>lg_tasks := (lg_tasks s)[i := (lg_tasks s ! i)\<lparr>lt_ready := True\<rparr>]\<rparr>"
      by (auto split: if_splits option.splits)
    with own have "own_log op base (lg_tasks s ! i)" by (simp add: list_all_length)
    with r own show ?thesis by (simp add: own_records_def ids_update own_log_update own_log_def)
  next
    case (LogEmit i)
    with assms(2) obtain r where r: "i < length (lg_tasks s)" "lt_log (lg_tasks s ! i) = Some r"
        "t = s\<lparr>lg_records := lg_records s @ [(i, r)]\<rparr>"
      by (auto split: if_splits option.splits)
    with own have "own_log op base (lg_tasks s ! i)" by (simp add: list_all_length)
    with r own show ?thesis by (auto simp: own_records_def own_log_def)
  qed
qed

text \<open>With a variable of its own every request logs under its own identifier, in every interleaving.\<close>

theorem local_logger:
  assumes "run (\<lambda>s l t. log_step False op s l = Some t) (log_start base) ls t" "(i, r) \<in> set (lg_records t)"
  shows "i < length (lg_tasks t) \<and> r = base @ request_attrs op (lt_id (lg_tasks t ! i))"
proof -
  have "own_records op base t"
    by (rule run_invariant [where I = "own_records op base", OF assms(1)])
      (simp add: own_records_def log_start_def, rule own_records_step)
  with assms(2) show ?thesis by (auto simp: own_records_def)
qed

section \<open>The captured variable\<close>

fun requests_from :: "nat \<Rightarrow> string list \<Rightarrow> log_label list" where
  "requests_from k [] = []"
| "requests_from k (rid # rids) = [LogRequest rid, LogWith k, LogAssign k, LogEmit k] @ requests_from (Suc k) rids"

lemma accumulate_from:
  "k = length (lg_tasks s) \<Longrightarrow>
   \<exists>t. exec_steps (log_step True op) (requests_from k rids) s = Some t \<and>
     lg_var t = lg_var s @ concat (map (request_attrs op) rids) \<and>
     lg_records t = lg_records s @
       map (\<lambda>j. (k + j, lg_var s @ concat (map (request_attrs op) (take (Suc j) rids)))) [0..<length rids]"
proof (induction rids arbitrary: k s)
  case (Cons rid rids)
  let ?own = "lg_var s @ request_attrs op rid"
  define u where "u = s\<lparr>lg_var := ?own,
    lg_tasks := lg_tasks s @ [\<lparr>lt_id = rid, lt_log = Some ?own, lt_ready = True\<rparr>],
    lg_records := lg_records s @ [(k, ?own)]\<rparr>"
  from Cons.IH [of "Suc k" u] obtain t where
    t: "exec_steps (log_step True op) (requests_from (Suc k) rids) u = Some t"
      "lg_var t = ?own @ concat (map (request_attrs op) rids)"
      "lg_records t = lg_records u @
        map (\<lambda>j. (Suc k + j, ?own @ concat (map (request_attrs op) (take (Suc j) rids)))) [0..<length rids]"
    using Cons.prems by (auto simp: u_def)
  have "exec_steps (log_step True op) (requests_from k (rid # rids)) s = Some t"
    using t(1) Cons.prems by (simp add: u_def)
  moreover have "[0..<length (rid # rids)] = 0 # map Suc [0..<length rids]" by (simp add: map_Suc_upt upt_conv_Cons del: upt_Suc)
  ultimately show ?case using t(2,3) by (intro exI [of _ t]) (simp add: u_def comp_def)
qed simp

text \<open>
  The loggers of all requests accumulate. When requests come one after the other, the records of each carry the
  operation and the identifiers of all requests before it, and the logger grows by two attributes at every request
  as long as the server runs. When two come at once, a record of one can name the other as its last request.
\<close>

theorem captured_logger_grows:
  "(\<exists>t. run (\<lambda>s l t. log_step True op s l = Some t) (log_start base) (requests_from 0 rids) t \<and>
     lg_records t = map (\<lambda>j. (j, base @ concat (map (request_attrs op) (take (Suc j) rids)))) [0..<length rids] \<and>
     length (lg_var t) = length base + 2 * length rids) \<and>
   (\<exists>ls t r. run (\<lambda>s l t. log_step True op s l = Some t) (log_start base) ls t \<and>
     lg_records t = [(0, r)] \<and> lt_id (lg_tasks t ! 0) = ''a'' \<and> last r = (''request_id'', ''b''))"
proof (rule conjI)
  from accumulate_from [of 0 "log_start base" op rids] obtain t where
    t: "exec_steps (log_step True op) (requests_from 0 rids) (log_start base) = Some t"
      "lg_var t = base @ concat (map (request_attrs op) rids)"
      "lg_records t = map (\<lambda>j. (j, base @ concat (map (request_attrs op) (take (Suc j) rids)))) [0..<length rids]"
    by (auto simp: log_start_def)
  moreover have "length (concat (map (request_attrs op) rids)) = 2 * length rids"
    by (induction rids) (simp_all add: request_attrs_def)
  ultimately show "\<exists>t. run (\<lambda>s l t. log_step True op s l = Some t) (log_start base) (requests_from 0 rids) t \<and>
     lg_records t = map (\<lambda>j. (j, base @ concat (map (request_attrs op) (take (Suc j) rids)))) [0..<length rids] \<and>
     length (lg_var t) = length base + 2 * length rids"
    by (intro exI [of _ t]) (simp add: exec_run)
next
  let ?ls = "[LogRequest ''a'', LogWith 0, LogAssign 0, LogRequest ''b'', LogWith 1, LogAssign 1, LogEmit 0]"
  obtain t where t: "exec_steps (log_step True op) ?ls (log_start base) = Some t"
      "lg_records t = [(0, base @ request_attrs op ''a'' @ request_attrs op ''b'')]" "lt_id (lg_tasks t ! 0) = ''a''"
    by (simp add: log_start_def)
  show "\<exists>ls t r. run (\<lambda>s l t. log_step True op s l = Some t) (log_start base) ls t \<and>
     lg_records t = [(0, r)] \<and> lt_id (lg_tasks t ! 0) = ''a'' \<and> last r = (''request_id'', ''b'')"
    using exec_run [OF t(1)] t(2,3)
    by (intro exI [of _ ?ls] exI [of _ t] exI [of _ "base @ request_attrs op ''a'' @ request_attrs op ''b''"])
      (simp add: request_attrs_def)
qed

end
