(* ===== verification/Grpc_Tls.thy ===== *)
theory Grpc_Tls
  imports Security
begin

text \<open>
  \<open>internal/grpctls\<close>: the TLS credentials of the gRPC server and client. What the cryptographic library
  does is its outcome: the key, the serial number, the certificate and the pair of a generated
  certificate may each fail, and reading files is a parameter.
\<close>

record tls_env =
  te_parse6 :: "string \<Rightarrow> (128 word) option"
  te_key :: "go_error option"
  te_serial :: "go_error option"
  te_create :: "go_error option"
  te_marshal :: "go_error option"
  te_pair :: "go_error option"
  te_server_files :: "string \<Rightarrow> string \<Rightarrow> go_error option"
  te_client_file :: "string \<Rightarrow> go_error option"

text \<open>A host on which nothing fails.\<close>

definition plain_tls :: tls_env where
  "plain_tls =
     \<lparr>te_parse6 = (\<lambda>s. if s = ''::1'' then Some 1 else None), te_key = None, te_serial = None, te_create = None,
      te_marshal = None, te_pair = None, te_server_files = (\<lambda>_ _. None), te_client_file = (\<lambda>_. None)\<rparr>"

text \<open>A certificate is the names and addresses it is valid for.\<close>

record certificate =
  ce_dns :: "string list"
  ce_ips :: "ip_addr list"

datatype server_creds = SelfSigned certificate | ServerFiles string string
datatype client_creds = Unverified | TrustFile string

fun splitHosts ::
  "(string \<Rightarrow> (128 word) option) \<Rightarrow> string list \<Rightarrow> string list \<Rightarrow> ip_addr list \<Rightarrow> string list \<times> ip_addr list" where
  "splitHosts parse6 [] dns ips = (dns, ips)"
| "splitHosts parse6 (h # hs) dns ips =
     (case ip_Parse parse6 h of
        Some ip \<Rightarrow> splitHosts parse6 hs dns (ips @ [ip])
      | None \<Rightarrow> splitHosts parse6 hs (dns @ [h]) ips)"

definition fail_with :: "string \<Rightarrow> go_error option \<Rightarrow> unit result" where
  "fail_with m e = (case e of None \<Rightarrow> Inr () | Some x \<Rightarrow> Inl (ErrWrap m x))"

definition Generate :: "tls_env \<Rightarrow> string list \<Rightarrow> certificate result" where
  "Generate env hosts =
     (let hosts = (if hosts = [] then [''localhost'', ''127.0.0.1'', ''::1''] else hosts) in
      rbind (fail_with ''generate grpc tls key'' (te_key env)) (\<lambda>_.
      rbind (fail_with ''generate grpc tls serial'' (te_serial env)) (\<lambda>_.
        (case splitHosts (te_parse6 env) hosts [] [] of (dns, ips) \<Rightarrow>
      rbind (fail_with ''create grpc tls cert'' (te_create env)) (\<lambda>_.
      rbind (fail_with ''marshal grpc tls key'' (te_marshal env)) (\<lambda>_.
      rbind (fail_with ''load grpc tls pair'' (te_pair env)) (\<lambda>_.
        Inr \<lparr>ce_dns = dns, ce_ips = ips\<rparr>)))))))"

definition ServerCredentials :: "tls_env \<Rightarrow> string \<Rightarrow> string \<Rightarrow> server_creds result" where
  "ServerCredentials env certFile keyFile =
     (if certFile = [] \<and> keyFile = [] then
        (case Generate env [] of Inl e \<Rightarrow> Inl e | Inr cert \<Rightarrow> Inr (SelfSigned cert))
      else if certFile = [] \<or> keyFile = [] then
        Inl (ErrText ''grpc tls: both cert and key files are required'')
      else case te_server_files env certFile keyFile of
        Some e \<Rightarrow> Inl e
      | None \<Rightarrow> Inr (ServerFiles certFile keyFile))"

definition ClientCredentials :: "tls_env \<Rightarrow> string \<Rightarrow> client_creds result" where
  "ClientCredentials env caFile =
     (if caFile = [] then Inr Unverified
      else case te_client_file env caFile of Some e \<Rightarrow> Inl e | None \<Rightarrow> Inr (TrustFile caFile))"

text \<open>The key is not written when the certificate could not be: what was written, and the error.\<close>

definition tls_Write ::
  "string \<Rightarrow> string \<Rightarrow> bytes \<Rightarrow> bytes \<Rightarrow> go_error option \<Rightarrow> go_error option \<Rightarrow> (string \<times> bytes) list \<times> unit result" where
  "tls_Write certFile keyFile certPEM keyPEM cert_err key_err =
     (case cert_err of
        Some e \<Rightarrow> ([], Inl (ErrWrap ''write grpc cert'' e))
      | None \<Rightarrow>
          (case key_err of
             Some e \<Rightarrow> ([(certFile, certPEM)], Inl (ErrWrap ''write grpc key'' e))
           | None \<Rightarrow> ([(certFile, certPEM), (keyFile, keyPEM)], Inr ())))"

lemma splitHosts_filter:
  "splitHosts parse6 hs dns ips =
     (dns @ filter (\<lambda>h. ip_Parse parse6 h = None) hs,
      ips @ map the (filter (\<lambda>a. a \<noteq> None) (map (ip_Parse parse6) hs)))"
  by (induction hs arbitrary: dns ips) (auto split: option.split)

text \<open>The names of a generated certificate: without a configuration, those of the local host.\<close>

lemma default_certificate:
  assumes "te_parse6 env ''::1'' = Some 1" "ServerCredentials env [] [] = Inr (SelfSigned cert)"
  shows "ce_dns cert = [''localhost''] \<and> ce_ips cert = [V4 0x7F000001, V6 1]"
proof -
  have "ip_Parse (te_parse6 env) ''localhost'' = None" by (simp add: ip_Parse_def ip_ParseAddr_def)
  moreover have "ip_Parse (te_parse6 env) ''127.0.0.1'' = Some (V4 0x7F000001)"
    by (simp add: ip_Parse_def ip_ParseAddr_def parse_ip4_def ip4_field_def is_digit_def digit_val_def)
  moreover have "ip_Parse (te_parse6 env) ''::1'' = Some (V6 1)"
    using assms(1) by (simp add: ip_Parse_def ip_ParseAddr_def unmap_def)
  ultimately have "splitHosts (te_parse6 env) [''localhost'', ''127.0.0.1'', ''::1''] [] [] =
      ([''localhost''], [V4 0x7F000001, V6 1])"
    by (simp add: splitHosts_filter)
  with assms(2) show ?thesis
    by (auto simp: ServerCredentials_def Generate_def Let_def fail_with_def rbind_def split: sum.splits option.splits)
qed

end
