(* ===== verification/Server_Main.thy ===== *)
theory Server_Main
  imports Router Snapshot Audit_Trail Config_Server Grpc_Tls Database Postgres
begin

text \<open>
  \<open>run\<close> and \<open>newAuditor\<close> of \<open>cmd/server/main.go\<close>: what the server is made of for a configuration, and
  what it saves when it stops. Opening the database, its migration, the audit file, the key file,
  the gRPC port and its certificates are inputs: their outcomes.
\<close>

datatype store_kind = PostgresStore | SyncStore | PeriodicStore | MemoryStore

datatype audit_sink = FileSink string | HTTPSink string

record server_inputs =
  in_open :: "go_error option"
  in_ping :: "duration \<Rightarrow> go_error option"
  in_migrate :: migrate_env
  in_audit_file :: "go_error option"
  in_key :: "string \<Rightarrow> key_pair result"
  in_listen :: "go_error option"
  in_tls :: tls_env

record server_parts =
  sp_trusted :: "ip_net option"
  sp_store :: store_kind
  sp_pinger :: bool
  sp_auditor :: "audit_sink subject option"
  sp_priv :: "key_pair option"
  sp_grpc :: "server_creds option"

text \<open>The auditor is nil when nothing is configured, or nothing of what is configured could be opened.\<close>

definition newAuditor :: "go_error option \<Rightarrow> string \<Rightarrow> string \<Rightarrow> audit_sink subject option" where
  "newAuditor opened auditFile url =
     (if auditFile = [] \<and> url = [] then None
      else
        (let (subject, n) = (NewSubject, 0 :: nat);
             (subject, n) =
               (if auditFile \<noteq> [] then
                  (case opened of Some e \<Rightarrow> (subject, n) | None \<Rightarrow> (Subscribe (FileSink auditFile) subject, n + 1))
                else (subject, n));
             (subject, n) = (if url \<noteq> [] then (Subscribe (HTTPSink url) subject, n + 1) else (subject, n))
         in if n = 0 then None else Some subject))"

definition select_store :: "server_config \<Rightarrow> bool \<Rightarrow> unit result \<Rightarrow> store_kind" where
  "select_store cfg db pg =
     (if db \<and> pg = Inr () then PostgresStore
      else if sv_FileStoragePath cfg \<noteq> [] \<and> sv_StoreInterval cfg = 0 then SyncStore
      else if sv_FileStoragePath cfg \<noteq> [] then PeriodicStore
      else MemoryStore)"

text \<open>
  The order of preference, and what can be used: a database that answered and migrated, a file with an
  interval of zero, a file, and memory always.
\<close>

fun store_rank :: "store_kind \<Rightarrow> nat" where
  "store_rank MemoryStore = 0"
| "store_rank PeriodicStore = 1"
| "store_rank SyncStore = 2"
| "store_rank PostgresStore = 3"

instantiation store_kind :: linorder
begin

definition less_eq_store_kind :: "store_kind \<Rightarrow> store_kind \<Rightarrow> bool" where
  "less_eq_store_kind k l = (store_rank k \<le> store_rank l)"

definition less_store_kind :: "store_kind \<Rightarrow> store_kind \<Rightarrow> bool" where
  "less_store_kind k l = (store_rank k < store_rank l)"

instance
proof (standard, goal_cases)
  case (4 k l)
  then show ?case by (cases k; cases l) (simp_all add: less_eq_store_kind_def)
qed (auto simp: less_eq_store_kind_def less_store_kind_def)

end

fun available :: "server_config \<Rightarrow> bool \<Rightarrow> unit result \<Rightarrow> store_kind \<Rightarrow> bool" where
  "available cfg db pg PostgresStore = (db \<and> pg = Inr ())"
| "available cfg db pg SyncStore = (sv_FileStoragePath cfg \<noteq> [] \<and> sv_StoreInterval cfg = 0)"
| "available cfg db pg PeriodicStore = (sv_FileStoragePath cfg \<noteq> [])"
| "available cfg db pg MemoryStore = True"

lemma store_max: "max k l = (if store_rank k \<le> store_rank l then l else k)" for k l :: store_kind
  by (simp add: max_def less_eq_store_kind_def)

lemma select_store_max:
  "select_store cfg db pg = Max (set (filter (available cfg db pg) [MemoryStore, PeriodicStore, SyncStore, PostgresStore]))"
  by (simp add: select_store_def store_max)

text \<open>A database that is configured and answers; when it does not, the server goes on without it.\<close>

definition db_connected :: "server_inputs \<Rightarrow> server_config \<Rightarrow> bool" where
  "db_connected io cfg =
     (sv_DatabaseDSN cfg \<noteq> [] \<and>
      (case db_New (in_open io) (in_ping io) (Some (sv_Database cfg)) of (Inl e, closed) \<Rightarrow> False | (Inr h, closed) \<Rightarrow> True))"

text \<open>The order of \<open>run\<close>: the first failure that ends it is its result.\<close>

definition server_run ::
  "(string \<Rightarrow> (128 word) option) \<Rightarrow> server_inputs \<Rightarrow> server_config result \<Rightarrow> server_parts result" where
  "server_run parse6 io loaded =
     rbind loaded (\<lambda>cfg.
     rbind (ParseCIDR parse6 (sv_TrustedSubnet cfg)) (\<lambda>trusted.
       let db = db_connected io cfg;
           store = select_store cfg db (pg_New (in_migrate io));
           auditor = newAuditor (in_audit_file io) (sv_AuditFile cfg) (sv_AuditURL cfg)
       in rbind (if sv_CryptoKey cfg \<noteq> [] then rbind (in_key io (sv_CryptoKey cfg)) (\<lambda>k. Inr (Some k)) else Inr None) (\<lambda>priv.
          rbind (if sv_GRPCAddress cfg \<noteq> []
                 then (case in_listen io of
                         Some e \<Rightarrow> Inl e
                       | None \<Rightarrow> rbind (ServerCredentials (in_tls io) (sv_GRPCCert cfg) (sv_GRPCKey cfg)) (\<lambda>c. Inr (Some c)))
                 else Inr None) (\<lambda>grpc.
            Inr \<lparr>sp_trusted = trusted, sp_store = store, sp_pinger = db, sp_auditor = auditor, sp_priv = priv,
                 sp_grpc = grpc\<rparr>))))"

text \<open>
  The life of a store that is not PostgreSQL: restored, updated by clients (and saved in the background at
  ticks of the interval), and saved once more after the servers have stopped.
\<close>

definition store_open :: "float_codec \<Rightarrow> server_config \<Rightarrow> go_error option \<Rightarrow> disk \<Rightarrow> sync_state" where
  "store_open fc cfg rd d = \<lparr>sy_mem = RestoreIfNeeded fc rd cfg d New, sy_disk = d, sy_saves = 0\<rparr>"

definition store_serve ::
  "float_codec \<Rightarrow> save_env \<Rightarrow> server_config \<Rightarrow> store_kind \<Rightarrow> periodic_event list \<Rightarrow> sync_state \<Rightarrow> sync_state" where
  "store_serve fc env cfg kind es s =
     (case kind of
        SyncStore \<Rightarrow> run_updates (sync_repo fc env cfg) (event_updates es) s
      | PeriodicStore \<Rightarrow> RunPeriodicSave fc env cfg es s
      | MemoryStore \<Rightarrow> s\<lparr>sy_mem := run_updates mem_repo (event_updates es) (sy_mem s)\<rparr>
      | PostgresStore \<Rightarrow> s)"

definition store_close ::
  "float_codec \<Rightarrow> save_env \<Rightarrow> server_config \<Rightarrow> store_kind \<Rightarrow> sync_state \<Rightarrow> sync_state" where
  "store_close fc env cfg kind s = (if kind \<noteq> PostgresStore then SaveSnapshot fc env cfg s else s)"

lemma store_serve_mem:
  "kind \<noteq> PostgresStore \<Longrightarrow>
   sy_mem (store_serve fc env cfg kind es s) = run_updates mem_repo (event_updates es) (sy_mem s)"
  by (cases kind) (simp_all add: store_serve_def sync_run_mem RunPeriodicSave_def periodic_mem)

text \<open>
  A regular restart loses nothing, whatever store the configuration selects. If the server was running
  without PostgreSQL on a snapshot file, synchronously, at intervals or (with a negative interval)
  only at the end, then after any updates and ticks and a regular stop whose save goes through, starting
  again with restoring enabled gives exactly the metrics of all updates applied to what it had started with.
\<close>

theorem graceful_restart:
  assumes "float_codec_ok fc" "server_run parse6 io (Inr cfg) = Inr parts"
    and "sp_store parts \<noteq> PostgresStore" "sv_FileStoragePath cfg \<noteq> []" "sv_Restore cfg"
    and "save_ok env cfg (sy_saves (store_serve fc env cfg (sp_store parts) es (store_open fc cfg rd d)))
           (run_updates mem_repo (event_updates es) (RestoreIfNeeded fc rd cfg d New))"
  shows "sy_mem (store_open fc cfg None
           (sy_disk (store_close fc env cfg (sp_store parts)
              (store_serve fc env cfg (sp_store parts) es (store_open fc cfg rd d))))) =
         run_updates mem_repo (event_updates es) (RestoreIfNeeded fc rd cfg d New) \<and>
         sp_store parts = (if sv_StoreInterval cfg = 0 then SyncStore else PeriodicStore)"
proof -
  let ?s = "store_serve fc env cfg (sp_store parts) es (store_open fc cfg rd d)"
  have mem: "sy_mem ?s = run_updates mem_repo (event_updates es) (RestoreIfNeeded fc rd cfg d New)"
    using assms(3) by (simp add: store_serve_mem) (simp add: store_open_def)
  have "save_ok env cfg (sy_saves ?s) (sy_mem ?s)" using assms(6) by (simp only: mem)
  from restart_loaded [OF SaveSnapshot_load [OF assms(1,4) this] assms(5,4)]
  have load: "restart fc cfg (sy_disk (SaveSnapshot fc env cfg ?s)) = sy_mem ?s" .
  have sel: "sp_store parts = select_store cfg (db_connected io cfg) (pg_New (in_migrate io))"
    using assms(2) by (auto simp: server_run_def rbind_Inr_iff Let_def)
  have "sp_store parts = (if sv_StoreInterval cfg = 0 then SyncStore else PeriodicStore)"
    using assms(3,4) by (auto simp: sel select_store_def split: if_splits)
  moreover have "sy_mem (store_open fc cfg None (sy_disk (store_close fc env cfg (sp_store parts) ?s))) =
      run_updates mem_repo (event_updates es) (RestoreIfNeeded fc rd cfg d New)"
    using assms(3) load [unfolded mem restart_def] by (simp add: store_close_def store_open_def [of fc cfg None])
  ultimately show ?thesis by blast
qed

definition quiet_inputs :: server_inputs where
  "quiet_inputs = \<lparr>in_open = None, in_ping = (\<lambda>_. None), in_migrate = \<lparr>mg_sub = None, mg_provider = None, mg_up = None\<rparr>,
                   in_audit_file = None, in_key = (\<lambda>_. Inl ErrNoRows),
                   in_listen = None, in_tls = plain_tls\<rparr>"

theorem graceful_restart_witness:
  "sy_mem (store_open bits_codec sync_cfg None
      (sy_disk (store_close bits_codec one_env sync_cfg SyncStore
         (store_serve bits_codec one_env sync_cfg SyncStore [PUpdate (UpdCounter ''a'' 5)]
            (store_open bits_codec sync_cfg None Map.empty))))) =
   run_updates mem_repo [UpdCounter ''a'' 5] New"
proof -
  obtain parts where p: "server_run (\<lambda>_. None) quiet_inputs (Inr sync_cfg) = Inr parts" "sp_store parts = SyncStore"
    by (simp add: server_run_def db_connected_def ParseCIDR_def sync_cfg_def server_defaults_def select_store_def Let_def)
  have restored: "RestoreIfNeeded bits_codec None sync_cfg Map.empty New = New"
    by (simp add: RestoreIfNeeded_def Load_def sync_cfg_def)
  have cfg: "sp_store parts \<noteq> PostgresStore" "sv_FileStoragePath sync_cfg \<noteq> []" "sv_Restore sync_cfg"
    by (simp_all add: p(2) sync_cfg_def)
  have "save_ok one_env sync_cfg k (run_updates mem_repo (event_updates [PUpdate (UpdCounter ''a'' 5)])
      (RestoreIfNeeded bits_codec None sync_cfg Map.empty New))" for k
    using one_env_ok(1) by (simp add: restored)
  from graceful_restart [OF bits_codec_ok p(1) cfg this] show ?thesis by (simp add: p(2) restored)
qed

text \<open>
  What the configuration says is what runs. A subnet that does not parse, a private key that does not
  load, a gRPC port or certificate that is not available end the start with that error; a database that
  does not answer or migrate never does: the server uses the best store that is available, PostgreSQL before
  a synchronous file, before a periodic one, before memory. gRPC is served with its credentials when configured. The auditor
  has exactly the sinks that are configured and could be opened, in the order file, address.
\<close>

theorem server_parts_spec:
  "(case server_run parse6 io (Inr cfg) of
      Inl e \<Rightarrow>
        ParseCIDR parse6 (sv_TrustedSubnet cfg) = Inl e \<or>
        sv_CryptoKey cfg \<noteq> [] \<and> in_key io (sv_CryptoKey cfg) = Inl e \<or>
        sv_GRPCAddress cfg \<noteq> [] \<and> (in_listen io = Some e \<or> in_listen io = None \<and>
          ServerCredentials (in_tls io) (sv_GRPCCert cfg) (sv_GRPCKey cfg) = Inl e)
    | Inr parts \<Rightarrow>
        ParseCIDR parse6 (sv_TrustedSubnet cfg) = Inr (sp_trusted parts) \<and>
        sp_store parts = Max (set (filter (available cfg (db_connected io cfg) (pg_New (in_migrate io)))
          [MemoryStore, PeriodicStore, SyncStore, PostgresStore])) \<and>
        (sp_priv parts = None) = (sv_CryptoKey cfg = []) \<and> (sp_grpc parts = None) = (sv_GRPCAddress cfg = []) \<and>
        (case sp_auditor parts of None \<Rightarrow> [] | Some sub \<Rightarrow> su_observers sub) =
          (if sv_AuditFile cfg \<noteq> [] \<and> in_audit_file io = None then [FileSink (sv_AuditFile cfg)] else []) @
          (if sv_AuditURL cfg \<noteq> [] then [HTTPSink (sv_AuditURL cfg)] else []))"
proof -
  have aud: "(case newAuditor op f u of None \<Rightarrow> [] | Some sub \<Rightarrow> su_observers sub) =
      (if f \<noteq> [] \<and> op = None then [FileSink f] else []) @ (if u \<noteq> [] then [HTTPSink u] else [])" for op f u
    by (cases op) (simp_all add: newAuditor_def Subscribe_def NewSubject_def)
  show ?thesis
    unfolding select_store_max [symmetric]
    by (cases "ParseCIDR parse6 (sv_TrustedSubnet cfg)"; cases "in_key io (sv_CryptoKey cfg)"; cases "in_listen io";
        cases "ServerCredentials (in_tls io) (sv_GRPCCert cfg) (sv_GRPCKey cfg)")
      (auto simp: server_run_def Let_def aud)
qed

end
