(* ===== verification/Server_Shutdown.thy ===== *)
theory Server_Shutdown
  imports Server_Main Runs
begin

text \<open>
  The second half of \<open>run\<close> in \<open>cmd/server/main.go\<close> (serving and stopping) with what runs beside it: the
  requests in progress, each in a goroutine of its own, and the goroutine of \<open>RunPeriodicSave\<close>. Unlike
  \<open>Snapshot\<close>, where a save is one operation, \<open>SaveSnapshot\<close> is taken apart here into what other goroutines
  can come between: reading the counters, reading the gauges (the store is locked for each of them, not for both),
  then every single effect of \<open>Save\<close> on the disk.
\<close>

section \<open>State\<close>

datatype job =
    JobHTTP update
  | JobGRPC update
  | JobTick
  | JobFinal

datatype stage =
    Todo
  | ReadCounters
  | ReadGauges "string \<rightharpoonup> int64"
  | Writing "fs_action list"

record thread =
  th_job :: job
  th_stage :: stage

datatype server_phase = Serving | HttpDraining | GrpcDraining | SaverStopping | FinalSave | Stopped

text \<open>
  \<open>sd_open\<close>: the connections of the HTTP server still take requests. \<open>sd_applied\<close> and \<open>sd_acked\<close> are the history:
  the updates in the order in which the store took them, and in the order in which they were answered.
\<close>

record server_state =
  sd_phase :: server_phase
  sd_open :: bool
  sd_threads :: "thread list"
  sd_mem :: mem_storage
  sd_disk :: disk
  sd_saves :: nat
  sd_applied :: "update list"
  sd_acked :: "update list"

text \<open>
  \<open>Advance i\<close> is the next operation of goroutine \<open>i\<close>. \<open>ListenFailed\<close> is the end of \<open>ListenAndServe\<close> by
  itself, the two timeouts are those of \<open>Shutdown\<close> and of \<open>GracefulStop\<close>.
\<close>

datatype server_label =
    AcceptHTTP update
  | AcceptGRPC update
  | Tick
  | Advance nat
  | Signal
  | ListenFailed
  | HttpDrained
  | HttpTimeout
  | GrpcDrained
  | GrpcTimeout
  | SaverDone

definition server_start :: "float_codec \<Rightarrow> server_config \<Rightarrow> go_error option \<Rightarrow> disk \<Rightarrow> server_state" where
  "server_start fc cfg rd d =
     \<lparr>sd_phase = Serving, sd_open = True, sd_threads = [],
      sd_mem = sy_mem (store_open fc cfg rd d), sd_disk = d, sd_saves = 0, sd_applied = [], sd_acked = []\<rparr>"

section \<open>Operations of a goroutine\<close>

definition spawn :: "job \<Rightarrow> stage \<Rightarrow> server_state \<Rightarrow> server_state" where
  "spawn j st s = s\<lparr>sd_threads := sd_threads s @ [\<lparr>th_job = j, th_stage = st\<rparr>]\<rparr>"

definition to_stage :: "nat \<Rightarrow> stage \<Rightarrow> server_state \<Rightarrow> server_state" where
  "to_stage i st s = s\<lparr>sd_threads := (sd_threads s)[i := (sd_threads s ! i)\<lparr>th_stage := st\<rparr>]\<rparr>"

fun job_updates :: "job \<Rightarrow> update list" where
  "job_updates (JobHTTP u) = [u]"
| "job_updates (JobGRPC u) = [u]"
| "job_updates JobTick = []"
| "job_updates JobFinal = []"

text \<open>
  A handler updates the store under its lock; the synchronous store then saves. The connections
  of the gRPC server are closed by \<open>Stop\<close>, those of the HTTP server live until the process ends, so that an
  answer counts when the handler gives it (after \<open>HttpTimeout\<close> the write deadline may still suppress it).
\<close>

definition apply_job :: "server_config \<Rightarrow> store_kind \<Rightarrow> nat \<Rightarrow> server_state \<Rightarrow> server_state" where
  "apply_job cfg kind i s =
     (let us = job_updates (th_job (sd_threads s ! i));
          st = (if kind = SyncStore \<and> sv_StoreInterval cfg = 0 \<and> sv_FileStoragePath cfg \<noteq> []
                then ReadCounters else Writing [])
      in to_stage i st
           (s\<lparr>sd_mem := (if kind = PostgresStore then sd_mem s else run_updates mem_repo us (sd_mem s)),
              sd_applied := sd_applied s @ us\<rparr>))"

definition grpc_open :: "server_phase \<Rightarrow> bool" where
  "grpc_open p = (p \<in> {Serving, HttpDraining, GrpcDraining})"

fun answered :: "server_phase \<Rightarrow> job \<Rightarrow> update list" where
  "answered p (JobHTTP u) = [u]"
| "answered p (JobGRPC u) = (if grpc_open p then [u] else [])"
| "answered p JobTick = []"
| "answered p JobFinal = []"

definition finish_job :: "nat \<Rightarrow> server_state \<Rightarrow> server_state" where
  "finish_job i s =
     (let j = th_job (sd_threads s ! i)
      in s\<lparr>sd_threads := take i (sd_threads s) @ drop (Suc i) (sd_threads s),
           sd_acked := sd_acked s @ answered (sd_phase s) j,
           sd_phase := (if j = JobFinal then Stopped else sd_phase s)\<rparr>)"

definition advance :: "float_codec \<Rightarrow> save_env \<Rightarrow> server_config \<Rightarrow> store_kind \<Rightarrow> nat \<Rightarrow> server_state \<Rightarrow> server_state" where
  "advance fc env cfg kind i s =
     (case th_stage (sd_threads s ! i) of
        Todo \<Rightarrow> apply_job cfg kind i s
      | ReadCounters \<Rightarrow>
          to_stage i
            (if sv_FileStoragePath cfg = [] then Writing []
             else ReadGauges (map_or_nil (fst (mem_GetAllCounters (sd_mem s))))) s
      | ReadGauges counters \<Rightarrow>
          (let gauges = map_or_nil (fst (mem_GetAllGauges (sd_mem s)));
               k = sd_saves s
           in to_stage i (Writing (snd (Save fc (se_plan env k) (se_corder env k counters) (se_gorder env k gauges)
                (sv_FileStoragePath cfg) counters gauges))) (s\<lparr>sd_saves := Suc k\<rparr>))
      | Writing (a # as) \<Rightarrow> to_stage i (Writing as) (s\<lparr>sd_disk := fs_apply a (sd_disk s)\<rparr>)
      | Writing [] \<Rightarrow> finish_job i s)"

section \<open>Steps\<close>

definition busy :: "(job \<Rightarrow> bool) \<Rightarrow> server_state \<Rightarrow> bool" where
  "busy P s = list_ex (\<lambda>th. P (th_job th)) (sd_threads s)"

fun http_job :: "job \<Rightarrow> bool" where
  "http_job (JobHTTP u) = True"
| "http_job (JobGRPC u) = False"
| "http_job JobTick = False"
| "http_job JobFinal = False"

fun grpc_job :: "job \<Rightarrow> bool" where
  "grpc_job (JobHTTP u) = False"
| "grpc_job (JobGRPC u) = True"
| "grpc_job JobTick = False"
| "grpc_job JobFinal = False"

text \<open>
  The guards are the waits of \<open>run\<close>: \<open>Shutdown\<close> closes the listener and waits for the requests,
  \<open>GracefulStop\<close> does the same for the calls, \<open>saveWG.Wait\<close> waits for a periodic save; the last
  save is the main goroutine's own. When it has returned the process ends: nothing moves any more.
\<close>

fun server_step ::
  "float_codec \<Rightarrow> save_env \<Rightarrow> server_config \<Rightarrow> server_parts \<Rightarrow> server_state \<Rightarrow> server_label \<Rightarrow> server_state option" where
  "server_step fc env cfg parts s (AcceptHTTP u) =
     (if sd_open s \<and> sd_phase s \<noteq> Stopped then Some (spawn (JobHTTP u) Todo s) else None)"
| "server_step fc env cfg parts s (AcceptGRPC u) =
     (if sp_grpc parts \<noteq> None \<and> sd_phase s \<in> {Serving, HttpDraining} then Some (spawn (JobGRPC u) Todo s) else None)"
| "server_step fc env cfg parts s Tick =
     (if sp_store parts = PeriodicStore \<and> 0 < sv_StoreInterval cfg \<and> \<not> busy (\<lambda>j. j = JobTick) s \<and>
         sd_phase s \<in> {Serving, HttpDraining, GrpcDraining, SaverStopping}
      then Some (spawn JobTick ReadCounters s) else None)"
| "server_step fc env cfg parts s (Advance i) =
     (if i < length (sd_threads s) \<and> sd_phase s \<noteq> Stopped then Some (advance fc env cfg (sp_store parts) i s) else None)"
| "server_step fc env cfg parts s Signal =
     (if sd_phase s = Serving then Some (s\<lparr>sd_phase := HttpDraining, sd_open := False\<rparr>) else None)"
| "server_step fc env cfg parts s ListenFailed =
     (if sd_phase s = Serving then Some (s\<lparr>sd_phase := GrpcDraining\<rparr>) else None)"
| "server_step fc env cfg parts s HttpDrained =
     (if sd_phase s = HttpDraining \<and> \<not> busy http_job s then Some (s\<lparr>sd_phase := GrpcDraining\<rparr>) else None)"
| "server_step fc env cfg parts s HttpTimeout =
     (if sd_phase s = HttpDraining then Some (s\<lparr>sd_phase := GrpcDraining\<rparr>) else None)"
| "server_step fc env cfg parts s GrpcDrained =
     (if sd_phase s = GrpcDraining \<and> \<not> busy grpc_job s then Some (s\<lparr>sd_phase := SaverStopping\<rparr>) else None)"
| "server_step fc env cfg parts s GrpcTimeout =
     (if sd_phase s = GrpcDraining \<and> sp_grpc parts \<noteq> None then Some (s\<lparr>sd_phase := SaverStopping\<rparr>) else None)"
| "server_step fc env cfg parts s SaverDone =
     (if sd_phase s = SaverStopping \<and> \<not> busy (\<lambda>j. j = JobTick) s
      then Some (if sp_store parts \<noteq> PostgresStore then spawn JobFinal ReadCounters (s\<lparr>sd_phase := FinalSave\<rparr>)
                 else s\<lparr>sd_phase := Stopped\<rparr>)
      else None)"

definition server_moves ::
  "float_codec \<Rightarrow> save_env \<Rightarrow> server_config \<Rightarrow> server_parts \<Rightarrow> server_state \<Rightarrow> server_label \<Rightarrow> server_state \<Rightarrow> bool" where
  "server_moves fc env cfg parts s l t = (server_step fc env cfg parts s l = Some t)"

fun accepted_updates :: "server_label \<Rightarrow> update list" where
  "accepted_updates (AcceptHTTP u) = [u]"
| "accepted_updates (AcceptGRPC u) = [u]"
| "accepted_updates _ = []"

fun in_time :: "server_label \<Rightarrow> bool" where
  "in_time HttpTimeout = False"
| "in_time GrpcTimeout = False"
| "in_time ListenFailed = False"
| "in_time _ = True"

end
