(* ===== verification/Shutdown_Specs.thy ===== *)
theory Shutdown_Specs
  imports Server_Shutdown
begin

text \<open>
  What serving and stopping guarantee: an invariant of the phases by rule induction over the runs, the balance of
  the requests, and what is in the last snapshot.
\<close>

section \<open>Goroutines\<close>

lemma busy_spawn [simp]: "busy P (spawn j st s) = (busy P s \<or> P j)"
  by (auto simp: busy_def spawn_def)

lemma busy_phase [simp]:
  "busy P (s\<lparr>sd_phase := p\<rparr>) = busy P s" "busy P (s\<lparr>sd_open := b\<rparr>) = busy P s"
  "busy P (s\<lparr>sd_mem := m\<rparr>) = busy P s" "busy P (s\<lparr>sd_disk := d\<rparr>) = busy P s"
  "busy P (s\<lparr>sd_saves := k\<rparr>) = busy P s" "busy P (s\<lparr>sd_applied := us\<rparr>) = busy P s"
  "busy P (s\<lparr>sd_acked := us\<rparr>) = busy P s"
  by (simp_all add: busy_def)

lemma spawn_fields [simp]:
  "sd_phase (spawn j st s) = sd_phase s" "sd_open (spawn j st s) = sd_open s" "sd_mem (spawn j st s) = sd_mem s"
  "sd_disk (spawn j st s) = sd_disk s" "sd_saves (spawn j st s) = sd_saves s"
  "sd_applied (spawn j st s) = sd_applied s" "sd_acked (spawn j st s) = sd_acked s"
  "sd_threads (spawn j st s) = sd_threads s @ [\<lparr>th_job = j, th_stage = st\<rparr>]"
  by (simp_all add: spawn_def)

lemma to_stage_fields [simp]:
  "sd_phase (to_stage i st s) = sd_phase s" "sd_open (to_stage i st s) = sd_open s" "sd_mem (to_stage i st s) = sd_mem s"
  "sd_disk (to_stage i st s) = sd_disk s" "sd_saves (to_stage i st s) = sd_saves s"
  "sd_applied (to_stage i st s) = sd_applied s" "sd_acked (to_stage i st s) = sd_acked s"
  "sd_threads (to_stage i st s) = (sd_threads s)[i := (sd_threads s ! i)\<lparr>th_stage := st\<rparr>]"
  by (simp_all add: to_stage_def)

lemma finish_fields [simp]:
  "sd_threads (finish_job i s) = take i (sd_threads s) @ drop (Suc i) (sd_threads s)"
  "sd_acked (finish_job i s) = sd_acked s @ answered (sd_phase s) (th_job (sd_threads s ! i))"
  "sd_phase (finish_job i s) = (if th_job (sd_threads s ! i) = JobFinal then Stopped else sd_phase s)"
  "sd_mem (finish_job i s) = sd_mem s" "sd_disk (finish_job i s) = sd_disk s"
  "sd_saves (finish_job i s) = sd_saves s" "sd_applied (finish_job i s) = sd_applied s"
  by (simp_all add: finish_job_def Let_def)

lemma jobs_to_stage: "i < length ths \<Longrightarrow> map th_job (ths[i := (ths ! i)\<lparr>th_stage := st\<rparr>]) = map th_job ths"
  by (simp add: map_update list_update_same_conv)

lemma busy_jobs: "busy P s = list_ex P (map th_job (sd_threads s))"
  by (simp add: busy_def list_ex_iff)

lemma busy_to_stage [simp]: "i < length (sd_threads s) \<Longrightarrow> busy P (to_stage i st s) = busy P s"
  by (simp only: busy_jobs to_stage_fields jobs_to_stage)

lemma busy_finish: "busy P (finish_job i s) \<Longrightarrow> busy P s"
  by (auto simp: busy_def list_ex_iff finish_job_def Let_def dest: in_set_takeD in_set_dropD)

lemma busy_nth: "i < length (sd_threads s) \<Longrightarrow> P (th_job (sd_threads s ! i)) \<Longrightarrow> busy P s"
  by (auto simp: busy_def list_ex_iff)

text \<open>An operation starts no goroutine, and only the last save ends the process.\<close>

lemma advance_busy:
  "i < length (sd_threads s) \<Longrightarrow> busy P (advance fc env cfg kind i s) \<Longrightarrow> busy P s"
  by (auto simp: advance_def apply_job_def Let_def dest: busy_finish split: stage.splits list.splits if_splits)

lemma advance_phase:
  assumes "i < length (sd_threads s)" "\<not> busy (\<lambda>j. j = JobFinal) s"
  shows "sd_phase (advance fc env cfg kind i s) = sd_phase s" "sd_open (advance fc env cfg kind i s) = sd_open s"
  using assms busy_nth [OF assms(1), of "\<lambda>j. j = JobFinal"]
  by (auto simp: advance_def apply_job_def finish_job_def Let_def split: stage.splits list.splits)

lemma advance_mem:
  assumes "kind \<noteq> PostgresStore" "sd_mem s = run_updates mem_repo (sd_applied s) m"
  shows "sd_mem (advance fc env cfg kind i s) =
    run_updates mem_repo (sd_applied (advance fc env cfg kind i s)) m"
  using assms
  by (auto simp: advance_def apply_job_def finish_job_def Let_def run_updates_append split: stage.splits list.splits)

section \<open>The phases\<close>

text \<open>The last save: what it has read, and what will be on the disk when it is done.\<close>

fun final_ok :: "float_codec \<Rightarrow> save_env \<Rightarrow> server_config \<Rightarrow> stage \<Rightarrow> server_state \<Rightarrow> bool" where
  "final_ok fc env cfg Todo s = False"
| "final_ok fc env cfg ReadCounters s = True"
| "final_ok fc env cfg (ReadGauges c) s = (c = Counters (sd_mem s))"
| "final_ok fc env cfg (Writing as) s =
     (\<exists>d. fs_run as (sd_disk s) =
        sy_disk (SaveSnapshot fc env cfg \<lparr>sy_mem = sd_mem s, sy_disk = d, sy_saves = sd_saves s - 1\<rparr>))"

definition drained :: "server_state \<Rightarrow> bool" where
  "drained s \<longleftrightarrow>
     (sd_phase s \<noteq> Serving \<longrightarrow> \<not> sd_open s) \<and>
     (sd_phase s \<in> {GrpcDraining, SaverStopping} \<longrightarrow> \<not> busy http_job s) \<and>
     (sd_phase s = SaverStopping \<longrightarrow> \<not> busy grpc_job s) \<and>
     (sd_phase s \<noteq> FinalSave \<longrightarrow> \<not> busy (\<lambda>j. j = JobFinal) s)"

definition finishing :: "float_codec \<Rightarrow> save_env \<Rightarrow> server_config \<Rightarrow> server_state \<Rightarrow> bool" where
  "finishing fc env cfg s \<longleftrightarrow>
     (sd_phase s = FinalSave \<longrightarrow>
        (\<exists>st. sd_threads s = [\<lparr>th_job = JobFinal, th_stage = st\<rparr>] \<and> final_ok fc env cfg st s)) \<and>
     (sd_phase s = Stopped \<longrightarrow> sd_threads s = [] \<and> final_ok fc env cfg (Writing []) s)"

definition server_inv ::
  "float_codec \<Rightarrow> save_env \<Rightarrow> server_config \<Rightarrow> server_parts \<Rightarrow> mem_storage \<Rightarrow> server_state \<Rightarrow> bool" where
  "server_inv fc env cfg parts m s \<longleftrightarrow>
     sp_store parts \<noteq> PostgresStore \<and> sv_FileStoragePath cfg \<noteq> [] \<and> drained s \<and> finishing fc env cfg s \<and>
     sd_mem s = run_updates mem_repo (sd_applied s) m"

text \<open>A job of none of the four kinds does not exist: with none of them busy there is no goroutine.\<close>

lemma not_busy_empty:
  assumes "\<not> busy http_job s" "\<not> busy grpc_job s" "\<not> busy (\<lambda>j. j = JobTick) s" "\<not> busy (\<lambda>j. j = JobFinal) s"
  shows "sd_threads s = []"
proof (cases "sd_threads s")
  case (Cons th ths)
  with assms show ?thesis by (cases "th_job th") (simp_all add: busy_def)
qed simp

lemma SaveSnapshot_disk:
  assumes "sv_FileStoragePath cfg \<noteq> []"
  shows "sy_disk (SaveSnapshot fc env cfg \<lparr>sy_mem = m, sy_disk = d, sy_saves = k\<rparr>) =
    fs_run (snd (Save fc (se_plan env k) (se_corder env k (Counters m)) (se_gorder env k (Gauges m))
      (sv_FileStoragePath cfg) (Counters m) (Gauges m))) d"
  using assms
  by (simp add: SaveSnapshot_def Let_def split_beta map_or_nil_def mem_GetAllCounters_def mem_GetAllGauges_def)

lemma finishing_advance:
  assumes "finishing fc env cfg s" "sd_phase s = FinalSave" "i < length (sd_threads s)" "drained s" "sv_FileStoragePath cfg \<noteq> []"
  shows "drained (advance fc env cfg kind i s) \<and> finishing fc env cfg (advance fc env cfg kind i s)"
proof -
  from assms(1-3) obtain st where ths: "sd_threads s = [\<lparr>th_job = JobFinal, th_stage = st\<rparr>]"
    and ok: "final_ok fc env cfg st s" and i: "i = 0"
    by (auto simp: finishing_def)
  show ?thesis
  proof (cases st)
    case (Writing as)
    then show ?thesis using assms(2,4) ok
      by (cases as) (auto simp: advance_def finish_job_def drained_def finishing_def busy_def ths i)
  qed (use assms(2,4,5) ok in \<open>auto simp: advance_def drained_def finishing_def busy_def ths i SaveSnapshot_disk
        map_or_nil_def mem_GetAllCounters_def mem_GetAllGauges_def Let_def\<close>)
qed

lemma drained_advance:
  assumes "drained s" "sd_phase s \<noteq> FinalSave" "sd_phase s \<noteq> Stopped" "i < length (sd_threads s)"
  shows "drained (advance fc env cfg kind i s) \<and> finishing fc env cfg (advance fc env cfg kind i s)"
proof -
  have fin: "\<not> busy (\<lambda>j. j = JobFinal) s" using assms(1,2) by (simp add: drained_def)
  note adv = advance_phase [OF assms(4) fin, of fc env cfg kind]
  have "\<not> busy P s \<Longrightarrow> \<not> busy P (advance fc env cfg kind i s)" for P
    using advance_busy [OF assms(4)] by blast
  with assms(1-3) show ?thesis by (auto simp: drained_def finishing_def adv)
qed

text \<open>A step that starts a goroutine; the last save.\<close>

lemma drained_spawn:
  assumes "drained s" "http_job j \<longrightarrow> sd_open s" "grpc_job j \<longrightarrow> sd_phase s \<in> {Serving, HttpDraining}"
    "sd_phase s \<in> {Serving, HttpDraining, GrpcDraining, SaverStopping}" "j \<noteq> JobFinal"
  shows "drained (spawn j st s) \<and> finishing fc env cfg (spawn j st s)"
  using assms by (cases "sd_phase s"; cases j) (simp_all add: drained_def finishing_def)

lemma saver_done_inv:
  assumes "drained s" "sd_phase s = SaverStopping" "\<not> busy (\<lambda>j. j = JobTick) s"
  shows "drained (spawn JobFinal ReadCounters (s\<lparr>sd_phase := FinalSave\<rparr>)) \<and>
    finishing fc env cfg (spawn JobFinal ReadCounters (s\<lparr>sd_phase := FinalSave\<rparr>))"
  using assms not_busy_empty [of s] by (simp add: drained_def finishing_def)

lemma server_inv_step:
  assumes "server_inv fc env cfg parts m s" "server_moves fc env cfg parts s l t" "in_time l"
  shows "server_inv fc env cfg parts m t"
proof -
  from assms(1) have inv: "drained s" "finishing fc env cfg s" "sp_store parts \<noteq> PostgresStore"
    "sv_FileStoragePath cfg \<noteq> []" "sd_mem s = run_updates mem_repo (sd_applied s) m"
    by (simp_all add: server_inv_def)
  note step = assms(2) [unfolded server_moves_def]
  have "drained t \<and> finishing fc env cfg t \<and> sd_mem t = run_updates mem_repo (sd_applied t) m"
  proof (cases l)
    case (AcceptHTTP u)
    then have t: "t = spawn (JobHTTP u) Todo s" "sd_open s" using step by (simp_all split: if_splits)
    with inv(1) have "sd_phase s = Serving" by (auto simp: drained_def)
    with t inv(1,5) drained_spawn [of s "JobHTTP u" Todo fc env cfg] show ?thesis by simp
  next
    case (AcceptGRPC u)
    with step inv(1,5) drained_spawn [of s "JobGRPC u" Todo fc env cfg] show ?thesis by (auto split: if_splits)
  next
    case Tick
    with step inv(1,5) drained_spawn [of s JobTick ReadCounters fc env cfg] show ?thesis by (auto split: if_splits)
  next
    case (Advance i)
    with step have i: "i < length (sd_threads s)" "sd_phase s \<noteq> Stopped"
      and t: "t = advance fc env cfg (sp_store parts) i s"
      by (simp_all split: if_splits)
    then show ?thesis using inv finishing_advance drained_advance advance_mem by blast
  next
    case SaverDone
    with step inv saver_done_inv [of s fc env cfg] show ?thesis by (auto split: if_splits)
  next
    case HttpDrained
    with step inv(1,5) show ?thesis by (auto simp: drained_def finishing_def split: if_splits)
  next
    case GrpcDrained
    with step inv(1,5) show ?thesis by (auto simp: drained_def finishing_def split: if_splits)
  next
    case Signal
    with step inv(1,5) show ?thesis by (auto simp: drained_def finishing_def split: if_splits)
  qed (use assms(3) in simp_all)
  with inv(3,4) show ?thesis by (simp add: server_inv_def)
qed

section \<open>The balance of the requests\<close>

definition todo_updates :: "thread \<Rightarrow> update list" where
  "todo_updates th = (if th_stage th = Todo then job_updates (th_job th) else [])"

definition taken :: "server_state \<Rightarrow> update multiset" where
  "taken s = mset (sd_applied s) + mset (concat (map todo_updates (sd_threads s)))"

definition owed :: "server_state \<Rightarrow> update multiset" where
  "owed s = mset (sd_acked s) + mset (concat (map (job_updates \<circ> th_job) (sd_threads s)))"

lemma mset_concat_remove:
  assumes "i < length xs"
  shows "mset (concat (map f xs)) = mset (f (xs ! i)) + mset (concat (map f (take i xs @ drop (Suc i) xs)))"
proof -
  have "concat (map f xs) = concat (map f (take i xs @ xs ! i # drop (Suc i) xs))"
    using id_take_nth_drop [OF assms] by simp
  then show ?thesis by simp
qed

lemma mset_concat_update:
  assumes "i < length xs"
  shows "mset (concat (map f (xs[i := y]))) = mset (f y) + mset (concat (map f (take i xs @ drop (Suc i) xs)))"
  using assms mset_concat_remove [of i "xs[i := y]" f] by simp

lemma taken_advance:
  assumes "i < length (sd_threads s)"
  shows "taken (advance fc env cfg kind i s) = taken s"
  using assms mset_concat_remove [OF assms, of todo_updates]
  by (auto simp: taken_def advance_def apply_job_def finish_job_def Let_def mset_concat_update todo_updates_def
      simp del: concat_append map_append split: stage.splits list.splits)

lemma owed_advance:
  assumes "i < length (sd_threads s)" "\<not> grpc_open (sd_phase s) \<longrightarrow> \<not> busy grpc_job s"
  shows "owed (advance fc env cfg kind i s) = owed s"
proof -
  have "\<not> grpc_open (sd_phase s) \<Longrightarrow> \<not> grpc_job (th_job (sd_threads s ! i))"
    using assms busy_nth [OF assms(1), of grpc_job] by blast
  then have "answered (sd_phase s) (th_job (sd_threads s ! i)) = job_updates (th_job (sd_threads s ! i))"
    by (cases "th_job (sd_threads s ! i)") auto
  then show ?thesis
    using assms(1) mset_concat_remove [OF assms(1), of "job_updates \<circ> th_job"]
    by (auto simp: owed_def advance_def apply_job_def finish_job_def Let_def mset_concat_update
        simp del: concat_append map_append split: stage.splits list.splits)
qed

lemma inv_grpc: "server_inv fc env cfg parts m s \<Longrightarrow> \<not> grpc_open (sd_phase s) \<Longrightarrow> \<not> busy grpc_job s"
  by (cases "sd_phase s") (auto simp: server_inv_def drained_def finishing_def grpc_open_def busy_def)

interpretation store_balance: balanced_system "server_moves fc env cfg parts" "server_inv fc env cfg parts m"
  in_time taken accepted_updates for fc env cfg parts m
proof (unfold_locales, goal_cases)
  case (1 s l t)
  then show ?case by (rule server_inv_step)
next
  case (2 s l t)
  show ?case
  proof (cases l)
    case (Advance i)
    with 2(2) have "i < length (sd_threads s)" "t = advance fc env cfg (sp_store parts) i s"
      by (simp_all add: server_moves_def split: if_splits)
    then show ?thesis using inv_grpc [OF 2(1)] by (simp add: taken_advance Advance)
  qed (use 2(2) in \<open>auto simp: server_moves_def taken_def todo_updates_def split: if_splits\<close>)
qed

interpretation answer_balance: balanced_system "server_moves fc env cfg parts" "server_inv fc env cfg parts m"
  in_time owed accepted_updates for fc env cfg parts m
proof (unfold_locales, goal_cases)
  case (1 s l t)
  then show ?case by (rule server_inv_step)
next
  case (2 s l t)
  show ?case
  proof (cases l)
    case (Advance i)
    with 2(2) have "i < length (sd_threads s)" "t = advance fc env cfg (sp_store parts) i s"
      by (simp_all add: server_moves_def split: if_splits)
    then show ?thesis using inv_grpc [OF 2(1)] by (simp add: owed_advance Advance)
  qed (use 2(2) in \<open>auto simp: server_moves_def owed_def split: if_splits\<close>)
qed

section \<open>Stopping loses nothing\<close>

lemma server_start_inv:
  "sp_store parts \<noteq> PostgresStore \<Longrightarrow> sv_FileStoragePath cfg \<noteq> [] \<Longrightarrow>
   server_inv fc env cfg parts (sd_mem (server_start fc cfg rd d)) (server_start fc cfg rd d)"
  by (simp add: server_inv_def drained_def finishing_def server_start_def busy_def)

lemma server_start_empty: "taken (server_start fc cfg rd d) = {#}" "owed (server_start fc cfg rd d) = {#}"
  by (simp_all add: taken_def owed_def server_start_def)

lemma stopped_fields:
  assumes "server_inv fc env cfg parts m t" "sd_phase t = Stopped"
  shows "taken t = mset (sd_applied t)" "owed t = mset (sd_acked t)"
    "\<exists>d. sd_disk t = sy_disk (SaveSnapshot fc env cfg \<lparr>sy_mem = sd_mem t, sy_disk = d, sy_saves = sd_saves t - 1\<rparr>)"
  using assms by (auto simp: server_inv_def finishing_def taken_def owed_def)

text \<open>
  C14: A regular stop loses nothing, in every interleaving. The server runs without PostgreSQL on a snapshot
  file (synchronously, at intervals or only at the end); requests and calls come in, are handled beside each
  other and beside the periodic save; a signal comes, and the requests in progress end before the timeouts. Then
  when \<open>run\<close> returns every accepted update has been answered and was applied once, and, if the last save went through,
  starting again with restoring enabled gives exactly what these updates made of the store the server had started with.
\<close>

theorem shutdown_durable:
  assumes "float_codec_ok fc"
    and "sp_store parts \<noteq> PostgresStore" "sv_FileStoragePath cfg \<noteq> []" "sv_Restore cfg"
    and "run (server_moves fc env cfg parts) (server_start fc cfg rd d) ls t" "list_all in_time ls"
    and "sd_phase t = Stopped" "save_ok env cfg (sd_saves t - 1) (sd_mem t)"
  shows "mset (sd_acked t) = mset (concat (map accepted_updates ls)) \<and>
    mset (sd_applied t) = mset (concat (map accepted_updates ls)) \<and>
    restart fc cfg (sd_disk t) = run_updates mem_repo (sd_applied t) (RestoreIfNeeded fc rd cfg d New)"
proof -
  let ?m = "sd_mem (server_start fc cfg rd d)"
  note start = server_start_inv [OF assms(2,3), of fc env rd d]
  note taken = store_balance.balance_run [OF assms(5) start assms(6), unfolded server_start_empty]
  note owed = answer_balance.balance_run [OF assms(5) start assms(6), unfolded server_start_empty]
  note stopped = stopped_fields [OF conjunct1 [OF taken] assms(7)]
  from stopped(3) obtain d' where
    disk: "sd_disk t = sy_disk (SaveSnapshot fc env cfg \<lparr>sy_mem = sd_mem t, sy_disk = d', sy_saves = sd_saves t - 1\<rparr>)" ..
  let ?s = "\<lparr>sy_mem = sd_mem t, sy_disk = d', sy_saves = sd_saves t - 1\<rparr>"
  have "restart fc cfg (sd_disk t) = sd_mem t"
    using restart_loaded [OF SaveSnapshot_load [OF assms(1,3), of env ?s] assms(4,3)] assms(8) by (simp add: disk)
  moreover have "sd_mem t = run_updates mem_repo (sd_applied t) ?m"
    using taken by (simp add: server_inv_def)
  moreover have "?m = RestoreIfNeeded fc rd cfg d New" by (simp add: server_start_def store_open_def)
  ultimately show ?thesis using taken owed stopped(1,2) by simp
qed

section \<open>Stopping is always possible\<close>

abbreviation final_job :: "job \<Rightarrow> bool" where
  "final_job \<equiv> (\<lambda>j. j = JobFinal)"

definition final_inv :: "server_state \<Rightarrow> bool" where
  "final_inv s \<longleftrightarrow> (sd_phase s \<noteq> Stopped \<longrightarrow> (sd_phase s = FinalSave) = busy final_job s)"

lemma busy_finish_other:
  assumes "i < length (sd_threads s)" "\<not> P (th_job (sd_threads s ! i))"
  shows "busy P (finish_job i s) = busy P s"
proof -
  have "busy P s = list_ex (\<lambda>th. P (th_job th)) (take i (sd_threads s) @ sd_threads s ! i # drop (Suc i) (sd_threads s))"
    by (simp only: busy_def id_take_nth_drop [OF assms(1), symmetric])
  then show ?thesis using assms(2) by (simp add: busy_def finish_job_def Let_def)
qed

lemma final_inv_advance:
  assumes "final_inv s" "i < length (sd_threads s)" "sd_phase s \<noteq> Stopped"
  shows "final_inv (advance fc env cfg kind i s)"
proof -
  have "final_inv (finish_job i s)"
    using assms busy_finish_other [OF assms(2), of final_job]
    by (cases "th_job (sd_threads s ! i) = JobFinal") (auto simp: final_inv_def finish_job_def Let_def)
  with assms show ?thesis
    by (auto simp: advance_def apply_job_def final_inv_def Let_def split: stage.splits list.splits)
qed

lemma final_inv_step:
  assumes "final_inv s" "server_moves fc env cfg parts s l t"
  shows "final_inv t"
proof (cases l)
  case (Advance i)
  with assms(2) have "i < length (sd_threads s)" "sd_phase s \<noteq> Stopped" "t = advance fc env cfg (sp_store parts) i s"
    by (simp_all add: server_moves_def split: if_splits)
  with assms(1) show ?thesis by (simp add: final_inv_advance)
qed (use assms in \<open>auto simp: server_moves_def final_inv_def split: if_splits\<close>)

lemma final_inv_run:
  assumes "run (server_moves fc env cfg parts) (server_start fc cfg rd d) ls s"
  shows "final_inv s"
  by (rule run_invariant [where I = final_inv, OF assms])
    (simp add: final_inv_def server_start_def busy_def, rule final_inv_step)

text \<open>A goroutine that is writing can be run to its end.\<close>

lemma writing_runs:
  "sd_phase s \<noteq> Stopped \<Longrightarrow> i < length (sd_threads s) \<Longrightarrow> th_stage (sd_threads s ! i) = Writing as \<Longrightarrow>
   run (server_moves fc env cfg parts) s (replicate (Suc (length as)) (Advance i))
     (finish_job i (to_stage i (Writing []) (s\<lparr>sd_disk := fs_run as (sd_disk s)\<rparr>)))"
proof (induction as arbitrary: s)
  case Nil
  then have "to_stage i (Writing []) s = s" by (simp add: to_stage_def list_update_same_conv)
  with Nil show ?case
    by (simp only: list.size replicate.simps fs_run_simps surjective update_convs)
      (rule run_one, simp add: server_moves_def advance_def)
next
  case (Cons a as)
  let ?t = "to_stage i (Writing as) (s\<lparr>sd_disk := fs_apply a (sd_disk s)\<rparr>)"
  have one: "run (server_moves fc env cfg parts) s [Advance i] ?t"
    using Cons.prems by (intro run_one) (simp add: server_moves_def advance_def)
  have "run (server_moves fc env cfg parts) ?t (replicate (Suc (length as)) (Advance i))
      (finish_job i (to_stage i (Writing []) (?t\<lparr>sd_disk := fs_run as (sd_disk ?t)\<rparr>)))"
    using Cons.prems by (intro Cons.IH) simp_all
  from run_append [OF this one] Cons.prems(2) show ?case by (simp add: to_stage_def)
qed

text \<open>The first goroutine alone can be run to its end, whatever it does.\<close>

definition first_ends ::
  "float_codec \<Rightarrow> save_env \<Rightarrow> server_config \<Rightarrow> server_parts \<Rightarrow> server_state \<Rightarrow> bool" where
  "first_ends fc env cfg parts s \<longleftrightarrow>
     (\<exists>k t. run (server_moves fc env cfg parts) s (replicate k (Advance 0)) t \<and>
        sd_threads t = tl (sd_threads s) \<and>
        sd_phase t = (if th_job (hd (sd_threads s)) = JobFinal then Stopped else sd_phase s))"

lemma first_ends_step:
  assumes "sd_phase s \<noteq> Stopped" "sd_threads s = th # ths" "advance fc env cfg (sp_store parts) 0 s = t"
    and "sd_phase t = sd_phase s" "sd_threads t = th\<lparr>th_stage := st\<rparr> # ths" "first_ends fc env cfg parts t"
  shows "first_ends fc env cfg parts s"
proof -
  have one: "run (server_moves fc env cfg parts) s [Advance 0] t"
    using assms(1-3) by (intro run_one) (simp add: server_moves_def)
  from assms(6) obtain k u where "run (server_moves fc env cfg parts) t (replicate k (Advance 0)) u"
    and u: "sd_threads u = ths" "sd_phase u = (if th_job th = JobFinal then Stopped else sd_phase s)"
    by (auto simp: first_ends_def assms(4,5))
  from run_append [OF this(1) one] have "run (server_moves fc env cfg parts) s (replicate (Suc k) (Advance 0)) u" by simp
  with u assms(2) show ?thesis unfolding first_ends_def by (metis list.sel(1,3))
qed

lemma first_writing_ends:
  "sd_phase s \<noteq> Stopped \<Longrightarrow> sd_threads s = th # ths \<Longrightarrow> th_stage th = Writing as \<Longrightarrow> first_ends fc env cfg parts s"
  using writing_runs [of s 0 as fc env cfg parts] unfolding first_ends_def
  by (intro exI [of _ "Suc (length as)"]
      exI [of _ "finish_job 0 (to_stage 0 (Writing []) (s\<lparr>sd_disk := fs_run as (sd_disk s)\<rparr>))"] conjI) simp_all

lemma first_ends_all:
  assumes "sd_phase s \<noteq> Stopped" "sd_threads s = th # ths"
  shows "first_ends fc env cfg parts s"
proof -
  have gauges: "first_ends fc env cfg parts s"
    if "sd_phase s \<noteq> Stopped" "sd_threads s = th # ths" "th_stage th = ReadGauges c" for s th c
  proof (rule first_ends_step [OF that(1,2) refl])
    let ?t = "advance fc env cfg (sp_store parts) 0 s"
    show "sd_phase ?t = sd_phase s" "sd_threads ?t = th\<lparr>th_stage := th_stage (hd (sd_threads ?t))\<rparr> # ths"
      by (simp_all add: advance_def that Let_def)
    then show "first_ends fc env cfg parts ?t"
      using first_writing_ends [of ?t] that by (simp add: advance_def Let_def)
  qed
  have counters: "first_ends fc env cfg parts s"
    if "sd_phase s \<noteq> Stopped" "sd_threads s = th # ths" "th_stage th = ReadCounters" for s th
  proof (rule first_ends_step [OF that(1,2) refl])
    let ?t = "advance fc env cfg (sp_store parts) 0 s"
    show "sd_phase ?t = sd_phase s" "sd_threads ?t = th\<lparr>th_stage := th_stage (hd (sd_threads ?t))\<rparr> # ths"
      by (simp_all add: advance_def that)
    then show "first_ends fc env cfg parts ?t"
      using first_writing_ends [of ?t] gauges [of ?t] that
      by (cases "sv_FileStoragePath cfg = []") (simp_all add: advance_def)
  qed
  show ?thesis
  proof (cases "th_stage th")
    case Todo
    let ?t = "advance fc env cfg (sp_store parts) 0 s"
    show ?thesis
    proof (rule first_ends_step [OF assms refl])
      show t: "sd_phase ?t = sd_phase s" "sd_threads ?t = th\<lparr>th_stage := th_stage (hd (sd_threads ?t))\<rparr> # ths"
        by (simp_all add: advance_def apply_job_def Let_def assms Todo)
      have "th_stage (hd (sd_threads ?t)) = ReadCounters \<or> th_stage (hd (sd_threads ?t)) = Writing []"
        by (simp add: advance_def apply_job_def Let_def assms Todo)
      then show "first_ends fc env cfg parts ?t"
        using first_writing_ends [OF _ t(2)] counters [OF _ t(2)] assms(1) t(1) by auto
    qed
  qed (use assms gauges counters first_writing_ends in blast)+
qed

text \<open>So are all of them, one after the other, up to the end of the process if the last save is among them.\<close>

lemma all_end:
  "sd_phase s \<noteq> Stopped \<Longrightarrow>
   \<exists>k t. run (server_moves fc env cfg parts) s (replicate k (Advance 0)) t \<and>
     (if busy final_job s then sd_phase t = Stopped else sd_threads t = [] \<and> sd_phase t = sd_phase s)"
proof (induction "sd_threads s" arbitrary: s)
  case Nil
  then show ?case
    using run_Nil [of "server_moves fc env cfg parts" s] by (intro exI [of _ 0] exI [of _ s]) (simp add: busy_def)
next
  case (Cons th ths)
  from first_ends_all [OF Cons.prems Cons.hyps(2) [symmetric], of fc env cfg parts] obtain k u
    where u: "run (server_moves fc env cfg parts) s (replicate k (Advance 0)) u" "sd_threads u = ths"
      "sd_phase u = (if th_job th = JobFinal then Stopped else sd_phase s)"
    unfolding first_ends_def Cons.hyps(2) [symmetric] by auto
  show ?case
  proof (cases "th_job th = JobFinal")
    case True
    then show ?thesis using u Cons.hyps(2) [symmetric] by (auto simp: busy_def)
  next
    case False
    with Cons.hyps(1) [of u] Cons.prems u obtain n t where
      t: "run (server_moves fc env cfg parts) u (replicate n (Advance 0)) t"
        "if busy final_job u then sd_phase t = Stopped else sd_threads t = [] \<and> sd_phase t = sd_phase u"
      by auto
    have "busy final_job s = busy final_job u"
      using False u(2) Cons.hyps(2) [symmetric] by (simp add: busy_def)
    moreover from run_append [OF t(1) u(1)]
    have "run (server_moves fc env cfg parts) s (replicate (k + n) (Advance 0)) t" by (simp add: replicate_add)
    ultimately show ?thesis using t(2) u(3) False by (intro exI [of _ "k + n"] exI [of _ t]) auto
  qed
qed

definition quiet_label :: "server_label \<Rightarrow> bool" where
  "quiet_label l = (in_time l \<and> accepted_updates l = [])"

definition can_stop :: "float_codec \<Rightarrow> save_env \<Rightarrow> server_config \<Rightarrow> server_parts \<Rightarrow> server_state \<Rightarrow> bool" where
  "can_stop fc env cfg parts s \<longleftrightarrow>
     (\<exists>ms t. run (server_moves fc env cfg parts) s ms t \<and> sd_phase t = Stopped \<and> list_all quiet_label ms)"

lemma can_stop_run:
  assumes "run (server_moves fc env cfg parts) s ms t" "list_all quiet_label ms" "can_stop fc env cfg parts t"
  shows "can_stop fc env cfg parts s"
  using assms run_append [OF _ assms(1)] unfolding can_stop_def by (metis list_all_append)

lemma can_stop_step:
  assumes "server_step fc env cfg parts s l = Some t" "quiet_label l" "can_stop fc env cfg parts t"
  shows "can_stop fc env cfg parts s"
  using assms by (intro can_stop_run [OF run_one [of _ s l t]]) (simp_all add: server_moves_def)

lemma quiet_advances: "list_all quiet_label (replicate k (Advance i))"
  by (simp add: list_all_iff quiet_label_def)

lemma stopped_can_stop: "sd_phase s = Stopped \<Longrightarrow> can_stop fc env cfg parts s"
  using run_Nil [of "server_moves fc env cfg parts" s] unfolding can_stop_def
  by (intro exI [of _ "[]"] exI [of _ s]) simp

lemma saving_can_stop:
  assumes "sd_phase s = FinalSave" "busy final_job s"
  shows "can_stop fc env cfg parts s"
  using all_end [of s fc env cfg parts] assms quiet_advances unfolding can_stop_def by fastforce

text \<open>With nothing in progress the phases follow each other.\<close>

lemma idle_can_stop:
  assumes "sd_threads s = []" "sd_phase s \<noteq> FinalSave"
  shows "can_stop fc env cfg parts s"
proof -
  have idle: "\<not> busy P t" if "sd_threads t = []" for P t using that by (simp add: busy_def)
  have saver: "can_stop fc env cfg parts t" if "sd_phase t = SaverStopping" "sd_threads t = []" for t
  proof (cases "sp_store parts = PostgresStore")
    case True
    show ?thesis
      by (rule can_stop_step [of _ _ _ _ _ SaverDone "t\<lparr>sd_phase := Stopped\<rparr>"])
        (use that idle True in \<open>simp_all add: quiet_label_def stopped_can_stop\<close>)
  next
    case False
    show ?thesis
      by (rule can_stop_step [of _ _ _ _ _ SaverDone "spawn JobFinal ReadCounters (t\<lparr>sd_phase := FinalSave\<rparr>)"])
        (use that idle False in \<open>simp_all add: quiet_label_def saving_can_stop\<close>)
  qed
  have grpc: "can_stop fc env cfg parts t" if "sd_phase t = GrpcDraining" "sd_threads t = []" for t
    by (rule can_stop_step [of _ _ _ _ _ GrpcDrained "t\<lparr>sd_phase := SaverStopping\<rparr>"])
      (use that idle in \<open>simp_all add: quiet_label_def saver\<close>)
  have http: "can_stop fc env cfg parts t" if "sd_phase t = HttpDraining" "sd_threads t = []" for t
    by (rule can_stop_step [of _ _ _ _ _ HttpDrained "t\<lparr>sd_phase := GrpcDraining\<rparr>"])
      (use that idle in \<open>simp_all add: quiet_label_def grpc\<close>)
  have serving: "can_stop fc env cfg parts t" if "sd_phase t = Serving" "sd_threads t = []" for t
    by (rule can_stop_step [of _ _ _ _ _ Signal "t\<lparr>sd_phase := HttpDraining, sd_open := False\<rparr>"])
      (use that in \<open>simp_all add: quiet_label_def http\<close>)
  from assms serving http grpc saver stopped_can_stop show ?thesis by (cases "sd_phase s") blast+
qed

lemma reachable_can_stop:
  assumes "final_inv s"
  shows "can_stop fc env cfg parts s"
proof (cases "sd_phase s = Stopped")
  case True
  then show ?thesis
    by (rule stopped_can_stop)
next
  case False
  from all_end [OF False, of fc env cfg parts] obtain k t where
    t: "run (server_moves fc env cfg parts) s (replicate k (Advance 0)) t"
      "if busy final_job s then sd_phase t = Stopped else sd_threads t = [] \<and> sd_phase t = sd_phase s" by blast
  show ?thesis
  proof (cases "busy final_job s")
    case True
    with t quiet_advances show ?thesis unfolding can_stop_def by metis
  next
    case f: False
    with assms False have "sd_phase s \<noteq> FinalSave" by (simp add: final_inv_def)
    with t f show ?thesis by (intro can_stop_run [OF t(1) quiet_advances] idle_can_stop) simp_all
  qed
qed

text \<open>
  C36: The server can always stop. From every state it can reach, whatever timed out or failed before, there is a
  run to the end of the process in which nothing times out and nothing new is accepted: the requests in
  progress, the periodic save and the last save never wait for each other in a circle.
\<close>

theorem server_can_stop:
  assumes "run (server_moves fc env cfg parts) (server_start fc cfg rd d) ls s"
  shows "\<exists>ms t. run (server_moves fc env cfg parts) s ms t \<and> sd_phase t = Stopped \<and>
    list_all (\<lambda>l. in_time l \<and> accepted_updates l = []) ms"
  using reachable_can_stop [OF final_inv_run [OF assms], of fc env cfg parts]
  unfolding can_stop_def quiet_label_def by this

definition sync_parts :: server_parts where
  "sync_parts = \<lparr>sp_trusted = None, sp_store = SyncStore, sp_pinger = False, sp_auditor = None, sp_priv = None,
     sp_grpc = None\<rparr>"

theorem server_can_stop_witness:
  "\<exists>ms t. run (server_moves bits_codec one_env sync_cfg sync_parts)
      (server_start bits_codec sync_cfg None Map.empty) ms t \<and>
    sd_phase t = Stopped \<and> list_all (\<lambda>l. in_time l \<and> accepted_updates l = []) ms"
  by (rule server_can_stop [OF run_Nil])

section \<open>Saves that overtake each other\<close>

lemma in_time_advances: "list_all in_time (replicate k (Advance i))"
  by (induction k) simp_all

lemma server_exec:
  "exec_steps (server_step fc env cfg parts) ls s = Some t \<Longrightarrow> run (server_moves fc env cfg parts) s ls t"
  using exec_run [of "server_step fc env cfg parts" ls s t] by (simp add: server_moves_def [abs_def])

text \<open>
  C38: With a store interval of zero, saves are not ordered like the updates they follow: for any two requests there
  is a run without any failure in which both are answered and nothing is in progress, the store holds both, but a restart
  gives the store after the first one only, because the first request wrote its older snapshot last.
\<close>

theorem sync_save_race:
  assumes "float_codec_ok fc" "sp_store parts = SyncStore" "sv_StoreInterval cfg = 0" "sv_FileStoragePath cfg \<noteq> []"
    and "sv_Restore cfg" "save_ok env cfg 0 (run_updates mem_repo [u] (RestoreIfNeeded fc rd cfg d New))"
  shows "\<exists>ls t. run (server_moves fc env cfg parts) (server_start fc cfg rd d) ls t \<and> list_all in_time ls \<and>
    sd_threads t = [] \<and> sd_acked t = [v, u] \<and> sd_mem t = run_updates mem_repo [u, v] (RestoreIfNeeded fc rd cfg d New) \<and>
    restart fc cfg (sd_disk t) = run_updates mem_repo [u] (RestoreIfNeeded fc rd cfg d New)"
proof -
  define m where "m = RestoreIfNeeded fc rd cfg d New"
  let ?mu = "run_updates mem_repo [u] m" and ?mv = "run_updates mem_repo [u, v] m"
  let ?acts = "\<lambda>k n. snd (Save fc (se_plan env k) (se_corder env k (Counters n)) (se_gorder env k (Gauges n))
    (sv_FileStoragePath cfg) (Counters n) (Gauges n))"
  let ?th = "\<lambda>w st. \<lparr>th_job = JobHTTP w, th_stage = st\<rparr>"
  define s where "s = \<lparr>sd_phase = Serving, sd_open = True,
    sd_threads = [?th u (Writing (?acts 0 ?mu)), ?th v (Writing (?acts 1 ?mv))], sd_mem = ?mv, sd_disk = d,
    sd_saves = 2, sd_applied = [u, v], sd_acked = []\<rparr>"
  define t where "t = s\<lparr>sd_threads := [?th u (Writing (?acts 0 ?mu))], sd_acked := [v], sd_disk := fs_run (?acts 1 ?mv) d\<rparr>"
  define w where "w = t\<lparr>sd_threads := [], sd_acked := [v, u], sd_disk := fs_run (?acts 0 ?mu) (sd_disk t)\<rparr>"
  let ?run = "run (server_moves fc env cfg parts)"
  let ?ls = "(([AcceptHTTP u, AcceptHTTP v] @ replicate 3 (Advance 0) @ replicate 3 (Advance 1)) @
    replicate (Suc (length (?acts 1 ?mv))) (Advance 1)) @ replicate (Suc (length (?acts 0 ?mu))) (Advance 0)"
  have "?run (server_start fc cfg rd d)
      ([AcceptHTTP u, AcceptHTTP v] @ replicate 3 (Advance 0) @ replicate 3 (Advance 1)) s"
    by (rule server_exec)
      (simp add: server_start_def store_open_def m_def [symmetric] spawn_def advance_def apply_job_def to_stage_def
        assms(2-4) map_or_nil_def mem_GetAllCounters_def mem_GetAllGauges_def Let_def s_def numeral_3_eq_3)
  moreover have "?run s (replicate (Suc (length (?acts 1 ?mv))) (Advance 1)) t"
    using writing_runs [of s 1 "?acts 1 ?mv" fc env cfg parts]
    by (simp add: s_def t_def finish_job_def to_stage_def del: run_updates_simps)
  moreover have "?run t (replicate (Suc (length (?acts 0 ?mu))) (Advance 0)) w"
    using writing_runs [of t 0 "?acts 0 ?mu" fc env cfg parts]
    by (simp add: s_def t_def w_def finish_job_def to_stage_def del: run_updates_simps)
  ultimately have "?run (server_start fc cfg rd d) ?ls w" by (blast intro: run_append)
  moreover have "restart fc cfg (sd_disk w) = ?mu"
  proof -
    let ?y = "\<lparr>sy_mem = ?mu, sy_disk = sd_disk t, sy_saves = 0\<rparr>"
    have "restart fc cfg (sy_disk (SaveSnapshot fc env cfg ?y)) = sy_mem ?y"
      using assms(6) by (intro restart_loaded [OF SaveSnapshot_load [OF assms(1,4)] assms(5,4)]) (simp add: m_def)
    then show ?thesis by (simp add: SaveSnapshot_disk [OF assms(4)] w_def)
  qed
  ultimately show ?thesis
    unfolding m_def [symmetric]
    by (intro exI [of _ ?ls] exI [of _ w]) (simp add: w_def t_def s_def in_time_advances del: run_updates_simps)
qed

section \<open>Concrete runs\<close>

lemma sync_cfg_restored: "RestoreIfNeeded bits_codec None sync_cfg Map.empty New = New"
  by (simp add: RestoreIfNeeded_def Load_def sync_cfg_def)

lemma sync_cfg_fields:
  "sv_StoreInterval sync_cfg = 0" "sv_FileStoragePath sync_cfg \<noteq> []" "sv_Restore sync_cfg"
  by (simp_all add: sync_cfg_def)

theorem sync_save_race_witness:
  "\<exists>ls t. run (server_moves bits_codec one_env sync_cfg sync_parts) (server_start bits_codec sync_cfg None Map.empty) ls t \<and>
    sd_threads t = [] \<and> sd_acked t = [UpdCounter ''a'' 2, UpdCounter ''a'' 5] \<and>
    Counters (sd_mem t) ''a'' = Some 7 \<and> Counters (restart bits_codec sync_cfg (sd_disk t)) ''a'' = Some 5"
proof -
  have "sp_store sync_parts = SyncStore" by (simp add: sync_parts_def)
  from sync_save_race [OF bits_codec_ok this sync_cfg_fields, of one_env "UpdCounter ''a'' 5" None Map.empty "UpdCounter ''a'' 2"]
  obtain ls t where t: "run (server_moves bits_codec one_env sync_cfg sync_parts) (server_start bits_codec sync_cfg None Map.empty) ls t"
    "sd_threads t = []" "sd_acked t = [UpdCounter ''a'' 2, UpdCounter ''a'' 5]"
    "sd_mem t = run_updates mem_repo [UpdCounter ''a'' 5, UpdCounter ''a'' 2] New"
    "restart bits_codec sync_cfg (sd_disk t) = run_updates mem_repo [UpdCounter ''a'' 5] New"
    using one_env_ok(1) by (simp only: sync_cfg_restored) blast
  have "Counters (sd_mem t) ''a'' = Some 7" "Counters (restart bits_codec sync_cfg (sd_disk t)) ''a'' = Some 5"
    unfolding t(4,5) by (simp_all add: service_defs repo_defs New_def)
  with t(1-3) show ?thesis by blast
qed

text \<open>One request, then the regular stop.\<close>

theorem shutdown_durable_witness:
  "\<exists>ls t. run (server_moves bits_codec one_env sync_cfg sync_parts) (server_start bits_codec sync_cfg None Map.empty)
      (AcceptHTTP (UpdCounter ''a'' 5) # ls) t \<and> sd_phase t = Stopped \<and> sd_acked t = [UpdCounter ''a'' 5] \<and>
    restart bits_codec sync_cfg (sd_disk t) = run_updates mem_repo [UpdCounter ''a'' 5] New"
proof -
  let ?s = "server_start bits_codec sync_cfg None Map.empty" and ?u = "UpdCounter ''a'' 5"
  let ?run = "run (server_moves bits_codec one_env sync_cfg sync_parts)"
  let ?m = "RestoreIfNeeded bits_codec None sync_cfg Map.empty New"
  have kind: "sp_store sync_parts \<noteq> PostgresStore" by (simp add: sync_parts_def)
  have one: "?run ?s [AcceptHTTP ?u] (spawn (JobHTTP ?u) Todo ?s)"
    by (rule run_one) (simp add: server_moves_def server_start_def)
  from reachable_can_stop [OF final_inv_run [OF one], of bits_codec one_env sync_cfg sync_parts]
  obtain ms t where ms: "?run (spawn (JobHTTP ?u) Todo ?s) ms t" "sd_phase t = Stopped" "list_all quiet_label ms"
    unfolding can_stop_def by blast
  have whole: "?run ?s (AcceptHTTP ?u # ms) t" using run_append [OF ms(1) one] by simp
  have quiet: "list_all in_time (AcceptHTTP ?u # ms)" "concat (map accepted_updates (AcceptHTTP ?u # ms)) = [?u]"
    using ms(3) by (auto simp: list_all_iff quiet_label_def)
  note start = server_start_inv [OF kind sync_cfg_fields(2), of bits_codec one_env None Map.empty]
  from store_balance.balance_run [OF whole start quiet(1)]
  have t: "server_inv bits_codec one_env sync_cfg sync_parts (sd_mem ?s) t" "taken t = {#?u#}"
    by (simp_all only: server_start_empty quiet(2)) simp_all
  then have "sd_applied t = [?u]" using stopped_fields(1) [OF t(1) ms(2)] by simp
  then have mem: "sd_mem t = run_updates mem_repo [?u] New"
    using t(1) by (simp add: server_inv_def server_start_def store_open_def sync_cfg_restored)
  have ok: "save_ok one_env sync_cfg (sd_saves t - 1) (sd_mem t)" unfolding mem by (rule one_env_ok)
  from shutdown_durable [OF bits_codec_ok kind sync_cfg_fields(2,3) whole quiet(1) ms(2) ok]
  have "sd_acked t = [?u]" "restart bits_codec sync_cfg (sd_disk t) = run_updates mem_repo [?u] New"
    using \<open>sd_applied t = [?u]\<close> by (simp_all only: quiet(2) sync_cfg_restored) simp_all
  with whole ms(2) show ?thesis by blast
qed

end
