(* ===== verification/Grpc.thy ===== *)
theory Grpc
  imports Handler_Specs Security
begin

text \<open>
  \<open>internal/proto\<close>, \<open>internal/grpcmetrics\<close>, the gRPC interceptor of \<open>internal/middleware/subnet\<close> and
  the gRPC client of the agent. The wire format and the connection belong to the gRPC library: a call
  hands the request message to the server's handler, and a pointer that may be nil is an option.
\<close>

section \<open>Messages\<close>

text \<open>An enum is an open \<open>int32\<close>.\<close>

type_synonym metric_mtype = "32 word"

definition Metric_GAUGE :: metric_mtype where "Metric_GAUGE = 0"
definition Metric_COUNTER :: metric_mtype where "Metric_COUNTER = 1"

record metric_msg =
  xxx_hidden_Id :: string
  xxx_hidden_Type :: metric_mtype
  xxx_hidden_Delta :: int64
  xxx_hidden_Value :: float64

definition new_Metric :: metric_msg where
  "new_Metric = \<lparr>xxx_hidden_Id = [], xxx_hidden_Type = 0, xxx_hidden_Delta = 0, xxx_hidden_Value = 0\<rparr>"

definition GetId :: "metric_msg option \<Rightarrow> string" where
  "GetId x = (case x of Some m \<Rightarrow> xxx_hidden_Id m | None \<Rightarrow> [])"

definition GetType :: "metric_msg option \<Rightarrow> metric_mtype" where
  "GetType x = (case x of Some m \<Rightarrow> xxx_hidden_Type m | None \<Rightarrow> Metric_GAUGE)"

definition GetDelta :: "metric_msg option \<Rightarrow> int64" where
  "GetDelta x = (case x of Some m \<Rightarrow> xxx_hidden_Delta m | None \<Rightarrow> 0)"

definition GetValue :: "metric_msg option \<Rightarrow> float64" where
  "GetValue x = (case x of Some m \<Rightarrow> xxx_hidden_Value m | None \<Rightarrow> 0)"

definition SetId :: "string \<Rightarrow> metric_msg \<Rightarrow> metric_msg" where
  "SetId v x = x\<lparr>xxx_hidden_Id := v\<rparr>"

definition SetType :: "metric_mtype \<Rightarrow> metric_msg \<Rightarrow> metric_msg" where
  "SetType v x = x\<lparr>xxx_hidden_Type := v\<rparr>"

definition SetDelta :: "int64 \<Rightarrow> metric_msg \<Rightarrow> metric_msg" where
  "SetDelta v x = x\<lparr>xxx_hidden_Delta := v\<rparr>"

definition SetValue :: "float64 \<Rightarrow> metric_msg \<Rightarrow> metric_msg" where
  "SetValue v x = x\<lparr>xxx_hidden_Value := v\<rparr>"

record update_request =
  xxx_hidden_Metrics :: "metric_msg option list option"

definition GetMetrics :: "update_request option \<Rightarrow> metric_msg option list" where
  "GetMetrics x = (case x of Some r \<Rightarrow> (case xxx_hidden_Metrics r of Some ms \<Rightarrow> ms | None \<Rightarrow> []) | None \<Rightarrow> [])"

definition UpdateMetricsRequest_Build :: "metric_msg option list \<Rightarrow> update_request" where
  "UpdateMetricsRequest_Build metrics = \<lparr>xxx_hidden_Metrics = Some metrics\<rparr>"

lemmas msg_defs =
  new_Metric_def GetId_def GetType_def GetDelta_def GetValue_def SetId_def SetType_def SetDelta_def SetValue_def
  GetMetrics_def UpdateMetricsRequest_Build_def Metric_GAUGE_def Metric_COUNTER_def

section \<open>Conversion\<close>

fun ToModel :: "metric_msg option list \<Rightarrow> metrics list" where
  "ToModel [] = []"
| "ToModel (m # ms) =
     (if m = None \<or> GetId m = [] then ToModel ms
      else if GetType m = Metric_COUNTER
      then zero_metrics\<lparr>ID := GetId m, MType := Counter, Delta := Some (GetDelta m)\<rparr> # ToModel ms
      else if GetType m = Metric_GAUGE
      then zero_metrics\<lparr>ID := GetId m, MType := Gauge, Value := Some (GetValue m)\<rparr> # ToModel ms
      else ToModel ms)"

fun FromModel :: "metrics list \<Rightarrow> metric_msg option list" where
  "FromModel [] = []"
| "FromModel (m # ms) =
     (if MType m = Counter then
        (let item = SetType Metric_COUNTER (SetId (ID m) new_Metric);
             item = (case Delta m of Some d \<Rightarrow> SetDelta d item | None \<Rightarrow> item)
         in Some item # FromModel ms)
      else if MType m = Gauge then
        (let item = SetType Metric_GAUGE (SetId (ID m) new_Metric);
             item = (case Value m of Some x \<Rightarrow> SetValue x item | None \<Rightarrow> item)
         in Some item # FromModel ms)
      else FromModel ms)"

section \<open>The server\<close>

text \<open>
  The incoming metadata of a call (\<open>None\<close>: none), by lower-case key, and the time. A status error
  is its code and message.
\<close>

record grpc_call =
  gc_md :: "(string \<Rightarrow> string list) option"
  gc_now :: int

definition status_Error :: "string \<Rightarrow> string \<Rightarrow> go_error" where
  "status_Error code msg = ErrWrap code (ErrText msg)"

definition metadataValue :: "grpc_call \<Rightarrow> string \<Rightarrow> string" where
  "metadataValue cl key =
     (case gc_md cl of None \<Rightarrow> []
      | Some md \<Rightarrow> (case md (lower key) of [] \<Rightarrow> [] | v # _ \<Rightarrow> v))"

definition metadataIP :: "grpc_call \<Rightarrow> string" where
  "metadataIP cl =
     (case gc_md cl of None \<Rightarrow> []
      | Some md \<Rightarrow> (case md (lower realip_Header) of [] \<Rightarrow> [] | v # _ \<Rightarrow> v))"

type_synonym 's unary_handler = "grpc_call \<Rightarrow> update_request option \<Rightarrow> 's \<Rightarrow> unit result \<times> 's \<times> event list"

definition UpdateMetrics :: "'s repository \<Rightarrow> bool \<Rightarrow> 's unary_handler" where
  "UpdateMetrics repo auditor cl req s =
     (if req = None then (Inr (), s, [])
      else let batch = ToModel (GetMetrics req) in
        if batch = [] then (Inr (), s, [])
        else case UpdateBatch repo batch s of
          (Inl e, s') \<Rightarrow> (Inl (status_Error ''Internal'' ''failed to save metrics''), s', [])
        | (Inr _, s') \<Rightarrow>
            (Inr (), s',
             if auditor then [\<lparr>TS = gc_now cl, Metrics = map ID batch, IPAddress = metadataIP cl\<rparr>] else []))"

definition UnaryInterceptor ::
  "(string \<Rightarrow> (128 word) option) \<Rightarrow> ip_net option \<Rightarrow> 's unary_handler \<Rightarrow> 's unary_handler" where
  "UnaryInterceptor parse6 network handler cl req s =
     (if network = None then handler cl req s
      else let ip = metadataValue cl realip_Header in
        if \<not> Allowed parse6 network ip
        then (Inl (status_Error ''PermissionDenied'' ''forbidden''), s, [])
        else handler cl req s)"

text \<open>The generated dispatch: decode, then the interceptor around the method.\<close>

definition Metrics_UpdateMetrics_Handler ::
  "('s unary_handler \<Rightarrow> 's unary_handler) option \<Rightarrow> 's unary_handler \<Rightarrow>
   grpc_call \<Rightarrow> update_request result \<Rightarrow> 's \<Rightarrow> unit result \<times> 's \<times> event list" where
  "Metrics_UpdateMetrics_Handler interceptor srv cl dec s =
     (case dec of
        Inl e \<Rightarrow> (Inl e, s, [])
      | Inr req \<Rightarrow>
          (case interceptor of
             None \<Rightarrow> srv cl (Some req) s
           | Some ic \<Rightarrow> ic srv cl (Some req) s))"

section \<open>The client\<close>

text \<open>
  \<open>Invoke\<close> is the connection: it sends the outgoing metadata and the request. The interceptor
  appends the host's address to the metadata.
\<close>

type_synonym 's invoker = "(string \<Rightarrow> string list) \<Rightarrow> update_request \<Rightarrow> 's \<Rightarrow> unit result \<times> 's"

definition realIPClientInterceptor :: "string \<Rightarrow> 's invoker \<Rightarrow> 's invoker" where
  "realIPClientInterceptor ip invoker md req s =
     invoker (md(lower realip_Header := md (lower realip_Header) @ [ip])) req s"

definition grpc_SendBatch :: "'s invoker \<Rightarrow> metrics list \<Rightarrow> 's \<Rightarrow> unit result \<times> 's" where
  "grpc_SendBatch invoke metrics s =
     (if metrics = [] then (Inr (), s)
      else case invoke (\<lambda>_. []) (UpdateMetricsRequest_Build (FromModel metrics)) s of
        (Inl e, s') \<Rightarrow> (Inl (ErrWrap ''grpc update metrics'' e), s')
      | (Inr _, s') \<Rightarrow> (Inr (), s'))"

section \<open>Round trip\<close>

text \<open>Without a name a metric is dropped; the field of the other type and the hash are not sent.\<close>

definition plain_metric :: "metrics \<Rightarrow> metrics" where
  "plain_metric m =
     (if MType m = Counter then NewCounter (ID m) (case Delta m of Some d \<Rightarrow> d | None \<Rightarrow> 0)
      else NewGauge (ID m) (case Value m of Some x \<Rightarrow> x | None \<Rightarrow> 0))"

lemma ToModel_FromModel:
  "ToModel (FromModel ms) = map plain_metric (filter (\<lambda>m. ID m \<noteq> [] \<and> valid_mtype (MType m)) ms)"
proof (induction ms)
  case (Cons m ms)
  have z: "zero_metrics\<lparr>ID := n, MType := Counter, Delta := Some d\<rparr> = NewCounter n d"
    "zero_metrics\<lparr>ID := n, MType := Gauge, Value := Some x\<rparr> = NewGauge n x" for n d x
    by (simp_all add: zero_metrics_def NewCounter_def NewGauge_def)
  show ?case
    by (auto simp: Cons.IH msg_defs plain_metric_def valid_mtype_def z Let_def split: option.split)
qed simp

lemma plain_metric_id: "ID (plain_metric m) = ID m"
  by (simp add: plain_metric_def)

lemma plain_metric_complete: "complete_metric (plain_metric m)"
  by (simp add: plain_metric_def complete_metric_def)

text \<open>A complete metric has the same effect on a store as its plain form.\<close>

lemma plain_metric_effect:
  "complete_metric m \<Longrightarrow> add_metric (plain_metric m) c = add_metric m c"
  "complete_metric m \<Longrightarrow> set_metric (plain_metric m) g = set_metric m g"
  by (auto simp: complete_metric_def plain_metric_def add_metric_def set_metric_def NewCounter_def NewGauge_def
      split: option.splits)

lemma plain_batch_effect:
  "list_all complete_metric ms \<Longrightarrow> batch_counters (map plain_metric ms) c = batch_counters ms c"
  "list_all complete_metric ms \<Longrightarrow> batch_gauges (map plain_metric ms) g = batch_gauges ms g"
  by (induction ms arbitrary: c g) (simp_all add: plain_metric_effect)

lemma complete_valid: "complete_metric m \<Longrightarrow> valid_mtype (MType m)"
  by (auto simp: complete_metric_def valid_mtype_def)

end
