(* ===== verification/Grpc_Specs.thy ===== *)
theory Grpc_Specs
  imports Grpc
begin

text \<open>
  The gRPC transport against the HTTP one: the same batch has the same effect, behind the same
  subnet check.
\<close>

lemma ToModel_complete: "list_all (\<lambda>m. complete_metric m \<and> ID m \<noteq> []) (ToModel msgs)"
  by (induction msgs) (simp_all add: complete_metric_def zero_metrics_def)

context metrics_repository
begin

text \<open>A request whose metrics the store accepts is stored whole.\<close>

lemma grpc_update:
  assumes "ok s" "batch_accepts acc (ctr s) (ToModel (GetMetrics (Some req)))"
  shows "case UpdateMetrics repo auditor cl (Some req) s of (res, s', ev) \<Rightarrow>
     res = Inr () \<and> ok s' \<and>
     ctr s' = batch_counters (ToModel (GetMetrics (Some req))) (ctr s) \<and>
     gau s' = batch_gauges (ToModel (GetMetrics (Some req))) (gau s) \<and>
     ev = (if auditor \<and> ToModel (GetMetrics (Some req)) \<noteq> []
           then [\<lparr>TS = gc_now cl, Metrics = map ID (ToModel (GetMetrics (Some req))), IPAddress = metadataIP cl\<rparr>] else [])"
proof (cases "ToModel (GetMetrics (Some req)) = []")
  case True
  with assms show ?thesis by (simp add: UpdateMetrics_def Let_def)
next
  case False
  from save_batch [OF assms] obtain s' where "SaveBatch repo (ToModel (GetMetrics (Some req))) s = (Inr (), s')" "ok s'"
    "ctr s' = batch_counters (ToModel (GetMetrics (Some req))) (ctr s)"
    "gau s' = batch_gauges (ToModel (GetMetrics (Some req))) (gau s)" by blast
  with False show ?thesis by (simp add: UpdateMetrics_def Let_def service_defs)
qed

end

text \<open>
  Sending metrics as protobuf messages keeps what they do. For complete metrics the server decodes
  exactly the named ones, in order, with the same effect on counters and gauges; and whatever
  messages arrive, nil, nameless or of an unknown type, only complete, named metrics reach the store.
\<close>

theorem proto_roundtrip:
  assumes "list_all complete_metric ms"
  shows "map ID (ToModel (FromModel ms)) = filter (\<lambda>n. n \<noteq> []) (map ID ms) \<and>
    batch_counters (ToModel (FromModel ms)) c = batch_counters (filter (\<lambda>m. ID m \<noteq> []) ms) c \<and>
    batch_gauges (ToModel (FromModel ms)) g = batch_gauges (filter (\<lambda>m. ID m \<noteq> []) ms) g \<and>
    list_all (\<lambda>m. complete_metric m \<and> ID m \<noteq> []) (ToModel msgs)"
proof -
  have "filter (\<lambda>m. ID m \<noteq> [] \<and> valid_mtype (MType m)) ms = filter (\<lambda>m. ID m \<noteq> []) ms"
    using assms by (induction ms) (simp_all add: complete_valid)
  then have tm: "ToModel (FromModel ms) = map plain_metric (filter (\<lambda>m. ID m \<noteq> []) ms)"
    by (simp add: ToModel_FromModel)
  have "list_all complete_metric (filter (\<lambda>m. ID m \<noteq> []) ms)" using assms by (induction ms) simp_all
  moreover have "map ID (filter (\<lambda>m. ID m \<noteq> []) ms) = filter (\<lambda>n. n \<noteq> []) (map ID ms)" by (induction ms) simp_all
  ultimately show ?thesis
    using ToModel_complete [of msgs] by (simp add: tm plain_batch_effect plain_metric_id comp_def)
qed

theorem proto_roundtrip_witness:
  "map ID (ToModel (FromModel [NewCounter ''a'' 5, NewGauge [] 1, NewGauge ''b'' 2])) = [''a'', ''b''] \<and>
   batch_counters (ToModel (FromModel [NewCounter ''a'' 5, NewGauge [] 1, NewGauge ''b'' 2])) Map.empty ''a'' = Some 5"
proof -
  have "list_all complete_metric [NewCounter ''a'' 5, NewGauge [] 1, NewGauge ''b'' 2]"
    by (simp add: complete_metric_def)
  from proto_roundtrip [OF this, of Map.empty Map.empty "[]"] show ?thesis by simp
qed

section \<open>The endpoint\<close>

lemma handler_spec:
  "case Metrics_UpdateMetrics_Handler (Some (UnaryInterceptor parse6 network)) (UpdateMetrics mem_repo auditor) cl dec s of
     (res, s', ev) \<Rightarrow>
     (case dec of
        Inl e \<Rightarrow> res = Inl e \<and> s' = s \<and> ev = []
      | Inr req \<Rightarrow>
          let batch = ToModel (GetMetrics (Some req)) in
          if Allowed parse6 network (metadataValue cl realip_Header)
          then res = Inr () \<and> Counters s' = batch_counters batch (Counters s) \<and>
               Gauges s' = batch_gauges batch (Gauges s) \<and>
               ev = (if auditor \<and> batch \<noteq> []
                     then [\<lparr>TS = gc_now cl, Metrics = map ID batch, IPAddress = metadataIP cl\<rparr>] else [])
          else res = Inl (status_Error ''PermissionDenied'' ''forbidden'') \<and> s' = s \<and> ev = [])"
proof (cases dec)
  case (Inr req)
  have "Allowed parse6 None ip" for ip by (simp add: Allowed_def)
  with mem.grpc_update [where s = s and req = req and auditor = auditor and cl = cl] show ?thesis
    by (auto simp: Inr Metrics_UpdateMetrics_Handler_def UnaryInterceptor_def Let_def split: prod.splits)
qed (simp add: Metrics_UpdateMetrics_Handler_def)

text \<open>
  The gRPC endpoint is all or nothing behind the trusted subnet. A request that cannot be decoded
  and a caller whose \<open>x-real-ip\<close> is not in the subnet change nothing and notify nobody; every other
  request is answered without an error, adds exactly its valid metrics to the store and is
  audited with their names and the caller's address, unless there are none.
\<close>

theorem grpc_update_spec:
  "case Metrics_UpdateMetrics_Handler (Some (UnaryInterceptor parse6 network)) (UpdateMetrics mem_repo auditor) cl dec s of
     (res, s', ev) \<Rightarrow>
     (case dec of
        Inl e \<Rightarrow> res = Inl e \<and> s' = s \<and> ev = []
      | Inr req \<Rightarrow>
          let batch = ToModel (GetMetrics (Some req)) in
          if Allowed parse6 network (metadataValue cl realip_Header)
          then res = Inr () \<and> Counters s' = batch_counters batch (Counters s) \<and>
               Gauges s' = batch_gauges batch (Gauges s) \<and>
               ev = (if auditor \<and> batch \<noteq> []
                     then [\<lparr>TS = gc_now cl, Metrics = map ID batch, IPAddress = metadataIP cl\<rparr>] else [])
          else res = Inl (status_Error ''PermissionDenied'' ''forbidden'') \<and> s' = s \<and> ev = [])"
  by (rule handler_spec)

text \<open>What the agent's client and the server do together, over a connection that loses nothing.\<close>

definition grpc_link ::
  "(string \<Rightarrow> (128 word) option) \<Rightarrow> ip_net option \<Rightarrow> 's repository \<Rightarrow> bool \<Rightarrow> int \<Rightarrow> 's invoker" where
  "grpc_link parse6 network repo auditor now md req s =
     (case Metrics_UpdateMetrics_Handler (Some (UnaryInterceptor parse6 network)) (UpdateMetrics repo auditor)
             \<lparr>gc_md = Some md, gc_now = now\<rparr> (Inr req) s of
        (res, s', ev) \<Rightarrow> (res, s'))"

lemma agent_metadata:
  "metadataValue \<lparr>gc_md = Some ((\<lambda>_. [])(lower realip_Header := [ip])), gc_now = now\<rparr> realip_Header = ip"
  by (simp add: metadataValue_def)

text \<open>
  A batch the agent sends over gRPC is stored exactly, or refused as a whole. When the server allows the
  agent's address, \<open>SendBatch\<close> succeeds and the store has the named metrics of the batch added; when
  it does not, \<open>SendBatch\<close> fails with the status of the interceptor and the store is unchanged.
\<close>

theorem grpc_send_batch:
  assumes "list_all complete_metric ms" "ms \<noteq> []"
  shows "case grpc_SendBatch (realIPClientInterceptor ip (grpc_link parse6 network mem_repo auditor now)) ms s of
    (res, s') \<Rightarrow>
      if Allowed parse6 network ip
      then res = Inr () \<and>
           Counters s' = batch_counters (filter (\<lambda>m. ID m \<noteq> []) ms) (Counters s) \<and>
           Gauges s' = batch_gauges (filter (\<lambda>m. ID m \<noteq> []) ms) (Gauges s)
      else res = Inl (ErrWrap ''grpc update metrics'' (status_Error ''PermissionDenied'' ''forbidden'')) \<and> s' = s"
proof -
  let ?cl = "\<lparr>gc_md = Some ((\<lambda>_. [])(lower realip_Header := [ip])), gc_now = now\<rparr>"
  have "filter (\<lambda>m. ID m \<noteq> [] \<and> valid_mtype (MType m)) ms = filter (\<lambda>m. ID m \<noteq> []) ms"
    using assms(1) by (induction ms) (simp_all add: complete_valid)
  then have tm: "ToModel (FromModel ms) = map plain_metric (filter (\<lambda>m. ID m \<noteq> []) ms)"
    by (simp add: ToModel_FromModel)
  have ok: "list_all complete_metric (filter (\<lambda>m. ID m \<noteq> []) ms)" using assms(1) by (induction ms) simp_all
  have bt: "ToModel (GetMetrics (Some (UpdateMetricsRequest_Build (FromModel ms)))) = map plain_metric (filter (\<lambda>m. ID m \<noteq> []) ms)"
    by (simp add: GetMetrics_def UpdateMetricsRequest_Build_def tm)
  note spec = handler_spec [where ?parse6.0 = parse6 and network = network and auditor = auditor and cl = ?cl
      and dec = "Inr (UpdateMetricsRequest_Build (FromModel ms))" and s = s]
  obtain res s' ev where h: "Metrics_UpdateMetrics_Handler (Some (UnaryInterceptor parse6 network)) (UpdateMetrics mem_repo auditor)
      ?cl (Inr (UpdateMetricsRequest_Build (FromModel ms))) s = (res, s', ev)"
    by (rule prod_cases3)
  have send: "grpc_SendBatch (realIPClientInterceptor ip (grpc_link parse6 network mem_repo auditor now)) ms s =
      (case res of Inl e \<Rightarrow> (Inl (ErrWrap ''grpc update metrics'' e), s') | Inr x \<Rightarrow> (Inr (), s'))"
    using assms(2) by (simp add: grpc_SendBatch_def realIPClientInterceptor_def grpc_link_def h)
  show ?thesis
    using spec unfolding send h
    by (cases "Allowed parse6 network ip") (simp_all add: agent_metadata Let_def bt plain_batch_effect [OF ok])
qed

theorem grpc_send_batch_witness:
  "case grpc_SendBatch (realIPClientInterceptor ''10.0.0.1'' (grpc_link (\<lambda>_. None) None mem_repo False 0))
          [NewCounter ''a'' 5] New of
     (res, s') \<Rightarrow> res = Inr () \<and> Counters s' ''a'' = Some 5"
proof -
  have "list_all complete_metric [NewCounter ''a'' 5]" "[NewCounter ''a'' 5] \<noteq> []" by (simp_all add: complete_metric_def)
  from grpc_send_batch [OF this, where ip = "''10.0.0.1''" and ?parse6.0 = "\<lambda>_. None" and network = None and auditor = False
      and now = 0 and s = New]
  show ?thesis by (simp add: Allowed_def New_def split: prod.splits)
qed

section \<open>Both transports\<close>

text \<open>
  C13: The two transports are equivalent. For a batch of complete, named metrics with text that JSON carries, the HTTP
  handler on its JSON text and the gRPC method on its messages both succeed, leave the same store
  and notify the auditor of the same names.
\<close>

theorem grpc_http_equivalent:
  assumes "float_codec_ok fc" "list_all metrics_text_ok ms" "list_all complete_metric ms"
    and "list_all (\<lambda>m. ID m \<noteq> []) ms" "marshal_list fc ms = Inr data"
  shows "case (updates_handler fc mem_repo auditor (json_request data) s,
               UpdateMetrics mem_repo auditor cl (Some (UpdateMetricsRequest_Build (FromModel ms))) s) of
     ((as, s1, ev1), (res, s2, ev2)) \<Rightarrow>
        status_of as = 200 \<and> res = Inr () \<and> Counters s1 = Counters s2 \<and> Gauges s1 = Gauges s2 \<and>
        map Metrics ev1 = map Metrics ev2"
proof -
  obtain data' where "marshal_list fc ms = Inr data'"
      and dec: "rbind (json_decode_first data') (decode_slice (decode_metrics fc)) = Inr ms"
    by (rule marshal_list_decode [OF assms(1,2)])
  with assms(5) have d: "data' = data" by simp
  have "decoded_batch fc (json_request data) = Some ms"
    using dec unfolding d
    by (auto simp: decoded_batch_def json_request_def json_content_type_def str_contains_self rbind_Inr_iff
        dest!: decoder_Decode_clean)
  with mem.updates_spec [where s = s and fc = fc and r = "json_request data" and auditor = auditor] assms(3)
  have http: "case updates_handler fc mem_repo auditor (json_request data) s of (as, s', ev) \<Rightarrow>
      status_of as = 200 \<and> ev = NotifyRequest auditor (json_request data) (map ID ms) \<and>
      Counters s' = batch_counters ms (Counters s) \<and> Gauges s' = batch_gauges ms (Gauges s)"
    by (simp split: prod.splits)
  have named: "filter (\<lambda>m. ID m \<noteq> [] \<and> valid_mtype (MType m)) ms = ms"
    using assms(3,4) by (induction ms) (simp_all add: complete_valid)
  have tm: "ToModel (GetMetrics (Some (UpdateMetricsRequest_Build (FromModel ms)))) = map plain_metric ms"
    by (simp add: GetMetrics_def UpdateMetricsRequest_Build_def ToModel_FromModel named)
  note grpc = mem.grpc_update [where auditor = auditor and cl = cl and req = "UpdateMetricsRequest_Build (FromModel ms)" and s = s, unfolded tm]
  show ?thesis
    using http grpc
    by (auto simp: plain_batch_effect [OF assms(3)] NotifyRequest_def NewEvent_def plain_metric_id comp_def split: prod.splits)
qed

theorem grpc_http_equivalent_witness:
  "case (updates_handler bits_codec mem_repo True
            (json_request (json_compact (JArr [metrics_json bits_codec (NewCounter ''a'' 5)]))) New,
         UpdateMetrics mem_repo True \<lparr>gc_md = None, gc_now = 0\<rparr>
            (Some (UpdateMetricsRequest_Build (FromModel [NewCounter ''a'' 5]))) New) of
     ((as, s1, ev1), (res, s2, ev2)) \<Rightarrow> status_of as = 200 \<and> Counters s1 = Counters s2 \<and> map Metrics ev1 = map Metrics ev2"
proof -
  have ascii: "utf8_valid ''a''" by (rule utf8_valid_ascii) (simp add: byte_in_def)
  have "list_all metrics_text_ok [NewCounter ''a'' 5]" "list_all complete_metric [NewCounter ''a'' 5]"
      "list_all (\<lambda>m. ID m \<noteq> []) [NewCounter ''a'' 5]"
      "marshal_list bits_codec [NewCounter ''a'' 5] = Inr (json_compact (JArr [metrics_json bits_codec (NewCounter ''a'' 5)]))"
    using ascii by (simp_all add: metrics_text_ok_def float_field_ok_def complete_metric_def marshal_list_def encode_list_def encode_metrics_def)
  from grpc_http_equivalent [OF bits_codec_ok this, of True New "\<lparr>gc_md = None, gc_now = 0\<rparr>"]
  show ?thesis by (auto split: prod.splits)
qed

end
