(* ===== verification/Grpc_Service.thy ===== *)
theory Grpc_Service
  imports Grpc_Specs
begin

text \<open>
  The generated service of \<open>internal/proto/metrics_grpc.pb.go\<close> and the rest of \<open>metrics.pb.go\<close> that is not reflection: the
  description the server registers (\<open>cmd/server/main.go\<close>), the client that names the method, and the builders.
  \<open>Grpc_Specs\<close> connects the two ends directly by \<open>grpc_link\<close>; here that connection is derived from the names.
\<close>

section \<open>Messages\<close>

definition Metric_MType_name :: "metric_mtype \<rightharpoonup> string" where
  "Metric_MType_name = [0 \<mapsto> ''GAUGE'', 1 \<mapsto> ''COUNTER'']"

definition Metric_MType_value :: "string \<rightharpoonup> metric_mtype" where
  "Metric_MType_value = [''GAUGE'' \<mapsto> 0, ''COUNTER'' \<mapsto> 1]"

definition Metric_Reset :: "metric_msg \<Rightarrow> metric_msg" where
  "Metric_Reset x = new_Metric"

text \<open>The fields of \<open>Metric_builder\<close> are the arguments.\<close>

definition Metric_Build :: "string \<Rightarrow> metric_mtype \<Rightarrow> int64 \<Rightarrow> float64 \<Rightarrow> metric_msg" where
  "Metric_Build i ty d v =
     \<lparr>xxx_hidden_Id = i, xxx_hidden_Type = ty, xxx_hidden_Delta = d, xxx_hidden_Value = v\<rparr>"

definition UpdateMetricsRequest_Reset :: "update_request \<Rightarrow> update_request" where
  "UpdateMetricsRequest_Reset x = \<lparr>xxx_hidden_Metrics = None\<rparr>"

definition SetMetrics :: "metric_msg option list \<Rightarrow> update_request \<Rightarrow> update_request" where
  "SetMetrics v x = x\<lparr>xxx_hidden_Metrics := Some v\<rparr>"

lemma mtype_names: "Metric_MType_name t = Some n \<longleftrightarrow> Metric_MType_value n = Some t"
  by (auto simp: Metric_MType_name_def Metric_MType_value_def)

text \<open>Building a message is setting its fields one by one, in whatever state it was before.\<close>

lemma build_sets:
  "Metric_Build i ty d v = SetValue v (SetDelta d (SetType ty (SetId i x)))"
  "UpdateMetricsRequest_Build ms = SetMetrics ms r"
  by (simp_all add: msg_defs Metric_Build_def SetMetrics_def)

section \<open>The service\<close>

definition Metrics_UpdateMetrics_FullMethodName :: string where
  "Metrics_UpdateMetrics_FullMethodName = ''/metrics.Metrics/UpdateMetrics''"

record 's metrics_server =
  srv_UpdateMetrics :: "'s unary_handler"

definition UnimplementedMetricsServer :: "'s metrics_server" where
  "UnimplementedMetricsServer =
     \<lparr>srv_UpdateMetrics =
        (\<lambda>cl req s. (Inl (status_Error ''Unimplemented'' ''method UpdateMetrics not implemented''), s, []))\<rparr>"

text \<open>\<open>grpcmetrics.Server\<close> embeds it, and its own method takes the place of the promoted one.\<close>

definition Server_New :: "'s repository \<Rightarrow> bool \<Rightarrow> 's metrics_server" where
  "Server_New repo auditor = UnimplementedMetricsServer\<lparr>srv_UpdateMetrics := UpdateMetrics repo auditor\<rparr>"

type_synonym 's served =
  "('s unary_handler \<Rightarrow> 's unary_handler) option \<Rightarrow> grpc_call \<Rightarrow> update_request result \<Rightarrow> 's \<Rightarrow>
   unit result \<times> 's \<times> event list"

record 's method_desc =
  md_MethodName :: string
  md_Handler :: "'s metrics_server \<Rightarrow> 's served"

record 's service_desc =
  gd_ServiceName :: string
  gd_Methods :: "'s method_desc list"
  gd_Streams :: "string list"
  gd_Metadata :: string

definition Metrics_ServiceDesc :: "'s service_desc" where
  "Metrics_ServiceDesc =
     \<lparr>gd_ServiceName = ''metrics.Metrics'',
      gd_Methods =
        [\<lparr>md_MethodName = ''UpdateMetrics'',
          md_Handler = (\<lambda>srv interceptor. Metrics_UpdateMetrics_Handler interceptor (srv_UpdateMetrics srv))\<rparr>],
      gd_Streams = [], gd_Metadata = ''metrics.proto''\<rparr>"

text \<open>\<open>grpc.Server\<close> is the library's: \<open>register\<close> its \<open>RegisterService\<close>, \<open>serve\<close> what it does with a call of a full method name.\<close>

definition RegisterMetricsServer ::
  "('s service_desc \<Rightarrow> 's metrics_server \<Rightarrow> 'r \<Rightarrow> 'r) \<Rightarrow> 'r \<Rightarrow> 's metrics_server \<Rightarrow> 'r" where
  "RegisterMetricsServer register s srv = register Metrics_ServiceDesc srv s"

text \<open>The documented dispatch: \<open>/service/method\<close> names the handler of a method of a registered service.\<close>

definition grpc_dispatches ::
  "('s service_desc \<Rightarrow> 's metrics_server \<Rightarrow> 'r \<Rightarrow> 'r) \<Rightarrow> ('r \<Rightarrow> string \<Rightarrow> 's served) \<Rightarrow> 'r \<Rightarrow> bool" where
  "grpc_dispatches register serve r \<longleftrightarrow>
     (\<forall>d srv m. m \<in> set (gd_Methods d) \<and> distinct (map md_MethodName (gd_Methods d)) \<longrightarrow>
        serve (register d srv r) (''/'' @ gd_ServiceName d @ ''/'' @ md_MethodName m) = md_Handler m srv)"

section \<open>The client\<close>

definition metricsClient_UpdateMetrics :: "(string \<Rightarrow> 's invoker) \<Rightarrow> 's invoker" where
  "metricsClient_UpdateMetrics cc md req s =
     (case cc Metrics_UpdateMetrics_FullMethodName md req s of
        (Inl e, s') \<Rightarrow> (Inl e, s')
      | (Inr out, s') \<Rightarrow> (Inr out, s'))"

text \<open>
  The connection of \<open>NewGRPCClient\<close>: its interceptor around a call that a server with the interceptors of \<open>run\<close>
  answers.
\<close>

definition agent_conn ::
  "string \<Rightarrow> (string \<Rightarrow> 's served) \<Rightarrow> (string \<Rightarrow> (128 word) option) \<Rightarrow> ip_net option \<Rightarrow> int \<Rightarrow> string \<Rightarrow> 's invoker" where
  "agent_conn ip server parse6 network now method =
     realIPClientInterceptor ip (\<lambda>md req s.
       case server method (Some (UnaryInterceptor parse6 network)) \<lparr>gc_md = Some md, gc_now = now\<rparr> (Inr req) s of
         (res, s', ev) \<Rightarrow> (res, s'))"

lemma dispatch_UpdateMetrics:
  assumes "grpc_dispatches register serve r"
  shows "serve (RegisterMetricsServer register r srv) Metrics_UpdateMetrics_FullMethodName =
    (\<lambda>interceptor. Metrics_UpdateMetrics_Handler interceptor (srv_UpdateMetrics srv))"
  using assms [unfolded grpc_dispatches_def, rule_format, of "hd (gd_Methods Metrics_ServiceDesc)" Metrics_ServiceDesc srv]
  by (simp add: Metrics_ServiceDesc_def RegisterMetricsServer_def Metrics_UpdateMetrics_FullMethodName_def)

lemma client_result: "metricsClient_UpdateMetrics cc = cc Metrics_UpdateMetrics_FullMethodName"
  by (intro ext) (simp add: metricsClient_UpdateMetrics_def split: prod.split sum.split)

text \<open>
  The agent's calls reach the server's method. Over any library that dispatches by the registered names, a batch sent through
  the generated client has the same result and the same effect as over \<open>grpc_link\<close>, which all statements about the
  composed system use; with the embedded default instead of the server's method, the batch
  is refused as not implemented if the caller is allowed, and the store is unchanged in any case.
\<close>

theorem grpc_wiring:
  assumes "grpc_dispatches register serve r"
  shows "grpc_SendBatch (metricsClient_UpdateMetrics
      (agent_conn ip (serve (RegisterMetricsServer register r (Server_New repo auditor))) parse6 network now)) ms s =
    grpc_SendBatch (realIPClientInterceptor ip (grpc_link parse6 network repo auditor now)) ms s \<and>
    grpc_SendBatch (metricsClient_UpdateMetrics
      (agent_conn ip (serve (RegisterMetricsServer register r UnimplementedMetricsServer)) parse6 network now)) ms s =
    (if ms = [] then Inr ()
     else Inl (ErrWrap ''grpc update metrics''
       (if Allowed parse6 network ip
        then status_Error ''Unimplemented'' ''method UpdateMetrics not implemented''
        else status_Error ''PermissionDenied'' ''forbidden'')), s)"
proof (rule conjI)
  show "grpc_SendBatch (metricsClient_UpdateMetrics
      (agent_conn ip (serve (RegisterMetricsServer register r (Server_New repo auditor))) parse6 network now)) ms s =
    grpc_SendBatch (realIPClientInterceptor ip (grpc_link parse6 network repo auditor now)) ms s"
    by (simp add: client_result agent_conn_def grpc_link_def [abs_def] dispatch_UpdateMetrics [OF assms] Server_New_def)
  have "Allowed parse6 None ip" by (simp add: Allowed_def)
  then show "grpc_SendBatch (metricsClient_UpdateMetrics
      (agent_conn ip (serve (RegisterMetricsServer register r UnimplementedMetricsServer)) parse6 network now)) ms s =
    (if ms = [] then Inr ()
     else Inl (ErrWrap ''grpc update metrics''
       (if Allowed parse6 network ip
        then status_Error ''Unimplemented'' ''method UpdateMetrics not implemented''
        else status_Error ''PermissionDenied'' ''forbidden'')), s)"
    by (simp add: grpc_SendBatch_def client_result agent_conn_def dispatch_UpdateMetrics [OF assms] realIPClientInterceptor_def
        Metrics_UpdateMetrics_Handler_def UnaryInterceptor_def UnimplementedMetricsServer_def agent_metadata Let_def)
qed

text \<open>A table of services is such a library.\<close>

theorem grpc_wiring_witness:
  "let register = (\<lambda>d srv r. (d, srv) # r);
       serve = (\<lambda>r n. case concat (map (\<lambda>(d, srv). map (\<lambda>m. md_Handler m srv)
                  (filter (\<lambda>m. ''/'' @ gd_ServiceName d @ ''/'' @ md_MethodName m = n) (gd_Methods d))) r) of
                h # _ \<Rightarrow> h
              | [] \<Rightarrow> (\<lambda>ic cl req s. (Inl (status_Error ''Unimplemented'' ''unknown method''), s, [])))
   in fst (grpc_SendBatch (metricsClient_UpdateMetrics
        (agent_conn ''10.0.0.1'' (serve (RegisterMetricsServer register [] UnimplementedMetricsServer)) (\<lambda>_. None) None 0))
        [NewCounter ''a'' 5] New) =
      Inl (ErrWrap ''grpc update metrics'' (status_Error ''Unimplemented'' ''method UpdateMetrics not implemented''))"
proof -
  let ?register = "\<lambda>d srv r. (d :: mem_storage service_desc, srv) # r"
  let ?serve = "\<lambda>r n. case concat (map (\<lambda>(d, srv). map (\<lambda>m. md_Handler m srv)
      (filter (\<lambda>m. ''/'' @ gd_ServiceName d @ ''/'' @ md_MethodName m = n) (gd_Methods d))) r) of
        h # _ \<Rightarrow> h
      | [] \<Rightarrow> (\<lambda>ic cl req s. (Inl (status_Error ''Unimplemented'' ''unknown method''), s, []))"
  have unique: "filter (\<lambda>x. md_MethodName x = md_MethodName m) ms = [m]"
    if "m \<in> set ms" "distinct (map md_MethodName ms)" for m :: "mem_storage method_desc" and ms
    using that by (induction ms) (auto simp: filter_empty_conv image_iff)
  have "grpc_dispatches ?register ?serve []"
    by (auto simp: grpc_dispatches_def unique)
  note wired = conjunct2 [OF grpc_wiring [OF this, where repo = mem_repo and auditor = False and ip = "''10.0.0.1''"
      and ?parse6.0 = "\<lambda>_. None" and network = None and now = 0 and ms = "[NewCounter ''a'' 5]" and s = New]]
  show ?thesis unfolding Let_def wired by (simp add: Allowed_def)
qed

end
