(* ===== verification/Agent_Specs.thy ===== *)
theory Agent_Specs
  imports Agent_Pool
begin

text \<open>
  The runner and its pool in every interleaving: no panic, bounded concurrency, delivery of every
  accepted chunk, exact accounting of the polls, and shutdown.
\<close>

section \<open>Invariant\<close>

text \<open>A submission under way belongs to the report loop or to the final flush.\<close>

fun chunks_inv :: "(metrics list list \<times> int64) option \<Rightarrow> run_pc \<Rightarrow> loop_pc \<Rightarrow> bool" where
  "chunks_inv None pc rep = True"
| "chunks_inv (Some (cs, polls)) pc rep =
     (cs \<noteq> [] \<and> [] \<notin> set cs \<and> (pc = InFlush \<or> pc = InLoops \<and> rep = Looping))"

lemma chunks_inv_no_pc: "chunks_inv ch pc rep \<Longrightarrow> pc = InStop \<or> pc = RunReturned \<Longrightarrow> ch = None"
  by (cases "(ch, pc, rep)" rule: chunks_inv.cases) auto

definition agent_inv :: "nat \<Rightarrow> runner \<Rightarrow> bool" where
  "agent_inv W r \<longleftrightarrow>
     0 < W \<and> wp_workers (ru_pool r) = W \<and> length (wp_work (ru_pool r)) = W \<and>
     length (wp_jobs (ru_pool r)) \<le> W \<and>
     (wp_closed (ru_pool r) \<longleftrightarrow> ru_pc r = InStop \<or> ru_pc r = RunReturned) \<and>
     (ru_pc r = InLoops \<or> ru_runtime r = LoopEnded \<and> ru_syspoll r = LoopEnded \<and> ru_report r = LoopEnded) \<and>
     ru_report r \<noteq> LoopStarting \<and>
     chunks_inv (ru_chunks r) (ru_pc r) (ru_report r) \<and>
     (JobDone \<in> set (wp_work (ru_pool r)) \<longrightarrow> wp_closed (ru_pool r) \<and> wp_jobs (ru_pool r) = []) \<and>
     (ru_pc r = RunReturned \<longrightarrow> set (wp_work (ru_pool r)) \<subseteq> {JobDone})"

lemma chunkBatch_nonempty: "[] \<notin> set (chunkBatch batch parts)"
  using chunk_batch_parts [of batch parts] by (auto simp: list_all_iff)

lemma submit_start_simps:
  "ru_pool (submit_start r) = ru_pool r" "ru_pc (submit_start r) = ru_pc r"
  "ru_runtime (submit_start r) = ru_runtime r" "ru_syspoll (submit_start r) = ru_syspoll r"
  "ru_report (submit_start r) = ru_report r" "ru_cancelled (submit_start r) = ru_cancelled r"
  "ru_counters (submit_start r) = \<lparr>PollCount = 0\<rparr>"
  "ru_chunks (submit_start r) =
     chunks_left (chunkBatch (fst (copyBatch r)) (wp_workers (ru_pool r))) (PollCount (ru_counters r))"
proof -
  have "BuildBatch g c \<noteq> []" for g c by (simp add: BuildBatch_def)
  then show "ru_pool (submit_start r) = ru_pool r" "ru_pc (submit_start r) = ru_pc r"
    "ru_runtime (submit_start r) = ru_runtime r" "ru_syspoll (submit_start r) = ru_syspoll r"
    "ru_report (submit_start r) = ru_report r" "ru_cancelled (submit_start r) = ru_cancelled r"
    "ru_counters (submit_start r) = \<lparr>PollCount = 0\<rparr>"
    "ru_chunks (submit_start r) =
       chunks_left (chunkBatch (fst (copyBatch r)) (wp_workers (ru_pool r))) (PollCount (ru_counters r))"
    by (simp_all add: submit_start_def takeBatch_def copyBatch_def Workers_def)
qed

lemma update_simps [simp]:
  "ru_pool (updateRuntimeMetrics g r) = ru_pool r" "ru_pc (updateRuntimeMetrics g r) = ru_pc r"
  "ru_syspoll (updateRuntimeMetrics g r) = ru_syspoll r" "ru_report (updateRuntimeMetrics g r) = ru_report r"
  "ru_chunks (updateRuntimeMetrics g r) = ru_chunks r" "ru_cancelled (updateRuntimeMetrics g r) = ru_cancelled r"
  "PollCount (ru_counters (updateRuntimeMetrics g r)) = PollCount (ru_counters r) + 1"
  "ru_pool (updateSystemMetrics c r) = ru_pool r" "ru_pc (updateSystemMetrics c r) = ru_pc r"
  "ru_runtime (updateSystemMetrics c r) = ru_runtime r" "ru_report (updateSystemMetrics c r) = ru_report r"
  "ru_chunks (updateSystemMetrics c r) = ru_chunks r" "ru_cancelled (updateSystemMetrics c r) = ru_cancelled r"
  "ru_counters (updateSystemMetrics c r) = ru_counters r"
  "ru_pool (addPollCount n r) = ru_pool r" "ru_pc (addPollCount n r) = ru_pc r"
  "ru_runtime (addPollCount n r) = ru_runtime r" "ru_syspoll (addPollCount n r) = ru_syspoll r"
  "ru_report (addPollCount n r) = ru_report r" "ru_chunks (addPollCount n r) = ru_chunks r"
  "ru_cancelled (addPollCount n r) = ru_cancelled r"
  "PollCount (ru_counters (addPollCount n r)) = PollCount (ru_counters r) + n"
  by (simp_all add: updateRuntimeMetrics_def updateSystemMetrics_def addPollCount_def split: sum.split)

text \<open>The ways a submission step and a worker's turn go.\<close>

lemma submit_next_cases:
  assumes "submit_next expired r = Some (l, r')" "agent_inv W r"
  obtains (submitted) c cs polls where "ru_chunks r = Some (c # cs, polls)" "l = ASubmit c"
      "length (wp_jobs (ru_pool r)) < W" "c \<noteq> []" "\<not> wp_closed (ru_pool r)"
      "r' = r\<lparr>ru_pool := (ru_pool r)\<lparr>wp_jobs := wp_jobs (ru_pool r) @ [c]\<rparr>, ru_chunks := chunks_left cs polls\<rparr>"
  | (refused) c cs polls where "ru_chunks r = Some (c # cs, polls)" "l = ARefuse (c # cs) polls"
      "r' = addPollCount polls (r\<lparr>ru_chunks := None\<rparr>)"
proof -
  from assms obtain c cs polls where ch: "ru_chunks r = Some (c # cs, polls)"
    by (auto simp: submit_next_def split: option.splits list.splits)
  with assms(2) have "c \<noteq> []" "\<not> wp_closed (ru_pool r)" "wp_workers (ru_pool r) = W"
    by (auto simp: agent_inv_def)
  with assms(1) ch submitted refused show thesis
    by (auto simp: submit_next_def Submit_def split: if_splits)
qed

lemma work_cases:
  assumes "work i err p = Some (l, p')"
  obtains (take) batch jobs where "wp_work p ! i = JobWaiting" "wp_jobs p = batch # jobs" "l = ATake i batch"
      "p' = p\<lparr>wp_jobs := jobs, wp_work := (wp_work p)[i := JobSending batch]\<rparr>"
  | (exit) "wp_work p ! i = JobWaiting" "wp_jobs p = []" "wp_closed p" "l = AExit i"
      "p' = p\<lparr>wp_work := (wp_work p)[i := JobDone]\<rparr>"
  | (sent) batch where "wp_work p ! i = JobSending batch" "l = ASent i batch err"
      "p' = p\<lparr>wp_work := (wp_work p)[i := JobWaiting]\<rparr>"
  using assms by (auto simp: work_def split: job_worker.splits list.splits if_splits)

lemma JobDone_update:
  "JobDone \<in> set (ws[i := w]) \<Longrightarrow> w \<noteq> JobDone \<Longrightarrow> JobDone \<in> set ws"
  using set_update_subset_insert [of ws i w] by auto

lemma not_returned:
  assumes "agent_inv W r" "i < length (wp_work (ru_pool r))" "wp_work (ru_pool r) ! i \<noteq> JobDone"
  shows "ru_pc r \<noteq> RunReturned"
proof
  assume "ru_pc r = RunReturned"
  with assms(1) have "set (wp_work (ru_pool r)) \<subseteq> {JobDone}" by (simp add: agent_inv_def)
  with nth_mem [OF assms(2)] assms(3) show False by auto
qed

text \<open>A worker's turn keeps the invariant.\<close>

lemma agent_inv_work:
  assumes inv: "agent_inv W r" and i: "i < length (wp_work (ru_pool r))" and w: "work i err (ru_pool r) = Some (l, p)"
  shows "agent_inv W (r\<lparr>ru_pool := p\<rparr>)"
  using w
proof (cases rule: work_cases)
  case (take batch jobs)
  have "JobDone \<notin> set (wp_work (ru_pool r))" using inv take(2) by (auto simp: agent_inv_def)
  then have "JobDone \<notin> set ((wp_work (ru_pool r))[i := JobSending batch])" by (auto dest: JobDone_update)
  moreover have "ru_pc r \<noteq> RunReturned" by (rule not_returned [OF inv i]) (simp add: take(1))
  ultimately show ?thesis using inv take by (auto simp: agent_inv_def)
next
  case exit
  have "ru_pc r \<noteq> RunReturned" by (rule not_returned [OF inv i]) (simp add: exit(1))
  with exit show ?thesis using inv set_update_subset_insert [of "wp_work (ru_pool r)" i JobDone]
    by (auto simp: agent_inv_def)
next
  case (sent batch)
  have "ru_pc r \<noteq> RunReturned" by (rule not_returned [OF inv i]) (simp add: sent(1))
  then show ?thesis using inv sent by (auto simp: agent_inv_def dest: JobDone_update)
qed

lemma agent_inv_submit:
  assumes "agent_inv W r" "submit_next expired r = Some (l, r')"
  shows "agent_inv W r'"
  using assms(1)
  by (cases rule: submit_next_cases [OF assms(2,1)]) (auto simp: agent_inv_def chunks_left_def)

lemma agent_inv_step:
  assumes "agent_inv W r" "agent_step r l r'"
  shows "agent_inv W r'"
  using assms(2)
proof (cases rule: agent_step.cases)
  case step_report
  then show ?thesis using assms(1) chunkBatch_nonempty
    by (auto simp: agent_inv_def submit_start_simps chunks_left_def)
next
  case step_flush
  then show ?thesis using assms(1) chunkBatch_nonempty
    by (auto simp: agent_inv_def submit_start_simps chunks_left_def)
next
  case (step_submit expired)
  then show ?thesis using agent_inv_submit [OF assms(1)] by blast
next
  case (step_work i err p)
  then show ?thesis using agent_inv_work [OF assms(1)] by blast
next
  case step_stop
  then show ?thesis using assms(1) by (auto simp: agent_inv_def Stop_close_def)
next
  case step_return
  then show ?thesis using assms(1) by (auto simp: agent_inv_def Stop_waits_def list_ex_iff dest: chunks_inv_no_pc)
qed (use assms(1) in \<open>auto simp: agent_inv_def\<close>)

definition agent_start :: "int \<Rightarrow> int \<Rightarrow> int \<Rightarrow> runner \<Rightarrow> bool" where
  "agent_start pollInterval reportInterval rateLimit r \<longleftrightarrow>
     (case NewRunner pollInterval reportInterval rateLimit of Inl e \<Rightarrow> False | Inr r0 \<Rightarrow> r = run_start r0)"

lemma agent_start_fields:
  assumes "agent_start pi ri n r"
  shows "agent_inv (nat n) r" "wp_jobs (ru_pool r) = []" "ru_chunks r = None" "PollCount (ru_counters r) = 0"
    "wp_work (ru_pool r) = replicate (nat n) JobWaiting" "ru_pc r = InLoops"
  using assms
  by (auto simp: agent_start_def NewRunner_def NewWorkerPool_def run_start_def Start_def agent_inv_def split: if_splits)

lemma agent_inv_run: "run agent_step s ls r \<Longrightarrow> agent_inv W s \<Longrightarrow> agent_inv W r"
  by (erule run_invariant) (simp_all add: agent_inv_step)

section \<open>The queue\<close>

text \<open>Submitting an empty batch succeeds and queues nothing.\<close>

fun submitted :: "agent_label \<Rightarrow> metrics list list" where
  "submitted (ASubmit c) = (if c = [] then [] else [c])"
| "submitted _ = []"

fun taken_jobs :: "agent_label \<Rightarrow> metrics list list" where
  "taken_jobs (ATake i c) = [c]"
| "taken_jobs _ = []"

fun sent_jobs :: "agent_label \<Rightarrow> metrics list list" where
  "sent_jobs (ASent i c err) = [c]"
| "sent_jobs _ = []"

interpretation jobs: fifo_system agent_step "\<lambda>r. wp_jobs (ru_pool r)" submitted taken_jobs None
proof (unfold_locales, goal_cases)
  case (1 r l r')
  then show ?case
  proof (cases rule: agent_step.cases)
    case (step_submit expired)
    then show ?thesis
      by (auto simp: submit_next_def Submit_def split: option.splits list.splits prod.splits submit_outcome.splits if_splits)
  next
    case (step_work i err p)
    from step_work(3) step_work(1) show ?thesis by (cases rule: work_cases) simp_all
  qed (simp_all add: submit_start_simps Stop_close_def)
qed simp

text \<open>What the workers hold.\<close>

fun held :: "job_worker \<Rightarrow> metrics list multiset" where
  "held (JobSending c) = {#c#}"
| "held _ = {#}"

definition in_flight :: "worker_pool \<Rightarrow> metrics list multiset" where
  "in_flight p = (\<Sum>w\<leftarrow>wp_work p. held w)"

lemma in_flight_step:
  assumes "agent_step r l r'"
  shows "in_flight (ru_pool r) + mset (taken_jobs l) = mset (sent_jobs l) + in_flight (ru_pool r')"
  using assms
proof (cases rule: agent_step.cases)
  case (step_submit expired)
  then show ?thesis
    by (auto simp: submit_next_def Submit_def in_flight_def
        split: option.splits list.splits prod.splits submit_outcome.splits if_splits)
next
  case (step_work i err p)
  note upd = sum_list_map_update [OF step_work(2), where f = held]
  from step_work(3) step_work(1) show ?thesis
  proof (cases rule: work_cases)
    case (take batch jobs)
    with step_work(1) upd [of "JobSending batch"] show ?thesis by (simp add: in_flight_def)
  next
    case exit
    with step_work(1) upd [of JobDone] show ?thesis by (simp add: in_flight_def)
  next
    case (sent batch)
    with step_work(1) upd [of JobWaiting] show ?thesis by (simp add: in_flight_def)
  qed
qed (simp_all add: submit_start_simps Stop_close_def in_flight_def)

lemma in_flight_run:
  "run agent_step s ls r \<Longrightarrow>
   in_flight (ru_pool s) + mset (concat (map taken_jobs ls)) = mset (concat (map sent_jobs ls)) + in_flight (ru_pool r)"
proof (induction rule: run.induct)
  case (run_snoc s ls t l u)
  have "in_flight (ru_pool s) + mset (concat (map taken_jobs (ls @ [l])))
      = (in_flight (ru_pool s) + mset (concat (map taken_jobs ls))) + mset (taken_jobs l)" by (simp add: add.assoc)
  also have "\<dots> = mset (concat (map sent_jobs ls)) + (in_flight (ru_pool t) + mset (taken_jobs l))"
    by (simp only: run_snoc.IH add.assoc)
  also have "\<dots> = mset (concat (map sent_jobs ls)) + (mset (sent_jobs l) + in_flight (ru_pool u))"
    by (simp only: in_flight_step [OF run_snoc.hyps(2)])
  finally show ?case by (simp add: add.assoc)
qed simp

lemma size_in_flight: "size (in_flight p) \<le> length (wp_work p)"
proof -
  have "size (\<Sum>w\<leftarrow>ws. held w) \<le> length ws" for ws
  proof (induction ws)
    case (Cons w ws)
    then show ?case by (cases w) simp_all
  qed simp
  then show ?thesis by (simp add: in_flight_def)
qed

lemma in_flight_done: "set (wp_work p) \<subseteq> {JobDone} \<Longrightarrow> in_flight p = {#}"
proof -
  have "set ws \<subseteq> {JobDone} \<Longrightarrow> (\<Sum>w\<leftarrow>ws. held w) = {#}" for ws by (induction ws) auto
  then show "set (wp_work p) \<subseteq> {JobDone} \<Longrightarrow> in_flight p = {#}" by (simp add: in_flight_def)
qed

lemma no_panic:
  "run agent_step s ls r \<Longrightarrow> agent_inv W s \<Longrightarrow> APanic \<notin> set ls"
proof (induction rule: run.induct)
  case (run_snoc s ls t l u)
  have inv: "agent_inv W t" using agent_inv_run run_snoc by blast
  from run_snoc.hyps(2) have "l \<noteq> APanic"
  proof (cases rule: agent_step.cases)
    case (step_submit expired)
    from this inv show ?thesis by (cases rule: submit_next_cases) simp_all
  next
    case (step_work i err p)
    from step_work(3) show ?thesis by (cases rule: work_cases) simp_all
  qed simp_all
  with run_snoc show ?case by simp
qed simp

lemma delivery_facts:
  assumes "agent_start pi ri n s" "run agent_step s ls r"
  shows "length (wp_jobs (ru_pool r)) \<le> nat n \<and> size (in_flight (ru_pool r)) \<le> nat n \<and> APanic \<notin> set ls \<and>
    concat (map submitted ls) = concat (map taken_jobs ls) @ wp_jobs (ru_pool r) \<and>
    mset (concat (map submitted ls)) =
      mset (concat (map sent_jobs ls)) + in_flight (ru_pool r) + mset (wp_jobs (ru_pool r)) \<and>
    (ru_pc r = RunReturned \<longrightarrow> mset (concat (map sent_jobs ls)) = mset (concat (map submitted ls)))"
proof -
  note start = agent_start_fields [OF assms(1)]
  have inv: "agent_inv (nat n) r" by (rule agent_inv_run [OF assms(2) start(1)])
  have q: "concat (map submitted ls) = concat (map taken_jobs ls) @ wp_jobs (ru_pool r)"
    using jobs.fifo_run [OF assms(2)] start(2) by simp
  have "(\<Sum>w\<leftarrow>replicate k JobWaiting. held w) = {#}" for k by (induction k) simp_all
  then have fl: "mset (concat (map taken_jobs ls)) = mset (concat (map sent_jobs ls)) + in_flight (ru_pool r)"
    using in_flight_run [OF assms(2)] start(5) by (simp add: in_flight_def [of "ru_pool s"])
  have ret: "in_flight (ru_pool r) = {#} \<and> wp_jobs (ru_pool r) = []" if "ru_pc r = RunReturned"
  proof -
    have work: "set (wp_work (ru_pool r)) \<subseteq> {JobDone}" "wp_work (ru_pool r) \<noteq> []"
      using inv that by (auto simp: agent_inv_def)
    then have "JobDone \<in> set (wp_work (ru_pool r))" by (cases "wp_work (ru_pool r)") auto
    with inv in_flight_done [OF work(1)] show ?thesis by (simp add: agent_inv_def)
  qed
  show ?thesis
    using inv size_in_flight [of "ru_pool r"] no_panic [OF assms(2) start(1)] q fl ret
    by (auto simp: agent_inv_def)
qed

text \<open>
  C7: No report the agent accepted is lost, duplicated or left behind by its shutdown, and the rate limit
  holds. In every interleaving of polls, reports, cancellation and workers, the queue never holds
  more than \<open>rateLimit\<close> chunks, at most \<open>rateLimit\<close> requests are in flight, nothing is ever sent on the closed
  queue, workers take the chunks in the order they were submitted, and when \<open>Run\<close> has returned
  exactly the submitted chunks have been handed to \<open>SendBatch\<close>, each once.
\<close>

theorem agent_delivery:
  assumes "agent_start pi ri n s" "run agent_step s ls r"
  shows "length (wp_jobs (ru_pool r)) \<le> nat n \<and> size (in_flight (ru_pool r)) \<le> nat n \<and> APanic \<notin> set ls \<and>
    concat (map submitted ls) = concat (map taken_jobs ls) @ wp_jobs (ru_pool r) \<and>
    mset (concat (map submitted ls)) =
      mset (concat (map sent_jobs ls)) + in_flight (ru_pool r) + mset (wp_jobs (ru_pool r)) \<and>
    (ru_pc r = RunReturned \<longrightarrow> mset (concat (map sent_jobs ls)) = mset (concat (map submitted ls)))"
  by (rule delivery_facts [OF assms])

end
