(* ===== verification/Agent_Polls.thy ===== *)
theory Agent_Polls
  imports Agent_Specs Collector_Specs
begin

text \<open>
  Where the polls the agent counts go: into submitted chunks, back into the counter, or twice.
\<close>

section \<open>The poll count of a batch\<close>

definition poll_delta :: "metrics list \<Rightarrow> int64" where
  "poll_delta c = (\<Sum>m\<leftarrow>c. delta_for ''PollCount'' m)"

lemma poll_delta_simps [simp]:
  "poll_delta [] = 0" "poll_delta (m # ms) = delta_for ''PollCount'' m + poll_delta ms"
  "poll_delta (ms @ ns) = poll_delta ms + poll_delta ns"
  by (simp_all add: poll_delta_def)

lemma poll_delta_gauges [simp]:
  "poll_delta (runtime_Gauges g) = 0" "poll_delta (system_Gauges s) = 0"
  by (simp_all add: poll_delta_def runtime_Gauges_def system_Gauges_def)

lemma poll_delta_none: "list_all (\<lambda>m. delta_for ''PollCount'' m = 0) ms \<Longrightarrow> poll_delta ms = 0"
  by (induction ms) simp_all

lemma poll_delta_concat_mset:
  assumes "mset cs = mset ds"
  shows "poll_delta (concat cs) = poll_delta (concat ds)"
proof -
  have "poll_delta (concat es) = (\<Sum>c\<in>#mset es. poll_delta c)" for es by (induction es) simp_all
  then show ?thesis using assms by simp
qed

lemma poll_delta_subset:
  "set xs \<subseteq> set ys \<Longrightarrow> list_all (\<lambda>m. delta_for ''PollCount'' m = 0) ys \<Longrightarrow> poll_delta xs = 0"
  by (rule poll_delta_none) (auto simp: list_all_iff)

lemma gauges_no_polls:
  "list_all (\<lambda>m. delta_for ''PollCount'' m = 0) (runtime_Gauges g)"
  "list_all (\<lambda>m. delta_for ''PollCount'' m = 0) (system_Gauges s)"
proof -
  have "list_all (\<lambda>m. delta_for ''PollCount'' m = 0) (cpu_gauges i xs)" for i xs
    by (induction xs arbitrary: i) simp_all
  then show "list_all (\<lambda>m. delta_for ''PollCount'' m = 0) (runtime_Gauges g)"
    "list_all (\<lambda>m. delta_for ''PollCount'' m = 0) (system_Gauges s)"
    by (simp_all add: runtime_Gauges_def system_Gauges_def)
qed

lemma poll_delta_batch: "poll_delta (BuildBatch g c @ system_Gauges s) = PollCount c"
  by (simp add: BuildBatch_def zero_metrics_def delta_for_def)

text \<open>What is left of a batch has all of its polls or none.\<close>

lemma poll_delta_rest:
  assumes "pre @ rest = BuildBatch g c @ system_Gauges s"
  shows "poll_delta rest = 0 \<or> poll_delta rest = PollCount c"
proof -
  obtain m where b: "pre @ rest = runtime_Gauges g @ m # system_Gauges s"
    using assms by (simp add: BuildBatch_def)
  show ?thesis
  proof (cases "length pre \<le> length (runtime_Gauges g)")
    case True
    then have "pre = take (length pre) (runtime_Gauges g)"
      using arg_cong [OF b, of "take (length pre)"] by simp
    then have "set pre \<subseteq> set (runtime_Gauges g)" by (metis set_take_subset)
    then have "poll_delta pre = 0" by (rule poll_delta_subset [OF _ gauges_no_polls(1)])
    with arg_cong [OF assms, of poll_delta] show ?thesis unfolding poll_delta_batch by simp
  next
    case False
    then obtain k where k: "length pre = Suc (length (runtime_Gauges g) + k)"
      by (metis add_Suc_right less_iff_Suc_add not_le)
    have "rest = drop (length pre) (runtime_Gauges g @ m # system_Gauges s)"
      using arg_cong [OF b, of "drop (length pre)"] by simp
    then have "rest = drop k (system_Gauges s)" by (simp add: k)
    then have "set rest \<subseteq> set (system_Gauges s)" by (simp add: set_drop_subset)
    then have "poll_delta rest = 0" by (rule poll_delta_subset [OF _ gauges_no_polls(2)])
    then show ?thesis ..
  qed
qed

section \<open>Accounting\<close>

fun is_poll :: "agent_label \<Rightarrow> bool" where
  "is_poll (APoll g) = True"
| "is_poll _ = False"

fun is_refusal :: "agent_label \<Rightarrow> bool" where
  "is_refusal (ARefuse cs polls) = True"
| "is_refusal _ = False"

text \<open>A refused submission gives back all the polls of its batch, also those already queued.\<close>

fun counted_twice :: "agent_label \<Rightarrow> int64" where
  "counted_twice (ARefuse cs polls) = polls - poll_delta (concat cs)"
| "counted_twice _ = 0"

fun twice_ok :: "agent_label \<Rightarrow> bool" where
  "twice_ok (ARefuse cs polls) = (polls - poll_delta (concat cs) \<in> {0, polls})"
| "twice_ok _ = True"

definition polls_pending :: "runner \<Rightarrow> int64" where
  "polls_pending r = (case ru_chunks r of None \<Rightarrow> 0 | Some (cs, polls) \<Rightarrow> poll_delta (concat cs))"

lemma polls_pending_simps [simp]:
  "ru_chunks r = None \<Longrightarrow> polls_pending r = 0"
  "ru_chunks r = Some (cs, polls) \<Longrightarrow> polls_pending r = poll_delta (concat cs)"
  "ru_chunks r = chunks_left cs polls \<Longrightarrow> polls_pending r = poll_delta (concat cs)"
  by (simp_all add: polls_pending_def chunks_left_def)

text \<open>A submission under way is the rest of a batch with its polls.\<close>

definition from_batch :: "runner \<Rightarrow> bool" where
  "from_batch r \<longleftrightarrow>
     (\<forall>cs polls. ru_chunks r = Some (cs, polls) \<longrightarrow>
        (\<exists>pre g c s. pre @ concat cs = BuildBatch g c @ system_Gauges s \<and> polls = PollCount c))"

lemma from_batch_start: "from_batch (submit_start r)"
  unfolding from_batch_def
proof (intro allI impI)
  fix cs polls
  assume "ru_chunks (submit_start r) = Some (cs, polls)"
  then have "[] @ concat cs = BuildBatch (ru_gauges r) (ru_counters r) @ system_Gauges (ru_system r)"
    "polls = PollCount (ru_counters r)"
    by (auto simp: submit_start_simps chunks_left_def copyBatch_def split: if_splits)
  then show "\<exists>pre g c s. pre @ concat cs = BuildBatch g c @ system_Gauges s \<and> polls = PollCount c" by blast
qed

lemma from_batch_step:
  assumes "agent_step r l r'" "agent_inv W r" "from_batch r"
  shows "from_batch r' \<and> twice_ok l"
  using assms(1)
proof (cases rule: agent_step.cases)
  case step_report
  then show ?thesis using from_batch_start by simp
next
  case step_flush
  then show ?thesis using from_batch_start [of r] by (simp add: from_batch_def)
next
  case (step_submit expired)
  from this assms(2) show ?thesis
  proof (cases rule: submit_next_cases)
    case (submitted c cs polls)
    then show ?thesis using assms(3)
      by (auto simp: from_batch_def chunks_left_def) (metis append.assoc)
  next
    case (refused c cs polls)
    with assms(3) obtain pre g cn s where rest: "pre @ concat (c # cs) = BuildBatch g cn @ system_Gauges s" "polls = PollCount cn"
      by (auto simp: from_batch_def)
    from poll_delta_rest [OF rest(1)] rest(2)
    have "poll_delta (concat (c # cs)) = 0 \<or> poll_delta (concat (c # cs)) = polls" by (simp only:)
    then have "twice_ok l" unfolding refused(2) twice_ok.simps by (elim disjE) (simp_all only: diff_self diff_zero insert_iff simp_thms)
    with refused show ?thesis by (simp add: from_batch_def)
  qed
next
  case (step_work i err p)
  from step_work(3) step_work(1) assms(3) show ?thesis by (cases rule: work_cases) (simp_all add: from_batch_def)
qed (use assms(3) in \<open>simp_all add: from_batch_def\<close>)

lemma poll_step:
  assumes "agent_step r l r'" "agent_inv W r"
  shows "PollCount (ru_counters r) + polls_pending r + (if is_poll l then 1 else 0) + counted_twice l =
         poll_delta (concat (submitted l)) + PollCount (ru_counters r') + polls_pending r'"
  using assms(1)
proof (cases rule: agent_step.cases)
  case step_report
  have "polls_pending (submit_start r) = PollCount (ru_counters r)"
    using submit_start_simps(8) [of r] by (simp only: polls_pending_simps concat_chunkBatch) (simp only: copyBatch_def fst_conv poll_delta_batch)
  then show ?thesis using step_report by (simp add: submit_start_simps)
next
  case step_flush
  have "polls_pending r = 0"
    using assms(2) step_flush by (cases "ru_chunks r") (auto simp: agent_inv_def)
  moreover have "polls_pending (submit_start r\<lparr>ru_pc := InFlush\<rparr>) = PollCount (ru_counters r)"
    using polls_pending_simps(3) [of "submit_start r\<lparr>ru_pc := InFlush\<rparr>", simplified, OF submit_start_simps(8)]
    by (simp only: concat_chunkBatch) (simp only: copyBatch_def fst_conv poll_delta_batch)
  ultimately show ?thesis using step_flush by (simp add: submit_start_simps)
next
  case (step_submit expired)
  from this assms(2) show ?thesis
    by (cases rule: submit_next_cases) (auto simp: algebra_simps polls_pending_def chunks_left_def)
next
  case (step_work i err p)
  from step_work(3) step_work(1) show ?thesis by (cases rule: work_cases) (simp_all add: polls_pending_def)
qed (simp_all add: polls_pending_def)

lemma poll_run:
  "run agent_step s ls r \<Longrightarrow> agent_inv W s \<Longrightarrow> from_batch s \<Longrightarrow>
   from_batch r \<and> list_all twice_ok ls \<and>
   PollCount (ru_counters s) + polls_pending s + of_nat (length (filter is_poll ls)) + (\<Sum>l\<leftarrow>ls. counted_twice l) =
     poll_delta (concat (concat (map submitted ls))) + PollCount (ru_counters r) + polls_pending r"
proof (induction rule: run.induct)
  case (run_snoc s ls t l u)
  have inv: "agent_inv W t" using agent_inv_run run_snoc by blast
  from run_snoc.IH run_snoc.prems have ih: "from_batch t" "list_all twice_ok ls"
    "PollCount (ru_counters s) + polls_pending s + of_nat (length (filter is_poll ls)) + (\<Sum>l\<leftarrow>ls. counted_twice l) =
     poll_delta (concat (concat (map submitted ls))) + PollCount (ru_counters t) + polls_pending t" by auto
  have "PollCount (ru_counters s) + polls_pending s + of_nat (length (filter is_poll (ls @ [l]))) + (\<Sum>l\<leftarrow>ls @ [l]. counted_twice l)
     = (PollCount (ru_counters s) + polls_pending s + of_nat (length (filter is_poll ls)) + (\<Sum>l\<leftarrow>ls. counted_twice l))
       + (if is_poll l then 1 else 0) + counted_twice l" by simp
  also have "\<dots> = poll_delta (concat (concat (map submitted ls))) +
       (PollCount (ru_counters t) + polls_pending t + (if is_poll l then 1 else 0) + counted_twice l)"
    unfolding ih(3) by (simp only: add.assoc)
  also have "\<dots> = poll_delta (concat (concat (map submitted (ls @ [l])))) + PollCount (ru_counters u) + polls_pending u"
    unfolding poll_step [OF run_snoc.hyps(2) inv] by (simp add: add.assoc)
  finally show ?case using from_batch_step [OF run_snoc.hyps(2) inv ih(1)] ih(2) by simp
qed simp

section \<open>The counter on the server\<close>

fun delivered :: "agent_label \<Rightarrow> metrics list list" where
  "delivered (ASent i c None) = [c]"
| "delivered _ = []"

text \<open>After the final flush nothing is counted any more.\<close>

lemma final_count:
  "run agent_step s ls r \<Longrightarrow> agent_inv W s \<Longrightarrow> ru_pc s = InLoops \<Longrightarrow> \<not> list_ex is_refusal ls \<Longrightarrow>
   ru_pc r = InLoops \<or> PollCount (ru_counters r) = 0"
proof (induction rule: run.induct)
  case (run_snoc s ls t l u)
  have inv: "agent_inv W t" using agent_inv_run run_snoc by blast
  from run_snoc have ih: "ru_pc t = InLoops \<or> PollCount (ru_counters t) = 0" and l: "\<not> is_refusal l" by auto
  from run_snoc.hyps(2) show ?case
  proof (cases rule: agent_step.cases)
    case (step_submit expired)
    from this inv show ?thesis using ih l by (cases rule: submit_next_cases) auto
  qed (use ih inv in \<open>auto simp: agent_inv_def submit_start_simps\<close>)
qed simp

text \<open>When \<open>Run\<close> has returned and every request was answered, the server has the submitted polls.\<close>

lemma returned_polls:
  assumes "agent_start pi ri n s" "run agent_step s ls r"
    and ret: "ru_pc r = RunReturned" and sent: "list_all (\<lambda>l. delivered l = sent_jobs l) ls"
  shows "go_index (batch_counters (concat (concat (map delivered ls))) c0) ''PollCount'' =
      go_index c0 ''PollCount'' + poll_delta (concat (concat (map submitted ls)))"
    and "polls_pending r = 0"
proof -
  have "map delivered ls = map sent_jobs ls" using sent by (simp add: list_all_iff)
  then have same: "concat (map delivered ls) = concat (map sent_jobs ls)" by (simp only:)
  have "mset (concat (map sent_jobs ls)) = mset (concat (map submitted ls))"
    using delivery_facts [OF assms(1,2)] ret by blast
  then have "poll_delta (concat (concat (map delivered ls))) = poll_delta (concat (concat (map submitted ls)))"
    unfolding same by (rule poll_delta_concat_mset)
  then show "go_index (batch_counters (concat (concat (map delivered ls))) c0) ''PollCount'' =
      go_index c0 ''PollCount'' + poll_delta (concat (concat (map submitted ls)))"
    by (simp only: go_index_batch flip: poll_delta_def)
  have "agent_inv (nat n) r" by (rule agent_inv_run [OF assms(2) agent_start_fields(1) [OF assms(1)]])
  then show "polls_pending r = 0" using ret chunks_inv_no_pc by (auto simp: agent_inv_def)
qed

lemma no_refusal_once: "\<not> list_ex is_refusal ls \<Longrightarrow> (\<Sum>l\<leftarrow>ls. counted_twice l) = 0"
proof (induction ls)
  case (Cons l ls)
  then show ?case by (cases l) auto
qed simp

lemma polls_on_server:
  assumes "agent_start pi ri n s" "run agent_step s ls r"
    and ret: "ru_pc r = RunReturned" and noref: "\<not> list_ex is_refusal ls"
    and sent: "list_all (\<lambda>l. delivered l = sent_jobs l) ls"
  shows "go_index (batch_counters (concat (concat (map delivered ls))) c0) ''PollCount'' =
    go_index c0 ''PollCount'' + of_nat (length (filter is_poll ls))"
proof -
  note start = agent_start_fields [OF assms(1)]
  have "from_batch s" using start(3) by (simp add: from_batch_def)
  note poll_run [OF assms(2) start(1) this] returned_polls [OF assms(1,2) ret sent] no_refusal_once [OF noref]
  moreover have "PollCount (ru_counters r) = 0"
    using final_count [OF assms(2) start(1) _ noref] start(6) ret by auto
  ultimately show ?thesis using start(3,4) by simp
qed

text \<open>
  C20: Every poll is accounted for. In every interleaving the polls made equal the polls in the submitted
  chunks, in the counter and in the submission under way, up to what refused submissions count
  twice, which is nothing or the whole poll count of the refused batch. When \<open>Run\<close> returns with no
  submission refused and every request answered without an error, storing the delivered chunks adds
  to the server's \<open>PollCount\<close> exactly the number of polls.
\<close>

theorem poll_accounting:
  assumes "agent_start pi ri n s" "run agent_step s ls r"
  shows "of_nat (length (filter is_poll ls)) + (\<Sum>l\<leftarrow>ls. counted_twice l) =
      poll_delta (concat (concat (map submitted ls))) + PollCount (ru_counters r) + polls_pending r \<and>
    list_all twice_ok ls \<and>
    (ru_pc r = RunReturned \<and> \<not> list_ex is_refusal ls \<and> list_all (\<lambda>l. delivered l = sent_jobs l) ls \<longrightarrow>
     go_index (batch_counters (concat (concat (map delivered ls))) c0) ''PollCount'' =
       go_index c0 ''PollCount'' + of_nat (length (filter is_poll ls)))"
proof -
  note start = agent_start_fields [OF assms(1)]
  have "from_batch s" using start(3) by (simp add: from_batch_def)
  note acc = poll_run [OF assms(2) start(1) this]
  show ?thesis using acc start(3,4) polls_on_server [OF assms, of c0] by simp
qed

end
