(* ===== verification/Agent_Good.thy ===== *)
theory Agent_Good
  imports Agent_Specs Collector_Specs
begin

text \<open>
  What the agent sends can be stored: as long as the readings are finite, every metric in a report, in the
  queue and in a worker's hands is named, complete and has a JSON text.
\<close>

definition good_metric :: "metrics \<Rightarrow> bool" where
  "good_metric m \<longleftrightarrow> complete_metric m \<and> metrics_text_ok m \<and> ID m \<noteq> []"

text \<open>Readings without infinities and NaNs.\<close>

definition good_gauges :: "gauge_metrics \<Rightarrow> bool" where
  "good_gauges g \<longleftrightarrow> list_all float_field_ok (runtime_Gauges g)"

definition good_system :: "system_metrics \<Rightarrow> bool" where
  "good_system s \<longleftrightarrow> list_all float_field_ok (system_Gauges s)"

lemma batch_good:
  assumes "good_gauges g" "good_system s"
  shows "list_all good_metric (BuildBatch g c @ system_Gauges s)"
proof -
  let ?b = "BuildBatch g c @ system_Gauges s"
  have "list_all float_field_ok ?b"
    using assms by (simp add: BuildBatch_def good_gauges_def good_system_def) (simp add: float_field_ok_def zero_metrics_def)
  then have "list_all metrics_text_ok ?b" by (rule batch_text_ok)
  moreover have "ID m \<noteq> []" if "m \<in> set ?b" for m
  proof -
    have "[] \<notin> set fixed_names"
      by (simp add: fixed_names_def BuildBatch_def runtime_Gauges_def runtime_gauge_def zero_metrics_def)
    moreover have "cpu_name k \<noteq> []" for k by (simp add: cpu_name_def)
    moreover have "ID m \<in> set (map ID ?b)" using imageI [OF that, of ID] by (simp only: set_map)
    ultimately show ?thesis unfolding batch_names by auto
  qed
  ultimately show ?thesis using batch_complete [of g c s] by (auto simp: list_all_iff good_metric_def)
qed

text \<open>The runtime's readings are finite when the two floats the runtime itself gives are.\<close>

lemma collected_good:
  assumes "is_finite_float (ms_GCCPUFraction m)" "is_finite_float rand"
  shows "good_gauges (Collect_runtime m rand)"
proof -
  have z: "is_finite_float 0" by (simp add: is_finite_float_def)
  have "list_all float_field_ok (BuildBatch (Collect_runtime m rand) \<lparr>PollCount = 0\<rparr> @ system_Gauges zero_system)"
    using assms z by (intro batch_float_ok) (simp_all add: zero_system_def)
  then show ?thesis by (simp add: BuildBatch_def good_gauges_def)
qed

lemma zero_good [simp]: "good_gauges zero_gauges" "good_system zero_system"
proof -
  have z: "is_finite_float 0" by (simp add: is_finite_float_def)
  then show "good_gauges zero_gauges" "good_system zero_system"
    by (simp_all add: good_gauges_def runtime_Gauges_def runtime_gauge_def zero_metrics_def zero_gauges_def
        good_system_def system_Gauges_def zero_system_def float_field_ok_def)
qed

fun good_label :: "agent_label \<Rightarrow> bool" where
  "good_label (APoll g) = good_gauges g"
| "good_label (ASystem (Inr s)) = good_system s"
| "good_label _ = True"

fun good_worker :: "job_worker \<Rightarrow> bool" where
  "good_worker (JobSending c) = list_all good_metric c"
| "good_worker _ = True"

definition good_agent :: "runner \<Rightarrow> bool" where
  "good_agent r \<longleftrightarrow>
     good_gauges (ru_gauges r) \<and> good_system (ru_system r) \<and>
     list_all (list_all good_metric) (wp_jobs (ru_pool r)) \<and> list_all good_worker (wp_work (ru_pool r)) \<and>
     (case ru_chunks r of None \<Rightarrow> True | Some (cs, polls) \<Rightarrow> list_all (list_all good_metric) cs)"

lemma list_all_update: "list_all P xs \<Longrightarrow> P y \<Longrightarrow> list_all P (xs[i := y])"
  using set_update_subset_insert [of xs i y] by (auto simp: list_all_iff)

lemma list_all_concat: "list_all P (concat xss) = list_all (list_all P) xss"
  by (induction xss) simp_all

lemma good_start: "good_agent r \<Longrightarrow> good_agent (submit_start r)"
proof -
  assume good: "good_agent r"
  then have "list_all good_metric (fst (copyBatch r))" using batch_good [of "ru_gauges r" "ru_system r" "ru_counters r"] by (simp add: good_agent_def copyBatch_def)
  then have "list_all (list_all good_metric) (chunkBatch (fst (copyBatch r)) k)" for k
    by (simp flip: list_all_concat)
  moreover have "ru_gauges (submit_start r) = ru_gauges r" "ru_system (submit_start r) = ru_system r"
    by (simp_all add: submit_start_def takeBatch_def)
  ultimately show ?thesis using good by (simp add: good_agent_def submit_start_simps chunks_left_def)
qed

lemma good_step:
  assumes "agent_step r l r'" "good_agent r" "good_label l"
  shows "good_agent r' \<and> list_all (list_all good_metric) (sent_jobs l)"
  using assms(1)
proof (cases rule: agent_step.cases)
  case (step_runtime g)
  then show ?thesis using assms(2,3) by (simp add: good_agent_def updateRuntimeMetrics_def)
next
  case (step_system sys)
  then show ?thesis using assms(2,3) by (cases sys) (simp_all add: good_agent_def updateSystemMetrics_def)
next
  case step_flush
  then show ?thesis using good_start [OF assms(2)] by (simp add: good_agent_def)
next
  case (step_submit expired)
  then show ?thesis using assms(2)
    by (auto simp: submit_next_def Submit_def good_agent_def chunks_left_def addPollCount_def
        split: option.splits list.splits prod.splits submit_outcome.splits if_splits)
next
  case (step_work i err p)
  have w: "good_worker (wp_work (ru_pool r) ! i)" using assms(2) step_work(2) by (simp add: good_agent_def list_all_length)
  from step_work(3) show ?thesis using assms(2) w step_work(1)
    by (cases rule: work_cases) (simp_all add: good_agent_def list_all_update)
qed (use assms(2) good_start [OF assms(2)] in \<open>simp_all add: good_agent_def Stop_close_def\<close>)

lemma good_run:
  "run agent_step s ls r \<Longrightarrow> good_agent s \<Longrightarrow> list_all good_label ls \<Longrightarrow>
   good_agent r \<and> list_all (list_all good_metric) (concat (map sent_jobs ls))"
proof (induction rule: run.induct)
  case (run_snoc s ls t l u)
  then show ?case using good_step [OF run_snoc.hyps(2)] by simp
qed simp

lemma agent_start_good: "agent_start pi ri n r \<Longrightarrow> good_agent r"
proof -
  have "list_all good_worker (replicate k JobWaiting)" for k by (induction k) simp_all
  then show "agent_start pi ri n r \<Longrightarrow> good_agent r"
    using zero_good
    by (auto simp: agent_start_def NewRunner_def NewWorkerPool_def run_start_def Start_def good_agent_def split: if_splits)
qed

end
