(* ===== verification/Agent_Shutdown.thy ===== *)
theory Agent_Shutdown
  imports Agent_Polls Agent_Good
begin

text \<open>
  Shutdown: from every reachable state in which the context is cancelled, \<open>Run\<close> can return without a
  refused submission; a measure drops at every step of such a run.
\<close>

fun loop_rank :: "loop_pc \<Rightarrow> nat" where
  "loop_rank LoopStarting = 2"
| "loop_rank Looping = 1"
| "loop_rank LoopEnded = 0"

fun pc_rank :: "nat \<Rightarrow> run_pc \<Rightarrow> nat" where
  "pc_rank W InLoops = 3 * W + 3"
| "pc_rank W InFlush = 2"
| "pc_rank W InStop = 1"
| "pc_rank W RunReturned = 0"

fun worker_rank :: "job_worker \<Rightarrow> nat" where
  "worker_rank JobWaiting = 1"
| "worker_rank (JobSending c) = 2"
| "worker_rank JobDone = 0"

fun chunks_rank :: "(metrics list list \<times> int64) option \<Rightarrow> nat" where
  "chunks_rank None = 0"
| "chunks_rank (Some (cs, polls)) = length cs"

definition pool_rank :: "worker_pool \<Rightarrow> nat" where
  "pool_rank p = 2 * length (wp_jobs p) + (\<Sum>w\<leftarrow>wp_work p. worker_rank w)"

definition stop_rank :: "nat \<Rightarrow> runner \<Rightarrow> nat" where
  "stop_rank W r =
     pc_rank W (ru_pc r) + loop_rank (ru_runtime r) + loop_rank (ru_syspoll r) + loop_rank (ru_report r) +
     3 * chunks_rank (ru_chunks r) + pool_rank (ru_pool r)"

definition quiet :: "agent_label \<Rightarrow> bool" where
  "quiet l \<longleftrightarrow> \<not> is_refusal l \<and> delivered l = sent_jobs l \<and> good_label l"

text \<open>A step towards the end: it drops nothing and lowers the rank, and the context stays cancelled.\<close>

definition stop_step :: "nat \<Rightarrow> runner \<Rightarrow> agent_label \<Rightarrow> runner \<Rightarrow> bool" where
  "stop_step W r l r' \<longleftrightarrow>
     agent_step r l r' \<and> quiet l \<and> stop_rank W r' < stop_rank W r \<and> ru_cancelled r' = ru_cancelled r"

lemma stop_stepI:
  "agent_step r l r' \<Longrightarrow> quiet l \<Longrightarrow> stop_rank W r' < stop_rank W r \<Longrightarrow> ru_cancelled r' = ru_cancelled r \<Longrightarrow>
   \<exists>l r'. stop_step W r l r'"
  by (auto simp: stop_step_def)

lemma worker_moves:
  assumes "i < length (wp_work p)" "wp_work p ! i \<noteq> JobDone"
    and "wp_work p ! i = JobWaiting \<Longrightarrow> wp_jobs p \<noteq> [] \<or> wp_closed p"
  shows "\<exists>l p'. work i None p = Some (l, p') \<and> quiet l \<and> pool_rank p' < pool_rank p"
proof -
  note upd = sum_list_map_update [OF assms(1), where f = worker_rank]
  show ?thesis
  proof (cases "wp_work p ! i")
    case JobWaiting
    show ?thesis
    proof (cases "wp_jobs p")
      case Nil
      with assms(3) JobWaiting upd [of JobDone] show ?thesis
        by (simp add: work_def pool_rank_def quiet_def)
    next
      case (Cons c cs)
      with JobWaiting upd [of "JobSending c"] show ?thesis
        by (simp add: work_def pool_rank_def quiet_def)
    qed
  next
    case (JobSending c)
    with upd [of JobWaiting] show ?thesis by (simp add: work_def pool_rank_def quiet_def)
  qed (use assms(2) in simp)
qed

lemma worker_step:
  assumes "i < length (wp_work (ru_pool r))" "wp_work (ru_pool r) ! i \<noteq> JobDone"
    and "wp_work (ru_pool r) ! i = JobWaiting \<Longrightarrow> wp_jobs (ru_pool r) \<noteq> [] \<or> wp_closed (ru_pool r)"
  shows "\<exists>l r'. stop_step W r l r'"
proof -
  from worker_moves [OF assms] obtain l p where w: "work i None (ru_pool r) = Some (l, p)" "quiet l"
    "pool_rank p < pool_rank (ru_pool r)" by blast
  from w(2,3) show ?thesis by (intro stop_stepI [OF step_work [OF assms(1) w(1)]]) (simp_all add: stop_rank_def)
qed

text \<open>A submission goes on: there is room, or a worker makes some.\<close>

lemma submission_moves:
  assumes inv: "agent_inv W r" and ch: "ru_chunks r = Some (cs, polls)"
  shows "\<exists>l r'. stop_step W r l r'"
proof -
  from inv ch obtain c ds where cs: "cs = c # ds" "c \<noteq> []" by (cases cs) (auto simp: agent_inv_def)
  have opn: "\<not> wp_closed (ru_pool r)" using inv ch by (auto simp: agent_inv_def)
  show ?thesis
  proof (cases "length (wp_jobs (ru_pool r)) < W")
    case True
    define r' where "r' = r\<lparr>ru_pool := (ru_pool r)\<lparr>wp_jobs := wp_jobs (ru_pool r) @ [c]\<rparr>, ru_chunks := chunks_left ds polls\<rparr>"
    have "submit_next False r = Some (ASubmit c, r')"
      using True inv opn cs ch by (simp add: submit_next_def Submit_def r'_def agent_inv_def)
    then have step: "agent_step r (ASubmit c) r'" by (rule step_submit)
    have "stop_rank W r' < stop_rank W r"
      by (simp add: stop_rank_def r'_def pool_rank_def ch cs chunks_left_def)
    then show ?thesis by (intro stop_stepI [OF step]) (simp_all add: quiet_def r'_def)
  next
    case False
    have "0 < length (wp_work (ru_pool r))" "wp_jobs (ru_pool r) \<noteq> []"
      using False inv by (auto simp: agent_inv_def)
    moreover have "wp_work (ru_pool r) ! 0 \<noteq> JobDone"
      using inv opn calculation by (metis agent_inv_def nth_mem)
    ultimately show ?thesis by (intro worker_step) simp_all
  qed
qed

text \<open>The three loops end, and the last report begins.\<close>

lemma flush_moves:
  assumes "agent_inv W r" "ru_chunks r = None" "ru_pc r = InLoops"
    and "ru_runtime r = LoopEnded" "ru_syspoll r = LoopEnded" "ru_report r = LoopEnded"
  shows "\<exists>l r'. stop_step W r l r'"
proof (rule stop_stepI)
  let ?r = "(submit_start r)\<lparr>ru_pc := InFlush\<rparr>"
  show "agent_step r AFlush ?r" by (rule step_flush [OF assms(3-6)])
  have "length (chunkBatch (fst (copyBatch r)) W) \<le> W"
    using chunk_batch_parts [of "fst (copyBatch r)" W] assms(1) by (auto simp: agent_inv_def max_def split: if_splits)
  then have "chunks_rank (ru_chunks ?r) \<le> W"
    using assms(1) by (simp add: submit_start_simps chunks_left_def agent_inv_def)
  then show "stop_rank W ?r < stop_rank W r"
    using assms(2,3) by (simp add: stop_rank_def submit_start_simps)
qed (simp_all add: quiet_def submit_start_simps)

lemma loop_moves:
  assumes inv: "agent_inv W r" and c: "ru_cancelled r" and None: "ru_chunks r = None" and InLoops: "ru_pc r = InLoops"
  shows "\<exists>l r'. stop_step W r l r'"
proof -
  consider (runtime) "ru_runtime r = LoopStarting" | (runtime_end) "ru_runtime r = Looping"
    | (system) "ru_syspoll r = LoopStarting" | (system_end) "ru_syspoll r = Looping"
    | (report) "ru_report r = LoopStarting" | (report_end) "ru_report r = Looping"
    | (flush) "ru_runtime r = LoopEnded" "ru_syspoll r = LoopEnded" "ru_report r = LoopEnded"
    by (metis loop_pc.exhaust)
  then show ?thesis
  proof cases
    case runtime
    with None show ?thesis by (intro stop_stepI [OF step_runtime [of r zero_gauges]]) (simp_all add: quiet_def stop_rank_def)
  next
    case runtime_end
    then show ?thesis by (intro stop_stepI [OF end_runtime [OF c]]) (simp_all add: quiet_def stop_rank_def)
  next
    case system
    with None show ?thesis by (intro stop_stepI [OF step_system [of r "Inr zero_system"]]) (simp_all add: quiet_def stop_rank_def)
  next
    case system_end
    then show ?thesis by (intro stop_stepI [OF end_system [OF c]]) (simp_all add: quiet_def stop_rank_def)
  next
    case report
    with inv show ?thesis by (simp add: agent_inv_def)
  next
    case report_end
    then show ?thesis by (intro stop_stepI [OF end_report [OF c _ None]]) (simp_all add: quiet_def stop_rank_def)
  next
    case flush
    then show ?thesis by (rule flush_moves [OF inv None InLoops])
  qed
qed

lemma shutdown_step:
  assumes inv: "agent_inv W r" and c: "ru_cancelled r" and pc: "ru_pc r \<noteq> RunReturned"
  shows "\<exists>l r'. stop_step W r l r'"
proof (cases "ru_chunks r")
  case (Some a)
  with submission_moves [OF inv] show ?thesis by (cases a) fastforce
next
  case None
  show ?thesis
  proof (cases "ru_pc r")
    case InLoops
    show ?thesis by (rule loop_moves [OF inv c None InLoops])
  next
    case InFlush
    with None show ?thesis
      by (intro stop_stepI [OF step_stop [OF InFlush]]) (simp_all add: quiet_def stop_rank_def Stop_close_def pool_rank_def)
  next
    case InStop
    show ?thesis
    proof (cases "Stop_waits (ru_pool r)")
      case False
      with InStop show ?thesis by (intro stop_stepI [OF step_return [OF InStop]]) (simp_all add: quiet_def stop_rank_def)
    next
      case True
      then obtain i where "i < length (wp_work (ru_pool r))" "wp_work (ru_pool r) ! i \<noteq> JobDone"
        by (auto simp: Stop_waits_def list_ex_iff in_set_conv_nth)
      from worker_step [OF this] inv InStop show ?thesis by (auto simp: agent_inv_def)
    qed
  qed (use pc in simp)
qed

lemma shutdown_run:
  "agent_inv W r \<Longrightarrow> ru_cancelled r \<Longrightarrow>
   \<exists>ms r'. run agent_step r ms r' \<and> ru_pc r' = RunReturned \<and> list_all quiet ms \<and> length ms \<le> stop_rank W r"
proof (induction "stop_rank W r" arbitrary: r rule: less_induct)
  case less
  show ?case
  proof (cases "ru_pc r = RunReturned")
    case True
    then show ?thesis using run_Nil [of agent_step r] by (intro exI [of _ "[]"] exI [of _ r]) simp
  next
    case False
    from shutdown_step [OF less.prems False] obtain l r1 where
      st: "agent_step r l r1" "quiet l" "stop_rank W r1 < stop_rank W r" "ru_cancelled r1"
      using less.prems(2) by (auto simp: stop_step_def)
    from less.hyps [OF st(3) agent_inv_step [OF less.prems(1) st(1)] st(4)] obtain ms r' where
      "run agent_step r1 ms r'" "ru_pc r' = RunReturned" "list_all quiet ms" "length ms \<le> stop_rank W r1" by blast
    with run_append [OF this(1) run_one [of agent_step, OF st(1)]] st(2,3) show ?thesis
      by (intro exI [of _ "[l] @ ms"] exI [of _ r']) simp
  qed
qed


section \<open>Concrete runs\<close>

definition fresh_agent :: "int \<Rightarrow> runner" where
  "fresh_agent n = (case NewRunner 1 1 n of Inr r \<Rightarrow> run_start r)"

lemma fresh_agent_start: "1 \<le> n \<Longrightarrow> agent_start 1 1 n (fresh_agent n)"
  by (simp add: agent_start_def fresh_agent_def NewRunner_def NewWorkerPool_def)

lemma fresh_agent_pc: "1 \<le> n \<Longrightarrow> ru_pc (fresh_agent n) = InLoops"
  by (simp add: fresh_agent_def NewRunner_def NewWorkerPool_def run_start_def)

text \<open>A quiet run adds no refusal and delivers what it sends.\<close>

lemma quiet_run:
  "list_all quiet ms \<Longrightarrow>
   \<not> list_ex is_refusal ms \<and> list_all (\<lambda>l. delivered l = sent_jobs l) ms \<and> list_all good_label ms"
  by (induction ms) (simp_all add: quiet_def)

lemma quiet_not_twice: "list_all quiet ms \<Longrightarrow> (\<Sum>l\<leftarrow>ms. counted_twice l) = 0"
proof (induction ms)
  case (Cons l ms)
  then show ?case by (cases l) (simp_all add: quiet_def)
qed simp

text \<open>One poll, then shutdown.\<close>

lemma one_poll_run:
  assumes "1 \<le> n"
  obtains ls r where "run agent_step (fresh_agent n) (APoll zero_gauges # ls) r" "ru_pc r = RunReturned"
    "\<not> list_ex is_refusal (APoll zero_gauges # ls)" "list_all (\<lambda>l. delivered l = sent_jobs l) (APoll zero_gauges # ls)"
    "list_all good_label (APoll zero_gauges # ls)"
proof -
  let ?s = "fresh_agent n"
  define r1 where "r1 = (updateRuntimeMetrics zero_gauges ?s)\<lparr>ru_runtime := Looping\<rparr>"
  define r2 where "r2 = r1\<lparr>ru_cancelled := True\<rparr>"
  have start: "ru_runtime ?s = LoopStarting"
    using assms by (simp add: fresh_agent_def NewRunner_def NewWorkerPool_def run_start_def)
  have "agent_step ?s (APoll zero_gauges) r1" unfolding r1_def by (rule step_runtime) (simp add: start)
  then have "run agent_step ?s [APoll zero_gauges] r1" by (rule run_one)
  moreover have "agent_step r1 ACancel r2" unfolding r2_def by (rule step_cancel)
  ultimately have run: "run agent_step ?s ([APoll zero_gauges] @ [ACancel]) r2" by (rule run_snoc)
  note inv = agent_inv_run [OF run agent_start_fields(1) [OF fresh_agent_start [OF assms]]]
  obtain ms r where ms: "run agent_step r2 ms r" "ru_pc r = RunReturned" "list_all quiet ms"
    using shutdown_run [OF inv] by (auto simp: r2_def)
  from run_append [OF ms(1) run] have "run agent_step ?s (APoll zero_gauges # ACancel # ms) r" by simp
  with ms(2) quiet_run [OF ms(3)] show thesis by (intro that [of "ACancel # ms" r]) simp_all
qed

theorem agent_delivery_witness:
  "\<exists>ls r. run agent_step (fresh_agent 2) (APoll zero_gauges # ls) r \<and> ru_pc r = RunReturned \<and>
     APanic \<notin> set (APoll zero_gauges # ls) \<and>
     mset (concat (map sent_jobs (APoll zero_gauges # ls))) = mset (concat (map submitted (APoll zero_gauges # ls)))"
proof -
  obtain ls r where r: "run agent_step (fresh_agent 2) (APoll zero_gauges # ls) r" "ru_pc r = RunReturned"
    by (rule one_poll_run [of 2]) simp_all
  have "agent_start 1 1 2 (fresh_agent 2)" by (rule fresh_agent_start) simp
  from agent_delivery [OF this r(1)] r show ?thesis by blast
qed

theorem poll_accounting_witness:
  "\<exists>ls r. run agent_step (fresh_agent 2) (APoll zero_gauges # ls) r \<and> ru_pc r = RunReturned \<and>
     go_index (batch_counters (concat (concat (map delivered (APoll zero_gauges # ls)))) Map.empty) ''PollCount''
       = 1 + of_nat (length (filter is_poll ls))"
proof -
  obtain ls r where r: "run agent_step (fresh_agent 2) (APoll zero_gauges # ls) r" "ru_pc r = RunReturned"
      "\<not> list_ex is_refusal (APoll zero_gauges # ls)" "list_all (\<lambda>l. delivered l = sent_jobs l) (APoll zero_gauges # ls)"
    by (rule one_poll_run [of 2]) simp_all
  have "agent_start 1 1 2 (fresh_agent 2)" by (rule fresh_agent_start) simp
  from poll_accounting [OF this r(1), of Map.empty] r(2-4)
  have "go_index (batch_counters (concat (concat (map delivered (APoll zero_gauges # ls)))) Map.empty) ''PollCount''
       = go_index Map.empty ''PollCount'' + of_nat (length (filter is_poll (APoll zero_gauges # ls)))" by blast
  with r(1,2) show ?thesis by (intro exI [of _ ls] exI [of _ r]) simp
qed


section \<open>Polls counted twice\<close>

text \<open>
  Three workers and 14 cores: the report has 45 metrics in three chunks, and the poll count is in the
  second one.
\<close>

definition cores14 :: system_metrics where
  "cores14 = \<lparr>TotalMemory = 0, FreeMemory = 0, CPUUtilization = replicate 14 0\<rparr>"

lemma report_chunks:
  assumes "b = BuildBatch g c @ system_Gauges cores14"
  shows "chunkBatch b 3 = [take 15 b, take 15 (drop 15 b), drop 30 b]"
    and "poll_delta (drop 30 b) = 0" "take 15 b \<noteq> []" "take 15 (drop 15 b) \<noteq> []" "drop 30 b \<noteq> []"
proof -
  have len: "length (BuildBatch g c) = 29" "length b = 45"
    by (simp_all add: assms BuildBatch_def runtime_Gauges_def system_Gauges_def cores14_def)
  have "chunk_loop 15 b 45 = []" using len(2) by (subst chunk_loop.simps) simp
  then have "chunk_loop 15 b 30 = [drop 30 b]" using len(2) by (subst chunk_loop.simps) simp
  then have "chunk_loop 15 b 15 = [take 15 (drop 15 b), drop 30 b]" using len(2) by (subst chunk_loop.simps) simp
  then have "chunk_loop 15 b 0 = [take 15 b, take 15 (drop 15 b), drop 30 b]" using len(2) by (subst chunk_loop.simps) simp
  then show "chunkBatch b 3 = [take 15 b, take 15 (drop 15 b), drop 30 b]"
    using len(2) by (auto simp: chunkBatch_def)
  show "poll_delta (drop 30 b) = 0"
    using len(1) by (intro poll_delta_subset [OF _ gauges_no_polls(2) [of cores14]]) (simp add: assms set_drop_subset)
  show "take 15 b \<noteq> []" "take 15 (drop 15 b) \<noteq> []" "drop 30 b \<noteq> []" using len(2) by auto
qed

text \<open>A report of three parts whose last one is refused, then the cancellation.\<close>

lemma partial_report_run:
  obtains c1 c2 c3 r7 where
    "run agent_step (fresh_agent 3)
       [APoll zero_gauges, ASystem (Inr cores14), AFlush, ASubmit c1, ASubmit c2, ARefuse [c3] 1, ACancel] r7"
    "poll_delta c3 = 0" "ru_cancelled r7" "ru_pc r7 = InLoops"
proof -
  let ?s = "fresh_agent 3"
  define r1 where "r1 = (updateRuntimeMetrics zero_gauges ?s)\<lparr>ru_runtime := Looping\<rparr>"
  define r2 where "r2 = (updateSystemMetrics (Inr cores14) r1)\<lparr>ru_syspoll := Looping\<rparr>"
  define b where "b = BuildBatch (ru_gauges r2) (ru_counters r2) @ system_Gauges cores14"
  have s: "ru_runtime ?s = LoopStarting" "ru_syspoll ?s = LoopStarting" "ru_report ?s = Looping" "ru_chunks ?s = None"
    "PollCount (ru_counters ?s) = 0" "ru_pool ?s = \<lparr>wp_workers = 3, wp_jobs = [], wp_closed = False, wp_work = replicate 3 JobWaiting\<rparr>"
    by (simp_all add: fresh_agent_def NewRunner_def NewWorkerPool_def run_start_def Start_def)
  obtain c1 c2 c3 where ch: "chunkBatch b 3 = [c1, c2, c3]" "poll_delta c3 = 0" "c1 \<noteq> []" "c2 \<noteq> []" "c3 \<noteq> []"
    using report_chunks [OF b_def] by blast
  define r3 where "r3 = submit_start r2"
  define r4 where "r4 = r3\<lparr>ru_pool := (ru_pool r3)\<lparr>wp_jobs := [c1]\<rparr>, ru_chunks := Some ([c2, c3], 1)\<rparr>"
  define r5 where "r5 = r4\<lparr>ru_pool := (ru_pool r3)\<lparr>wp_jobs := [c1, c2]\<rparr>, ru_chunks := Some ([c3], 1)\<rparr>"
  define r6 where "r6 = addPollCount 1 (r5\<lparr>ru_chunks := None\<rparr>)"
  define r7 where "r7 = r6\<lparr>ru_cancelled := True\<rparr>"
  have c3: "ru_chunks r3 = Some ([c1, c2, c3], 1)" and p3: "ru_pool r3 = ru_pool ?s"
    using ch(1) by (simp_all add: r3_def submit_start_simps copyBatch_def b_def chunks_left_def)
      (simp_all add: r2_def r1_def s updateSystemMetrics_def updateRuntimeMetrics_def)
  have "agent_step ?s (APoll zero_gauges) r1" unfolding r1_def by (rule step_runtime) (simp add: s)
  then have "run agent_step ?s [APoll zero_gauges] r1" by (rule run_one)
  moreover have "agent_step r1 (ASystem (Inr cores14)) r2"
    unfolding r2_def by (rule step_system) (simp add: r1_def s updateRuntimeMetrics_def)
  moreover have "agent_step r2 AFlush r3"
    unfolding r3_def by (rule step_report) (simp_all add: r2_def r1_def s updateSystemMetrics_def)
  moreover have "agent_step r3 (ASubmit c1) r4"
    by (rule step_submit [of False]) (simp add: submit_next_def c3 Submit_def p3 s ch chunks_left_def r4_def)
  moreover have "agent_step r4 (ASubmit c2) r5"
    by (rule step_submit [of False]) (simp add: submit_next_def r4_def Submit_def p3 s ch chunks_left_def r5_def)
  moreover have "agent_step r5 (ARefuse [c3] 1) r6"
    by (rule step_submit [of True]) (simp add: submit_next_def r5_def Submit_def ch r6_def)
  moreover have "agent_step r6 ACancel r7" unfolding r7_def by (rule step_cancel)
  ultimately have run: "run agent_step ?s
      ((((((([APoll zero_gauges] @ [ASystem (Inr cores14)]) @ [AFlush]) @ [ASubmit c1]) @
       [ASubmit c2]) @ [ARefuse [c3] 1])) @ [ACancel]) r7"
    by (intro run_snoc)
  have "ru_pc r7 = InLoops" using fresh_agent_pc [of 3] by (simp add: r7_def r6_def r5_def r4_def r3_def submit_start_simps r2_def r1_def)
  with run ch(2) show thesis by (intro that [of c1 c2 c3 r7]) (simp_all add: r7_def)
qed

text \<open>
  A refused submission can make the server count polls twice. There is a run in which a report is cut
  after the chunk with the poll count was queued; its polls are given back, go into the
  next report, and although every request is answered without an error and \<open>Run\<close> returns normally,
  the server's \<open>PollCount\<close> exceeds the number of polls by one.
\<close>

theorem polls_counted_twice:
  "\<exists>ls r. run agent_step (fresh_agent 3) ls r \<and> ru_pc r = RunReturned \<and>
     list_all (\<lambda>l. delivered l = sent_jobs l) ls \<and>
     go_index (batch_counters (concat (concat (map delivered ls))) Map.empty) ''PollCount''
       = of_nat (length (filter is_poll ls)) + 1"
proof -
  let ?s = "fresh_agent 3"
  have s: "ru_chunks ?s = None" "PollCount (ru_counters ?s) = 0"
    by (simp_all add: fresh_agent_def NewRunner_def NewWorkerPool_def run_start_def)
  have start: "agent_start 1 1 3 ?s" by (rule fresh_agent_start) simp
  obtain c1 c2 c3 r7 where r7: "run agent_step ?s
       [APoll zero_gauges, ASystem (Inr cores14), AFlush, ASubmit c1, ASubmit c2, ARefuse [c3] 1, ACancel] r7"
    "poll_delta c3 = 0" "ru_cancelled r7" "ru_pc r7 = InLoops"
    using partial_report_run by blast
  note inv = agent_inv_run [OF r7(1) agent_start_fields(1) [OF start]]
  obtain ms r where ms: "run agent_step r7 ms r" "ru_pc r = RunReturned" "list_all quiet ms"
    using shutdown_run [OF inv r7(3)] by blast
  define ls where "ls = [APoll zero_gauges, ASystem (Inr cores14), AFlush, ASubmit c1, ASubmit c2, ARefuse [c3] 1, ACancel] @ ms"
  have full: "run agent_step ?s ls r" using run_append [OF ms(1) r7(1)] by (simp add: ls_def)
  have sent: "list_all (\<lambda>l. delivered l = sent_jobs l) ls" using quiet_run [OF ms(3)] by (simp add: ls_def)
  have twice: "(\<Sum>l\<leftarrow>ls. counted_twice l) = 1" using quiet_not_twice [OF ms(3)] r7(2) by (simp add: ls_def)
  from final_count [OF ms(1) inv r7(4)] quiet_run [OF ms(3)] ms(2) have "PollCount (ru_counters r) = 0" by auto
  moreover have "from_batch ?s" by (simp add: from_batch_def s)
  note poll_run [OF full agent_start_fields(1) [OF start] this]
  moreover note returned_polls(1) [OF start full ms(2) sent, of Map.empty] returned_polls(2) [OF start full ms(2) sent]
  ultimately have "go_index (batch_counters (concat (concat (map delivered ls))) Map.empty) ''PollCount''
      = of_nat (length (filter is_poll ls)) + 1"
    using s twice by simp
  with full ms(2) sent show ?thesis by blast
qed

end
