(* ===== verification/Agent_Client.thy ===== *)
theory Agent_Client
  imports Collector Retry Grpc_Tls Http Config_Agent
begin

text \<open>
  \<open>internal/agent/client.go\<close> and \<open>cmd/agent/main.go\<close>: the agent's HTTP client and its start. The
  transport is a parameter: it carries a request to a server and returns the status of the answer or an
  error; the gzip format and the cryptographic primitives are parameters as for the server.
\<close>

section \<open>The client\<close>

text \<open>The headers every request carries are those the client was made with.\<close>

record agent_client =
  ac_headers :: "(string \<times> string) list"
  ac_key :: string
  ac_pub :: "key_pair option"

definition NewClient :: "string \<Rightarrow> string \<Rightarrow> agent_client" where
  "NewClient host key = \<lparr>ac_headers = [(realip_Header, host)], ac_key = key, ac_pub = None\<rparr>"

definition WithPublicKey :: "key_pair option \<Rightarrow> agent_client \<Rightarrow> agent_client" where
  "WithPublicKey pub c = c\<lparr>ac_pub := pub\<rparr>"

definition isRetriableNetworkError :: "go_error \<Rightarrow> bool" where
  "isRetriableNetworkError err =
     (if errors_is err ErrCanceled \<or> errors_is err ErrDeadlineExceeded then False
      else errors_as_net err)"

type_synonym 's transport = "request \<Rightarrow> 's \<Rightarrow> nat result \<times> 's"

text \<open>
  One attempt; the state counts the attempts, which draw fresh randomness. The transport asks for
  a compressed answer by itself.
\<close>

definition set_headers :: "(string \<times> string) list \<Rightarrow> (string \<Rightarrow> string) \<Rightarrow> string \<Rightarrow> string" where
  "set_headers kvs h = fold (\<lambda>(k, v) h. h(k := v)) kvs h"

definition agent_request :: "string \<Rightarrow> (string \<Rightarrow> string) \<Rightarrow> bytes \<Rightarrow> request" where
  "agent_request path h wire =
     \<lparr>rq_method = ''POST'', rq_path = path, rq_header = h, rq_body = (wire, None), rq_params = (\<lambda>_. []),
      rq_remote = ''127.0.0.1:5000'', rq_now = 0\<rparr>"

definition post_attempt ::
  "mac \<Rightarrow> agent_client \<Rightarrow> (nat \<Rightarrow> randomness) \<Rightarrow> 's transport \<Rightarrow> string \<Rightarrow> (string \<times> string) list \<Rightarrow>
   bytes \<Rightarrow> bytes \<Rightarrow> nat \<times> 's \<Rightarrow> unit result \<times> nat \<times> 's" where
  "post_attempt mac c rnd tr path headers body signPayload st =
     (case st of (k, s) \<Rightarrow>
        let h = set_headers headers (set_headers (ac_headers c) ((\<lambda>_. [])(''Accept-Encoding'' := ''gzip'')));
            h = (if ac_key c \<noteq> [] then h(hash_Header := Sign mac signPayload (ac_key c)) else h);
            wire = (case ac_pub c of None \<Rightarrow> Inr (body, h)
                    | Some kp \<Rightarrow> rbind (Encrypt (Some kp) (rnd k) body) (\<lambda>enc. Inr (enc, h(rsa_Header := rsa_HeaderValue))))
        in case wire of
             Inl e \<Rightarrow> (Inl e, Suc k, s)
           | Inr (wire, h) \<Rightarrow>
               (case tr (agent_request path h wire) s of
                  (Inl e, s') \<Rightarrow> (Inl e, Suc k, s')
                | (Inr status, s') \<Rightarrow>
                    (if \<not> (199 < status \<and> status < 300) then Inl (ErrText ''unexpected status code'') else Inr (),
                     Suc k, s')))"

definition client_post ::
  "mac \<Rightarrow> agent_client \<Rightarrow> (nat \<Rightarrow> randomness) \<Rightarrow> 's transport \<Rightarrow> ctx \<Rightarrow> string \<Rightarrow> (string \<times> string) list \<Rightarrow>
   bytes \<Rightarrow> bytes \<Rightarrow> nat \<times> 's \<Rightarrow> unit result \<times> nat \<times> 's" where
  "client_post mac c rnd tr cx path headers body signPayload st =
     retry_Do cx isRetriableNetworkError (post_attempt mac c rnd tr path headers body signPayload) st"

definition json_headers :: "(string \<times> string) list" where
  "json_headers = [(''Content-Type'', ''application/json'')]"

definition SendGauge ::
  "float_codec \<Rightarrow> mac \<Rightarrow> agent_client \<Rightarrow> (nat \<Rightarrow> randomness) \<Rightarrow> 's transport \<Rightarrow> ctx \<Rightarrow> string \<Rightarrow> float64 \<Rightarrow>
   nat \<times> 's \<Rightarrow> unit result \<times> nat \<times> 's" where
  "SendGauge fc mac c rnd tr cx name value st =
     (case marshal_metrics fc (NewGauge name value) of
        Inl e \<Rightarrow> (Inl (ErrWrap ''failed to marshal gauge'' e), st)
      | Inr body \<Rightarrow>
          (case client_post mac c rnd tr cx ''/update'' json_headers body body st of
             (Inl e, st') \<Rightarrow> (Inl (ErrWrap ''failed to send gauge'' e), st')
           | (Inr _, st') \<Rightarrow> (Inr (), st')))"

definition SendCounter ::
  "float_codec \<Rightarrow> mac \<Rightarrow> agent_client \<Rightarrow> (nat \<Rightarrow> randomness) \<Rightarrow> 's transport \<Rightarrow> ctx \<Rightarrow> string \<Rightarrow> int64 \<Rightarrow>
   nat \<times> 's \<Rightarrow> unit result \<times> nat \<times> 's" where
  "SendCounter fc mac c rnd tr cx name value st =
     (case marshal_metrics fc (NewCounter name value) of
        Inl e \<Rightarrow> (Inl (ErrWrap ''failed to marshal counter'' e), st)
      | Inr body \<Rightarrow>
          (case client_post mac c rnd tr cx ''/update'' json_headers body body st of
             (Inl e, st') \<Rightarrow> (Inl (ErrWrap ''failed to send counter'' e), st')
           | (Inr _, st') \<Rightarrow> (Inr (), st')))"

text \<open>The batch is compressed, and the signature is over the JSON text before compression.\<close>

definition SendBatch ::
  "float_codec \<Rightarrow> mac \<Rightarrow> (bytes \<Rightarrow> bytes) \<Rightarrow> agent_client \<Rightarrow> (nat \<Rightarrow> randomness) \<Rightarrow> 's transport \<Rightarrow> ctx \<Rightarrow>
   metrics list \<Rightarrow> nat \<times> 's \<Rightarrow> unit result \<times> nat \<times> 's" where
  "SendBatch fc mac gzip c rnd tr cx metrics st =
     (if metrics = [] then (Inr (), st)
      else case marshal_list fc metrics of
        Inl e \<Rightarrow> (Inl (ErrWrap ''failed to marshal metrics batch'' e), st)
      | Inr data \<Rightarrow>
          (case client_post mac c rnd tr cx ''/updates/'' (json_headers @ [(''Content-Encoding'', ''gzip'')])
                  (gzip data) data st of
             (Inl e, st') \<Rightarrow> (Inl (ErrWrap ''failed to send metrics batch'' e), st')
           | (Inr _, st') \<Rightarrow> (Inr (), st')))"

text \<open>One request per gauge; the context is looked at before each, and a failed gauge is only logged.\<close>

fun send_gauges ::
  "float_codec \<Rightarrow> mac \<Rightarrow> agent_client \<Rightarrow> (nat \<Rightarrow> randomness) \<Rightarrow> 's transport \<Rightarrow> (nat \<Rightarrow> ctx) \<Rightarrow> nat \<Rightarrow>
   metrics list \<Rightarrow> nat \<times> 's \<Rightarrow> unit result \<times> nat \<times> 's" where
  "send_gauges fc mac c rnd tr cxs i [] st = (Inr (), st)"
| "send_gauges fc mac c rnd tr cxs i (m # ms) st =
     (case ctx_err (cxs i) of
        Some err \<Rightarrow> (Inl err, st)
      | None \<Rightarrow>
          (case SendGauge fc mac c rnd tr (cxs i) (ID m) (the (Value m)) st of
             (_, st') \<Rightarrow> send_gauges fc mac c rnd tr cxs (Suc i) ms st'))"

definition SendGaugeMetrics ::
  "float_codec \<Rightarrow> mac \<Rightarrow> agent_client \<Rightarrow> (nat \<Rightarrow> randomness) \<Rightarrow> 's transport \<Rightarrow> (nat \<Rightarrow> ctx) \<Rightarrow> gauge_metrics \<Rightarrow>
   nat \<times> 's \<Rightarrow> unit result \<times> nat \<times> 's" where
  "SendGaugeMetrics fc mac c rnd tr cxs g st = send_gauges fc mac c rnd tr cxs 0 (runtime_Gauges g) st"

definition SendCounterMetrics ::
  "float_codec \<Rightarrow> mac \<Rightarrow> agent_client \<Rightarrow> (nat \<Rightarrow> randomness) \<Rightarrow> 's transport \<Rightarrow> ctx \<Rightarrow> count_metrics \<Rightarrow>
   nat \<times> 's \<Rightarrow> unit result \<times> nat \<times> 's" where
  "SendCounterMetrics fc mac c rnd tr cx m st =
     (Inr (), snd (SendCounter fc mac c rnd tr cx ''PollCount'' (PollCount m) st))"

section \<open>Starting the agent\<close>

text \<open>\<open>NewGRPCClient\<close>: the credentials, then the connection, whose outcome is an input.\<close>

definition NewGRPCClient :: "tls_env \<Rightarrow> string \<Rightarrow> string \<Rightarrow> go_error option \<Rightarrow> client_creds result" where
  "NewGRPCClient env addr caFile dial =
     (case ClientCredentials env caFile of
        Inl e \<Rightarrow> Inl (ErrWrap ''grpc tls'' e)
      | Inr creds \<Rightarrow>
          (case dial of
             Some e \<Rightarrow> Inl (ErrWrap (''dial grpc '' @ addr) e)
           | None \<Rightarrow> Inr creds))"

text \<open>The transport chosen by the configuration; loading the key is an input.\<close>

datatype agent_sender = GrpcSender client_creds | HttpSender agent_client

definition newSender ::
  "tls_env \<Rightarrow> agent_config \<Rightarrow> string \<Rightarrow> go_error option \<Rightarrow> (string \<Rightarrow> key_pair result) \<Rightarrow> agent_sender result" where
  "newSender env cfg host dial load =
     (if ag_GRPCAddress cfg \<noteq> [] then
        (case NewGRPCClient env (ag_GRPCAddress cfg) (ag_GRPCCert cfg) dial of
           Inl e \<Rightarrow> Inl e
         | Inr creds \<Rightarrow> Inr (GrpcSender creds))
      else
        (let client = NewClient host (ag_Key cfg) in
         if ag_CryptoKey cfg \<noteq> [] then
           (case load (ag_CryptoKey cfg) of
              Inl e \<Rightarrow> Inl e
            | Inr pub \<Rightarrow> Inr (HttpSender (WithPublicKey (Some pub) client)))
         else Inr (HttpSender client)))"

text \<open>Seconds as a \<open>time.Duration\<close>: the product wraps.\<close>

definition duration_of_seconds :: "int \<Rightarrow> int" where
  "duration_of_seconds n = sint (word_of_int n * 1000000000 :: int64)"

section \<open>Requests\<close>

lemma agent_request_simps [simp]:
  "rq_method (agent_request path h w) = ''POST''" "rq_path (agent_request path h w) = path"
  "rq_header (agent_request path h w) = h" "rq_body (agent_request path h w) = (w, None)"
  "(agent_request path h w)\<lparr>rq_body := (w', None)\<rparr> = agent_request path h w'"
  "(agent_request path h w)\<lparr>rq_header := h'\<rparr> = agent_request path h' w"
  by (simp_all add: agent_request_def)

lemma set_headers_simps [simp]:
  "set_headers [] h = h" "set_headers ((k, v) # kvs) h = set_headers kvs (h(k := v))"
  by (simp_all add: set_headers_def)

end
