(* ===== verification/Agent_Main.thy ===== *)
theory Agent_Main
  imports Agent_Shutdown Agent_Client
begin

text \<open>
  \<open>cmd/agent/main.go\<close>: from the configuration to the running agent.
\<close>

definition agent_run ::
  "tls_env \<Rightarrow> agent_config result \<Rightarrow> string \<Rightarrow> go_error option \<Rightarrow> (string \<Rightarrow> key_pair result) \<Rightarrow> (agent_sender \<times> runner) result" where
  "agent_run env loaded host dial load =
     rbind loaded (\<lambda>cfg.
     rbind (newSender env cfg host dial load) (\<lambda>sender.
     rbind (NewRunner (duration_of_seconds (ag_PollInterval cfg)) (duration_of_seconds (ag_ReportInterval cfg))
              (ag_RateLimit cfg)) (\<lambda>runner.
       Inr (sender, run_start runner))))"

lemma duration_exact:
  assumes "\<bar>n\<bar> \<le> 9223372036"
  shows "duration_of_seconds n = n * 1000000000"
proof -
  have "duration_of_seconds n = sint (word_of_int (n * 1000000000) :: int64)"
    by (simp add: duration_of_seconds_def)
  also have "\<dots> = signed_take_bit 63 (n * 1000000000)" by (simp only: signed_of_int) simp
  also have "\<dots> = n * 1000000000" using assms by (intro signed_take_bit_int_eq_self) auto
  finally show ?thesis .
qed

text \<open>
  The agent starts exactly with positive intervals and a positive rate limit, up to the largest
  number of seconds a \<open>time.Duration\<close> holds: then it runs with these intervals in nanoseconds and
  with one worker per allowed request, none of them started before the configuration and
  the sender are good; a larger number of seconds wraps, and 18446744074 seconds become 0.29 seconds.
\<close>

theorem agent_start_spec:
  assumes "\<bar>ag_PollInterval cfg\<bar> \<le> 9223372036" "\<bar>ag_ReportInterval cfg\<bar> \<le> 9223372036"
  shows "(case agent_run env (Inr cfg) host dial load of
      Inr (sender, r) \<Rightarrow>
        newSender env cfg host dial load = Inr sender \<and>
        0 < ag_PollInterval cfg \<and> 0 < ag_ReportInterval cfg \<and> 1 \<le> ag_RateLimit cfg \<and>
        agent_start (ag_PollInterval cfg * 1000000000) (ag_ReportInterval cfg * 1000000000) (ag_RateLimit cfg) r \<and>
        length (wp_work (ru_pool r)) = nat (ag_RateLimit cfg)
    | Inl e \<Rightarrow>
        newSender env cfg host dial load = Inl e \<or>
        ag_PollInterval cfg \<le> 0 \<or> ag_ReportInterval cfg \<le> 0 \<or> ag_RateLimit cfg < 1) \<and>
    duration_of_seconds 18446744074 = 290448384"
proof -
  note dur = duration_exact [OF assms(1)] duration_exact [OF assms(2)]
  have "duration_of_seconds 18446744074 = 290448384" by (simp add: duration_of_seconds_def)
  moreover have "case agent_run env (Inr cfg) host dial load of
      Inr (sender, r) \<Rightarrow>
        newSender env cfg host dial load = Inr sender \<and>
        0 < ag_PollInterval cfg \<and> 0 < ag_ReportInterval cfg \<and> 1 \<le> ag_RateLimit cfg \<and>
        agent_start (ag_PollInterval cfg * 1000000000) (ag_ReportInterval cfg * 1000000000) (ag_RateLimit cfg) r \<and>
        length (wp_work (ru_pool r)) = nat (ag_RateLimit cfg)
    | Inl e \<Rightarrow>
        newSender env cfg host dial load = Inl e \<or>
        ag_PollInterval cfg \<le> 0 \<or> ag_ReportInterval cfg \<le> 0 \<or> ag_RateLimit cfg < 1"
    by (cases "newSender env cfg host dial load")
      (auto simp: agent_run_def dur agent_start_def NewRunner_def NewWorkerPool_def run_start_def Start_def)
  ultimately show ?thesis by blast
qed

theorem agent_start_spec_witness:
  "case agent_run plain_tls (Inr agent_defaults) ''10.0.0.1'' None (\<lambda>_. Inl ErrNoRows) of
     Inr (sender, r) \<Rightarrow> agent_start 2000000000 10000000000 1 r
   | Inl e \<Rightarrow> False"
proof -
  have a: "\<bar>ag_PollInterval agent_defaults\<bar> \<le> 9223372036" "\<bar>ag_ReportInterval agent_defaults\<bar> \<le> 9223372036"
    by (simp_all add: agent_defaults_def)
  have "newSender plain_tls agent_defaults ''10.0.0.1'' None (\<lambda>_. Inl ErrNoRows) = Inr (HttpSender (NewClient ''10.0.0.1'' []))"
    by (simp add: newSender_def agent_defaults_def)
  with agent_start_spec [OF a, of plain_tls "''10.0.0.1''" None "\<lambda>_. Inl ErrNoRows"] show ?thesis
    by (auto simp: agent_defaults_def split: sum.splits)
qed

end
