(* ===== verification/Runner_Locks.thy ===== *)
theory Runner_Locks
  imports Agent_Pool Locked_Object
begin

text \<open>
  What \<open>Runner.mu\<close> of \<open>internal/agent/runner.go\<close> protects, statement by statement: the two poll loops write, a report reads
  and resets, a refused submission gives back. It is an interpretation of \<open>live_object\<close>, so that the
  critical sections of \<open>Agent_Pool\<close> may be taken as single steps.
\<close>

record runner_data =
  rd_gauges :: gauge_metrics
  rd_system :: system_metrics
  rd_counters :: count_metrics

definition runner_data_of :: "runner \<Rightarrow> runner_data" where
  "runner_data_of r = \<lparr>rd_gauges = ru_gauges r, rd_system = ru_system r, rd_counters = ru_counters r\<rparr>"

text \<open>The critical sections; \<open>addPollCount\<close> enters its own only for a number that is not zero.\<close>

datatype runner_op =
    OpRuntime gauge_metrics
  | OpSystem system_metrics
  | OpTakeBatch
  | OpCopyBatch
  | OpAddPolls int64

datatype runner_instr =
    PutGauges gauge_metrics
  | PutSystem system_metrics
  | ReadGauges
  | BuildFirst
  | AppendSystem
  | LoadPolls
  | StorePolls int64
  | ClearPolls

record runner_local =
  rl_gauges :: gauge_metrics
  rl_batch :: "metrics list"
  rl_polls :: int64

text \<open>A report reads the gauges, then the counters to build its first part, then the system's gauges.\<close>

fun runner_exec :: "runner_instr \<Rightarrow> runner_local \<times> runner_data \<Rightarrow> runner_local \<times> runner_data" where
  "runner_exec (PutGauges g) (l, d) = (l, d\<lparr>rd_gauges := g\<rparr>)"
| "runner_exec (PutSystem s) (l, d) = (l, d\<lparr>rd_system := s\<rparr>)"
| "runner_exec ReadGauges (l, d) = (l\<lparr>rl_gauges := rd_gauges d\<rparr>, d)"
| "runner_exec BuildFirst (l, d) = (l\<lparr>rl_batch := BuildBatch (rl_gauges l) (rd_counters d)\<rparr>, d)"
| "runner_exec AppendSystem (l, d) = (l\<lparr>rl_batch := rl_batch l @ system_Gauges (rd_system d)\<rparr>, d)"
| "runner_exec LoadPolls (l, d) = (l\<lparr>rl_polls := PollCount (rd_counters d)\<rparr>, d)"
| "runner_exec (StorePolls n) (l, d) = (l, d\<lparr>rd_counters := \<lparr>PollCount = rl_polls l + n\<rparr>\<rparr>)"
| "runner_exec ClearPolls (l, d) = (l, d\<lparr>rd_counters := \<lparr>PollCount = 0\<rparr>\<rparr>)"

fun runner_body :: "runner_op \<Rightarrow> runner_instr list" where
  "runner_body (OpRuntime g) = [PutGauges g, LoadPolls, StorePolls 1]"
| "runner_body (OpSystem s) = [PutSystem s]"
| "runner_body OpTakeBatch = [ReadGauges, BuildFirst, AppendSystem, LoadPolls, ClearPolls]"
| "runner_body OpCopyBatch = [ReadGauges, BuildFirst, AppendSystem, LoadPolls]"
| "runner_body (OpAddPolls n) = [LoadPolls, StorePolls n]"

fun runner_answer :: "runner_op \<Rightarrow> runner_local \<Rightarrow> (metrics list \<times> int64) option" where
  "runner_answer OpTakeBatch l = Some (rl_batch l, rl_polls l)"
| "runner_answer OpCopyBatch l = Some (rl_batch l, rl_polls l)"
| "runner_answer _ l = None"

text \<open>A \<open>sync.Mutex\<close>: every critical section excludes every other.\<close>

definition runner_impl ::
  "(runner_op, unit, runner_instr, runner_local, (metrics list \<times> int64) option, runner_data) locked_impl" where
  "runner_impl =
     \<lparr>li_writes = (\<lambda>op. True), li_order = (\<lambda>op ord d. True), li_body = (\<lambda>op ord. runner_body op),
      li_init = \<lparr>rl_gauges = zero_gauges, rl_batch = [], rl_polls = 0\<rparr>,
      li_exec = runner_exec, li_reply = runner_answer\<rparr>"

text \<open>The whole sections, and that they are those of \<open>Agent_Pool\<close>.\<close>

fun runner_apply :: "runner_op \<Rightarrow> runner_data \<Rightarrow> (metrics list \<times> int64) option \<times> runner_data" where
  "runner_apply (OpRuntime g) d =
     (None, d\<lparr>rd_gauges := g, rd_counters := \<lparr>PollCount = PollCount (rd_counters d) + 1\<rparr>\<rparr>)"
| "runner_apply (OpSystem s) d = (None, d\<lparr>rd_system := s\<rparr>)"
| "runner_apply OpTakeBatch d =
     (Some (BuildBatch (rd_gauges d) (rd_counters d) @ system_Gauges (rd_system d), PollCount (rd_counters d)),
      d\<lparr>rd_counters := \<lparr>PollCount = 0\<rparr>\<rparr>)"
| "runner_apply OpCopyBatch d =
     (Some (BuildBatch (rd_gauges d) (rd_counters d) @ system_Gauges (rd_system d), PollCount (rd_counters d)), d)"
| "runner_apply (OpAddPolls n) d = (None, d\<lparr>rd_counters := \<lparr>PollCount = PollCount (rd_counters d) + n\<rparr>\<rparr>)"

lemma runner_sections:
  "runner_data_of (updateRuntimeMetrics g r) = snd (runner_apply (OpRuntime g) (runner_data_of r))"
  "runner_data_of (updateSystemMetrics (Inr s) r) = snd (runner_apply (OpSystem s) (runner_data_of r))"
  "takeBatch r = (case runner_apply OpTakeBatch (runner_data_of r) of
     (ans, d) \<Rightarrow> (fst (the ans), snd (the ans), r\<lparr>ru_counters := rd_counters d\<rparr>))"
  "Some (copyBatch r) = fst (runner_apply OpCopyBatch (runner_data_of r))"
  "n \<noteq> 0 \<Longrightarrow> runner_data_of (addPollCount n r) = snd (runner_apply (OpAddPolls n) (runner_data_of r))"
  by (simp_all add: runner_data_of_def updateRuntimeMetrics_def updateSystemMetrics_def takeBatch_def copyBatch_def
      addPollCount_def)

interpretation runner_locks: live_object runner_impl runner_apply "\<lambda>_. True" "\<lambda>_. True"
proof (unfold_locales, goal_cases)
  case (1 op ord d l t)
  then show ?case by (cases op) (auto simp: runner_impl_def)
qed (simp_all add: runner_impl_def)

text \<open>
  C18: The critical sections of the runner are linearizable. Let the poll loops, the report and the submission run
  statement by statement in any interleaving. The sections that have ended, in the order in which they gave the lock back,
  had the effects and results of whole sections executed one after the other; in particular no
  poll is counted in two reports or lost between the reading and the reset of the counter. And from
  every state all those begun can end.
\<close>

theorem runner_linearizable:
  assumes "run (lock_moves runner_impl) (lock_start d0) ls t"
  shows "let order = concat (map released ls); calls = concat (map invoked ls) in
    map task_op (lo_tasks t) = calls \<and> distinct order \<and>
    set order = {i. i < length (lo_tasks t) \<and> task_reply (lo_tasks t ! i) \<noteq> None} \<and>
    (\<exists>a. atomic_run runner_apply (map ((!) calls) order) d0 = (map (\<lambda>i. the (task_reply (lo_tasks t ! i))) order, a) \<and>
         (\<not> lo_writer t \<longrightarrow> lo_shared t = a)) \<and>
    (\<exists>ms u. run (lock_moves runner_impl) t ms u \<and> list_all old_call ms \<and> all_returned u)"
  using runner_locks.linear_run [OF assms] runner_locks.reachable_calls_return [OF assms]
  by (auto simp: linearized_def history_def Let_def list_all_iff)

text \<open>A poll that comes while a report is being built waits for it.\<close>

theorem runner_linearizable_witness:
  "\<exists>t. run (lock_moves runner_impl)
      (lock_start \<lparr>rd_gauges = zero_gauges, rd_system = zero_system, rd_counters = \<lparr>PollCount = 3\<rparr>\<rparr>)
      [LInvoke OpTakeBatch, LInvoke (OpRuntime zero_gauges), LAcquire 0 (), LExec 0, LExec 0, LExec 0, LExec 0] t \<and>
    lock_step runner_impl t (LAcquire 1 ()) = None \<and>
    (\<exists>ms u. run (lock_moves runner_impl) t ms u \<and> list_all old_call ms \<and> all_returned u)"
proof -
  let ?d = "\<lparr>rd_gauges = zero_gauges, rd_system = zero_system, rd_counters = \<lparr>PollCount = 3\<rparr>\<rparr>"
  let ?ls = "[LInvoke OpTakeBatch, LInvoke (OpRuntime zero_gauges), LAcquire 0 (), LExec 0, LExec 0, LExec 0, LExec 0]"
  obtain t where t: "exec_steps (lock_step runner_impl) ?ls (lock_start ?d) = Some t"
    "lock_step runner_impl t (LAcquire 1 ()) = None"
    by (simp add: lock_start_def runner_impl_def)
  note run = lock_exec [OF t(1)]
  from runner_linearizable [OF run, unfolded Let_def] obtain ms u where
    "run (lock_moves runner_impl) t ms u" "list_all old_call ms" "all_returned u" by blast
  with run t(2) show ?thesis by blast
qed

end
