(* ===== verification/End_To_End.thy ===== *)
theory End_To_End
  imports Router Agent_Client
begin

text \<open>
  A batch on its way from the agent to the store: JSON, signature, gzip and encryption on one side,
  logging, decryption, decompression, signature check, subnet check, routing and the handler on
  the other.
\<close>

text \<open>A connection to a server that loses nothing: the client sees the status of the answer.\<close>

definition http_link ::
  "router_env \<Rightarrow> 's repository \<Rightarrow> go_error option option \<Rightarrow> bytes \<Rightarrow> key_pair option \<Rightarrow> bool \<Rightarrow> ip_net option \<Rightarrow>
   's transport" where
  "http_link env repo pinger key priv auditor trusted req s =
     (case createRouter env repo pinger key priv auditor trusted req s of
        ((as, s', ev), log) \<Rightarrow> (Inr (status_of as), s'))"

definition link_events ::
  "router_env \<Rightarrow> 's repository \<Rightarrow> go_error option option \<Rightarrow> bytes \<Rightarrow> key_pair option \<Rightarrow> bool \<Rightarrow> ip_net option \<Rightarrow>
   request \<Rightarrow> 's \<Rightarrow> event list" where
  "link_events env repo pinger key priv auditor trusted req s =
     (case createRouter env repo pinger key priv auditor trusted req s of ((as, s', ev), log) \<Rightarrow> ev)"

text \<open>The request of the first attempt at a batch.\<close>

definition batch_header :: "mac \<Rightarrow> string \<Rightarrow> bytes \<Rightarrow> key_pair option \<Rightarrow> bytes \<Rightarrow> string \<Rightarrow> string" where
  "batch_header mac host key pub data =
     (let h = (\<lambda>_. [])(''Accept-Encoding'' := ''gzip'', realip_Header := host,
                       ''Content-Type'' := ''application/json'', ''Content-Encoding'' := ''gzip'');
          h = (if key \<noteq> [] then h(hash_Header := Sign mac data key) else h)
      in (case pub of None \<Rightarrow> h | Some kp \<Rightarrow> h(rsa_Header := rsa_HeaderValue)))"

lemmas header_names = realip_Header_def hash_Header_def rsa_Header_def rsa_HeaderValue_def

lemma batch_header_simps:
  "batch_header mac host key pub data ''Content-Type'' = ''application/json''"
  "batch_header mac host key pub data ''Content-Encoding'' = ''gzip''"
  "batch_header mac host key pub data ''Accept-Encoding'' = ''gzip''"
  "batch_header mac host key pub data realip_Header = host"
  "batch_header mac host key pub data hash_Header = (if key \<noteq> [] then Sign mac data key else [])"
  "batch_header mac host key pub data rsa_Header = (if pub = None then [] else ''1'')"
  by (auto simp: batch_header_def Let_def header_names split: option.split)

text \<open>What the client sends: in the clear, or what the server decrypts.\<close>

lemma first_attempt:
  assumes "wire = (case pub of None \<Rightarrow> Inr (gzip data) | Some kp \<Rightarrow> Encrypt (Some kp) (rnd k) (gzip data))"
  shows "post_attempt mac (WithPublicKey pub (NewClient host key)) rnd tr ''/updates/''
      (json_headers @ [(''Content-Encoding'', ''gzip'')]) (gzip data) data (k, s) =
    (case wire of
       Inl e \<Rightarrow> (Inl e, Suc k, s)
     | Inr w \<Rightarrow>
         (case tr (agent_request ''/updates/'' (batch_header mac host key pub data) w) s of
            (Inl e, s') \<Rightarrow> (Inl e, Suc k, s')
          | (Inr status, s') \<Rightarrow>
              (if \<not> (199 < status \<and> status < 300) then Inl (ErrText ''unexpected status code'') else Inr (), Suc k, s')))"
proof (cases pub)
  case None
  then show ?thesis
    by (simp add: assms post_attempt_def WithPublicKey_def NewClient_def json_headers_def batch_header_def Let_def fun_upd_twist
        cong: option.case_cong)
next
  case (Some kp)
  then show ?thesis
    by (cases "Encrypt (Some kp) (rnd k) (gzip data)")
      (simp_all add: assms post_attempt_def WithPublicKey_def NewClient_def json_headers_def batch_header_def Let_def)
qed

section \<open>The way through the server\<close>

text \<open>The answer of a stored batch after signing and compressing.\<close>

definition batch_answer :: "waction list" where
  "batch_answer = [WSet ''Content-Type'' ''application/json; charset=utf-8'', WHeader 200]"

lemma batch_answer_status:
  "status_of batch_answer = 200"
  "status_of (compress_actions gz batch_answer) = 200"
  "status_of (compress_actions gz (sign_actions mac key batch_answer)) = 200"
  by (simp_all add: batch_answer_def sign_actions_def sw_flush_def sw_WriteHeader_def compress_actions_def gz_init_def
      gz_Close_def shouldCompress_def compressibleType_def trim_space_def is_space_def response_defs hash_Header_def)

text \<open>Refusals, signed and compressed, keep their status.\<close>

lemma error_status:
  "status_of (compress_actions gz (http_Error msg code)) = code"
  "status_of (compress_actions gz (sign_actions mac key (http_Error msg code))) = code"
  by (simp_all add: http_Error_def sign_actions_def sw_flush_def sw_WriteHeader_def compress_actions_def gz_init_def
      gz_Close_def shouldCompress_def compressibleType_def trim_space_def is_space_def response_defs hash_Header_def Let_def)

lemma accepts_gzip: "acceptsGzip ''gzip''"
  by (simp add: acceptsGzip_def trim_space_def is_space_def has_prefix_def)

lemma updates_path: "\<not> has_prefix ''/updates/'' ''/debug/pprof''"
  by (simp add: has_prefix_def)

text \<open>Through decryption and decompression the inner handler sees the JSON text.\<close>

lemma wire_decoded:
  assumes "gzip_ok env"
    and wire: "case pub of None \<Rightarrow> w = rt_gzip env data
               | Some kp \<Rightarrow> crypto_ok kp \<and> rand_ok kp rn \<and> Encrypt (Some kp) rn (rt_gzip env data) = Inr w"
  shows "\<exists>h. h = (case pub of None \<Rightarrow> batch_header mac host key pub data
                  | Some _ \<Rightarrow> (batch_header mac host key pub data)(''Content-Length'' := [])) \<and>
    (case pub of None \<Rightarrow> compress_mw (rt_gzip env) (rt_gunzip env) inner
     | Some p \<Rightarrow> decrypt_mw p (compress_mw (rt_gzip env) (rt_gunzip env) inner))
      (agent_request ''/updates/'' (batch_header mac host key pub data) w) s =
    (case inner ((agent_request ''/updates/'' h data)) s of
       (as, s', ev) \<Rightarrow> (compress_actions (rt_gzip env) as, s', ev))"
proof -
  have comp: "compress_mw (rt_gzip env) (rt_gunzip env) inner (agent_request ''/updates/'' h (rt_gzip env data)) s =
      (case inner (agent_request ''/updates/'' h data) s of (as, s', ev) \<Rightarrow> (compress_actions (rt_gzip env) as, s', ev))"
    if "h ''Content-Encoding'' = ''gzip''" "h ''Accept-Encoding'' = ''gzip''" for h
    using that assms(1)
    by (simp add: compress_mw_def agent_request_def updates_path accepts_gzip gzip_ok_def str_contains_self Let_def)
  show ?thesis
  proof (cases pub)
    case None
    with wire comp show ?thesis by (simp add: batch_header_simps)
  next
    case (Some kp)
    with wire have "Decrypt (Some kp) w = Inr (rt_gzip env data)" using decrypt_encrypt_key by auto
    then have "decrypt_mw kp (compress_mw (rt_gzip env) (rt_gunzip env) inner)
          (agent_request ''/updates/'' (batch_header mac host key (Some kp) data) w) s =
        compress_mw (rt_gzip env) (rt_gunzip env) inner
          (agent_request ''/updates/'' ((batch_header mac host key (Some kp) data)(''Content-Length'' := [])) (rt_gzip env data)) s"
      by (simp add: decrypt_mw_def agent_request_def batch_header_simps read_all_def)
    with comp [of "(batch_header mac host key (Some kp) data)(''Content-Length'' := [])"] Some show ?thesis
      by (simp add: batch_header_simps)
  qed
qed


lemma valid_signed: "Valid mac data key (Sign mac data key)"
  by (simp add: Valid_def Sign_def hex_decode_encode)

context metrics_repository
begin

text \<open>The batch handler on a request with the JSON text of an accepted batch.\<close>

lemma updates_stored:
  assumes "ok s" "json_content_type r" "rq_body r = (data, None)"
    and "rbind (json_decode_first data) (decode_slice (decode_metrics fc)) = Inr ms"
    and "list_all complete_metric ms" "ms \<noteq> []" "batch_accepts acc (ctr s) ms"
  obtains s' where "updates_handler fc repo auditor r s = (batch_answer, s', NotifyRequest auditor r (map ID ms))" "ok s'"
    "ctr s' = batch_counters ms (ctr s)" "gau s' = batch_gauges ms (gau s)"
proof -
  from save_batch [OF assms(1,7)] obtain s' where s': "SaveBatch repo ms s = (Inr (), s')" "ok s'"
    "ctr s' = batch_counters ms (ctr s)" "gau s' = batch_gauges ms (gau s)" by blast
  have "rbind (decoder_Decode (rq_body r)) (decode_slice (decode_metrics fc)) = Inr ms"
    using assms(3,4) by (auto simp: rbind_Inr_iff dest!: decoder_Decode_clean)
  moreover have "validate_batch ms = None" using assms(5) by (simp add: validate_batch_None)
  ultimately have "updates_handler fc repo auditor r s = (batch_answer, s', NotifyRequest auditor r (map ID ms))"
    using assms(2,6) s' by (simp add: updates_handler_def service_defs batch_answer_def)
  with s' that show thesis by blast
qed

text \<open>The same through the routes, the subnet and the signatures; \<open>h\<close> are the headers of the agent.\<close>

lemma inner_stored:
  assumes ok: "ok s" and chi: "chi_ok env"
    and dec: "rbind (json_decode_first data) (decode_slice (decode_metrics (rt_codec env))) = Inr ms"
    and ms: "list_all complete_metric ms" "ms \<noteq> []" "batch_accepts acc (ctr s) ms"
    and keys: "skey = [] \<or> ckey = [] \<or> skey = ckey" and subnet: "Allowed (rt_parse6 env) trusted host"
    and h: "h ''Content-Type'' = ''application/json''" "h realip_Header = host"
      "h hash_Header = (if ckey \<noteq> [] then Sign (rt_mac env) data ckey else [])"
    and routed: "routed = route_handler env (routes env repo pinger auditor trusted)"
  obtains as s' ev where
    "(if skey \<noteq> [] then sign_mw (rt_mac env) skey routed else routed) (agent_request ''/updates/'' h data) s = (as, s', ev)"
    "status_of (compress_actions (rt_gzip env) as) = 200"
    "ok s'" "ctr s' = batch_counters ms (ctr s)" "gau s' = batch_gauges ms (gau s)"
    "map Metrics ev = (if auditor then [map ID ms] else [])"
proof -
  obtain params where rt: "routed (agent_request ''/updates/'' h data) s =
      (case trusted of None \<Rightarrow> updates_handler (rt_codec env) repo auditor
        | Some n \<Rightarrow> subnet_mw (rt_parse6 env) n (updates_handler (rt_codec env) repo auditor))
      ((agent_request ''/updates/'' h data)\<lparr>rq_params := params\<rparr>) s"
    unfolding routed by (rule route_updates [OF chi, where r = "agent_request ''/updates/'' h data" and s = s])
      (simp_all add: agent_request_def)
  let ?r = "(agent_request ''/updates/'' h data)\<lparr>rq_params := params\<rparr>"
  have "json_content_type ?r" "rq_body ?r = (data, None)"
    by (simp_all add: json_content_type_def agent_request_def h str_contains_self)
  then obtain s' where up: "updates_handler (rt_codec env) repo auditor ?r s = (batch_answer, s', NotifyRequest auditor ?r (map ID ms))"
    and s': "ok s'" "ctr s' = batch_counters ms (ctr s)" "gau s' = batch_gauges ms (gau s)"
    by (rule updates_stored [OF ok _ _ dec ms])
  let ?ev = "NotifyRequest auditor ?r (map ID ms)"
  have out: "routed (agent_request ''/updates/'' h data) s = (batch_answer, s', ?ev)"
    using subnet up by (cases trusted) (simp_all add: rt subnet_mw_def h)
  define as where "as = (if skey \<noteq> [] then sign_actions (rt_mac env) skey batch_answer else batch_answer)"
  have "ckey \<noteq> [] \<Longrightarrow> skey \<noteq> [] \<Longrightarrow> ckey = skey" using keys by auto
  then have inner: "(if skey \<noteq> [] then sign_mw (rt_mac env) skey routed else routed)
      (agent_request ''/updates/'' h data) s = (as, s', ?ev)"
    by (auto simp: as_def sign_mw_def read_all_def h out valid_signed Let_def)
  have "map Metrics ?ev = (if auditor then [map ID ms] else [])"
    using ms(2) by (simp add: NotifyRequest_def NewEvent_def)
  moreover have "status_of (compress_actions (rt_gzip env) as) = 200"
    by (simp add: as_def batch_answer_status)
  ultimately show thesis by (intro that [OF inner _ s'])
qed

lemma batch_stored:
  assumes ok: "ok s" and env: "chi_ok env" "gzip_ok env"
    and dec: "rbind (json_decode_first data) (decode_slice (decode_metrics (rt_codec env))) = Inr ms"
    and ms: "list_all complete_metric ms" "ms \<noteq> []" "batch_accepts acc (ctr s) ms"
    and keys: "skey = [] \<or> ckey = [] \<or> skey = ckey"
    and subnet: "Allowed (rt_parse6 env) trusted host"
    and wire: "case pub of None \<Rightarrow> w = rt_gzip env data
               | Some kp \<Rightarrow> crypto_ok kp \<and> rand_ok kp rn \<and> Encrypt (Some kp) rn (rt_gzip env data) = Inr w"
  obtains as s' ev log where
    "createRouter env repo pinger skey pub auditor trusted
       (agent_request ''/updates/'' (batch_header (rt_mac env) host ckey pub data) w) s = ((as, s', ev), log)"
    "status_of as = 200" "ok s'" "ctr s' = batch_counters ms (ctr s)" "gau s' = batch_gauges ms (gau s)"
    "map Metrics ev = (if auditor then [map ID ms] else [])"
proof -
  define routed where "routed = route_handler env (routes env repo pinger auditor trusted)"
  define inner where "inner = (if skey \<noteq> [] then sign_mw (rt_mac env) skey routed else routed)"
  obtain h where h: "h = (case pub of None \<Rightarrow> batch_header (rt_mac env) host ckey pub data
        | Some _ \<Rightarrow> (batch_header (rt_mac env) host ckey pub data)(''Content-Length'' := []))"
    and mw: "(case pub of None \<Rightarrow> compress_mw (rt_gzip env) (rt_gunzip env) inner
       | Some p \<Rightarrow> decrypt_mw p (compress_mw (rt_gzip env) (rt_gunzip env) inner))
        (agent_request ''/updates/'' (batch_header (rt_mac env) host ckey pub data) w) s =
      (case inner (agent_request ''/updates/'' h data) s of (as, s', ev) \<Rightarrow> (compress_actions (rt_gzip env) as, s', ev))"
    using wire_decoded [OF env(2) wire, of "rt_mac env" host ckey inner s] by blast
  have "h ''Content-Type'' = ''application/json''" "h realip_Header = host"
      "h hash_Header = (if ckey \<noteq> [] then Sign (rt_mac env) data ckey else [])"
    by (simp_all add: h batch_header_simps header_names split: option.split)
      (simp_all add: batch_header_simps flip: header_names)
  from inner_stored [OF ok env(1) dec ms keys subnet this routed_def, folded inner_def] obtain as s' ev where
    inner: "inner (agent_request ''/updates/'' h data) s = (as, s', ev)"
    and st: "status_of (compress_actions (rt_gzip env) as) = 200"
    and s': "ok s'" "ctr s' = batch_counters ms (ctr s)" "gau s' = batch_gauges ms (gau s)"
      "map Metrics ev = (if auditor then [map ID ms] else [])" by blast
  have chain: "createRouter env repo pinger skey pub auditor trusted =
      logger_mw (rt_debug env) (case pub of None \<Rightarrow> compress_mw (rt_gzip env) (rt_gunzip env) inner
       | Some p \<Rightarrow> decrypt_mw p (compress_mw (rt_gzip env) (rt_gunzip env) inner))"
    unfolding createRouter_def Let_def inner_def routed_def ..
  have "\<exists>log. createRouter env repo pinger skey pub auditor trusted
       (agent_request ''/updates/'' (batch_header (rt_mac env) host ckey pub data) w) s =
     ((compress_actions (rt_gzip env) as, s', ev), log)"
    unfolding chain logger_mw_def mw by (simp add: inner)
  with st s' that show thesis by blast
qed

text \<open>The agent's client over such a connection.\<close>

lemma send_batch_stored:
  assumes ok: "ok s" and env: "chi_ok env" "gzip_ok env" "float_codec_ok (rt_codec env)"
    and ms: "list_all metrics_text_ok ms" "list_all complete_metric ms" "ms \<noteq> []" "batch_accepts acc (ctr s) ms"
    and keys: "skey = [] \<or> ckey = [] \<or> skey = ckey"
    and subnet: "Allowed (rt_parse6 env) trusted host"
    and crypto: "case pub of None \<Rightarrow> True
               | Some kp \<Rightarrow> crypto_ok kp \<and> rand_ok kp (rnd k) \<and> (\<forall>plain. \<exists>c. Encrypt (Some kp) (rnd k) plain = Inr c)"
  obtains s' where
    "SendBatch (rt_codec env) (rt_mac env) (rt_gzip env) (WithPublicKey pub (NewClient host ckey)) rnd
       (http_link env repo pinger skey pub auditor trusted) ctx_background ms (k, s) = (Inr (), Suc k, s')"
    "ok s'" "ctr s' = batch_counters ms (ctr s)" "gau s' = batch_gauges ms (gau s)"
proof -
  obtain data where data: "marshal_list (rt_codec env) ms = Inr data"
      "rbind (json_decode_first data) (decode_slice (decode_metrics (rt_codec env))) = Inr ms"
    by (rule marshal_list_decode [OF env(3) ms(1)])
  obtain w where w: "(case pub of None \<Rightarrow> Inr (rt_gzip env data) | Some kp \<Rightarrow> Encrypt (Some kp) (rnd k) (rt_gzip env data)) = Inr w"
    using crypto by (cases pub) auto
  then have wire: "case pub of None \<Rightarrow> w = rt_gzip env data
               | Some kp \<Rightarrow> crypto_ok kp \<and> rand_ok kp (rnd k) \<and> Encrypt (Some kp) (rnd k) (rt_gzip env data) = Inr w"
    using crypto by (cases pub) auto
  from batch_stored [OF ok env(1,2) data(2) ms(2-4) keys subnet wire] obtain as s' ev log where
    router: "createRouter env repo pinger skey pub auditor trusted
       (agent_request ''/updates/'' (batch_header (rt_mac env) host ckey pub data) w) s = ((as, s', ev), log)"
    and st: "status_of as = 200" and s': "ok s'" "ctr s' = batch_counters ms (ctr s)" "gau s' = batch_gauges ms (gau s)"
    by metis
  have "post_attempt (rt_mac env) (WithPublicKey pub (NewClient host ckey)) rnd
      (http_link env repo pinger skey pub auditor trusted) ''/updates/''
      (json_headers @ [(''Content-Encoding'', ''gzip'')]) (rt_gzip env data) data (k, s) = (Inr (), Suc k, s')"
    by (subst first_attempt [OF refl]) (simp add: w http_link_def router st)
  then have "client_post (rt_mac env) (WithPublicKey pub (NewClient host ckey)) rnd
      (http_link env repo pinger skey pub auditor trusted) ctx_background ''/updates/''
      (json_headers @ [(''Content-Encoding'', ''gzip'')]) (rt_gzip env data) data (k, s) = (Inr (), Suc k, s')"
    unfolding client_post_def by (intro retry_first) (simp_all add: ctx_background_def)
  then have "SendBatch (rt_codec env) (rt_mac env) (rt_gzip env) (WithPublicKey pub (NewClient host ckey)) rnd
       (http_link env repo pinger skey pub auditor trusted) ctx_background ms (k, s) = (Inr (), Suc k, s')"
    using ms(3) data(1) by (simp add: SendBatch_def)
  with s' that show thesis by blast
qed

end

text \<open>
  C3: What the agent sends the server stores. Over a connection that loses nothing, with any combination
  of a shared signing key, encryption with the two halves of one key pair and a trusted subnet
  that contains the agent, \<open>SendBatch\<close> succeeds at the first attempt, and the in-memory store has
  exactly the metrics of the batch added: every counter delta once and every gauge set.
\<close>

theorem agent_batch_stored:
  assumes "chi_ok env" "gzip_ok env" "float_codec_ok (rt_codec env)"
    and "list_all metrics_text_ok ms" "list_all complete_metric ms" "ms \<noteq> []"
    and "skey = [] \<or> ckey = [] \<or> skey = ckey" "Allowed (rt_parse6 env) trusted host"
    and "case pub of None \<Rightarrow> True
         | Some kp \<Rightarrow> crypto_ok kp \<and> rand_ok kp (rnd k) \<and> (\<forall>plain. \<exists>c. Encrypt (Some kp) (rnd k) plain = Inr c)"
  shows "case SendBatch (rt_codec env) (rt_mac env) (rt_gzip env) (WithPublicKey pub (NewClient host ckey)) rnd
       (http_link env mem_repo pinger skey pub auditor trusted) ctx_background ms (k, s) of
     (res, k', s') \<Rightarrow> res = Inr () \<and> k' = Suc k \<and>
        Counters s' = batch_counters ms (Counters s) \<and> Gauges s' = batch_gauges ms (Gauges s)"
proof -
  obtain s' where
    "SendBatch (rt_codec env) (rt_mac env) (rt_gzip env) (WithPublicKey pub (NewClient host ckey)) rnd
       (http_link env mem_repo pinger skey pub auditor trusted) ctx_background ms (k, s) = (Inr (), Suc k, s')"
    "Counters s' = batch_counters ms (Counters s)" "Gauges s' = batch_gauges ms (Gauges s)"
    by (rule mem.send_batch_stored [where s = s and rnd = rnd and k = k, OF TrueI assms(1-6) batch_accepts_True assms(7-9)])
  then show ?thesis by simp
qed

theorem agent_batch_stored_witness:
  "case SendBatch (rt_codec plain_env) (rt_mac plain_env) (rt_gzip plain_env)
          (WithPublicKey (Some plain_pair) (NewClient ''10.0.0.1'' ''key'')) (\<lambda>_. plain_random)
          (http_link plain_env mem_repo None ''key'' (Some plain_pair) True None) ctx_background [NewCounter ''a'' 5] (0, New) of
     (res, k', s') \<Rightarrow> res = Inr () \<and> Counters s' ''a'' = Some 5"
proof -
  have "utf8_valid ''a''" by (rule utf8_valid_ascii) (simp add: byte_in_def)
  then have ms: "list_all metrics_text_ok [NewCounter ''a'' 5]" "list_all complete_metric [NewCounter ''a'' 5]"
      "[NewCounter ''a'' 5] \<noteq> []"
    by (simp_all add: metrics_text_ok_def float_field_ok_def complete_metric_def)
  have k: "(''key'' :: bytes) = [] \<or> (''key'' :: bytes) = [] \<or> (''key'' :: bytes) = ''key''" by simp
  have a: "Allowed (rt_parse6 plain_env) None ''10.0.0.1''" by (simp add: Allowed_def)
  have c: "case Some plain_pair of None \<Rightarrow> True
      | Some kp \<Rightarrow> crypto_ok kp \<and> rand_ok kp plain_random \<and> (\<forall>plain. \<exists>c. Encrypt (Some kp) plain_random plain = Inr c)"
    using plain_pair_ok by (simp add: Encrypt_def sealAESGCM_def aes_key_ok_def plain_random_def) (simp add: plain_pair_def)
  from agent_batch_stored [where rnd = "\<lambda>_. plain_random" and k = 0 and pinger = None and auditor = True and s = New,
      OF plain_env_ok ms k a c] show ?thesis
    by (auto simp: New_def split: prod.splits)
qed

end
