(* ===== verification/Whole_System.thy ===== *)
theory Whole_System
  imports Agent_Shutdown End_To_End Grpc_Specs
begin

text \<open>
  The agent and the server together: the runner's steps with the store of the server next to its
  state, changed when a worker's \<open>SendBatch\<close> is answered. What the agent relies on is the locale
  \<open>batch_sender\<close>, the interface \<open>BatchSender\<close> of \<open>internal/agent/sender.go\<close> with its promise; the HTTP
  client against the router and the gRPC client against the service are its interpretations.
\<close>

section \<open>The composed system\<close>

text \<open>
  A worker's request takes effect when it is answered: the server handles a batch in one critical
  section, and the answer is what the sender returns.
\<close>

inductive system_step ::
  "(metrics list \<Rightarrow> 's \<Rightarrow> unit result \<times> 's) \<Rightarrow> runner \<times> 's \<Rightarrow> agent_label \<Rightarrow> runner \<times> 's \<Rightarrow> bool" for send where
  system_agent: "agent_step r l r' \<Longrightarrow> sent_jobs l = [] \<Longrightarrow> system_step send (r, s) l (r', s)"
| system_send: "agent_step r (ASent i c err) r' \<Longrightarrow> send c s = (res, s') \<Longrightarrow>
     err = (case res of Inl e \<Rightarrow> Some e | Inr _ \<Rightarrow> None) \<Longrightarrow> system_step send (r, s) (ASent i c err) (r', s')"

lemma system_agent_run: "run (system_step send) x ls y \<Longrightarrow> run agent_step (fst x) ls (fst y)"
proof (induction rule: run.induct)
  case (run_snoc x ls y l z)
  from run_snoc.hyps(2) have "agent_step (fst y) l (fst z)" by (cases rule: system_step.cases) simp_all
  with run_snoc.IH show ?case by (rule run.run_snoc)
qed (rule run_Nil)

locale batch_sender =
  fixes send :: "metrics list \<Rightarrow> 's \<Rightarrow> unit result \<times> 's"
    and ctr :: "'s \<Rightarrow> string \<rightharpoonup> int64"
    and gau :: "'s \<Rightarrow> string \<rightharpoonup> float64"
    and ready :: "'s \<Rightarrow> bool"
  assumes send_batch: "ready s \<Longrightarrow> list_all good_metric ms \<Longrightarrow>
    \<exists>s'. send ms s = (Inr (), s') \<and> ready s' \<and>
         ctr s' = batch_counters ms (ctr s) \<and> gau s' = batch_gauges ms (gau s)"
begin

lemma store_run:
  "run (system_step send) x ls y \<Longrightarrow> ready (snd x) \<Longrightarrow> list_all (list_all good_metric) (concat (map sent_jobs ls)) \<Longrightarrow>
   ready (snd y) \<and> list_all (\<lambda>l. delivered l = sent_jobs l) ls \<and>
   ctr (snd y) = batch_counters (concat (concat (map sent_jobs ls))) (ctr (snd x)) \<and>
   gau (snd y) = batch_gauges (concat (concat (map sent_jobs ls))) (gau (snd x))"
proof (induction rule: run.induct)
  case (run_snoc x ls y l z)
  from run_snoc.hyps(2) show ?case
  proof (cases rule: system_step.cases)
    case (system_agent r r' s)
    then have "delivered l = sent_jobs l" by (cases l) simp_all
    with run_snoc system_agent show ?thesis by simp
  next
    case (system_send r i c err r' s res s')
    then have "ready s" "list_all good_metric c" using run_snoc by simp_all
    from send_batch [OF this] system_send run_snoc show ?thesis by auto
  qed
qed simp

text \<open>An agent run in which every request is answered without an error is one of the system.\<close>

lemma lift_run:
  "run agent_step r ls r' \<Longrightarrow> ready s \<Longrightarrow> list_all (list_all good_metric) (concat (map sent_jobs ls)) \<Longrightarrow>
   list_all (\<lambda>l. delivered l = sent_jobs l) ls \<Longrightarrow> \<exists>s'. run (system_step send) (r, s) ls (r', s') \<and> ready s'"
proof (induction rule: run.induct)
  case (run_Nil r)
  then show ?case using run.run_Nil [of "system_step send" "(r, s)"] by blast
next
  case (run_snoc r ls t l u)
  then obtain s1 where s1: "run (system_step send) (r, s) ls (t, s1)" "ready s1" by auto
  have "\<exists>s2. system_step send (t, s1) l (u, s2) \<and> ready s2"
  proof (cases "sent_jobs l = []")
    case True
    with s1(2) run_snoc.hyps(2) show ?thesis by (blast intro: system_agent)
  next
    case False
    then obtain i c err where l: "l = ASent i c err" by (cases l) simp_all
    then have err: "err = None" using run_snoc.prems(3) by (cases err) simp_all
    have "list_all good_metric c" using run_snoc.prems(2) l by simp
    from send_batch [OF s1(2) this] obtain s2 where s2: "send c s1 = (Inr (), s2)" "ready s2" by blast
    then have "system_step send (t, s1) l (u, s2)" using run_snoc.hyps(2) unfolding l err
      by (intro system_step.system_send [where res = "Inr ()"]) simp_all
    with s2(2) show ?thesis by blast
  qed
  then show ?case using s1(1) by (blast intro: run.run_snoc)
qed

text \<open>After a complete run the store has what the agent submitted, and the count of its polls.\<close>

lemma complete_run:
  assumes "agent_start pi ri n a" "run (system_step send) (a, s) ls (r, s')" "list_all good_label ls" "ready s"
    and "ru_pc r = RunReturned" "\<not> list_ex is_refusal ls"
  shows "mset (concat (map sent_jobs ls)) = mset (concat (map submitted ls)) \<and>
    ctr s' = batch_counters (concat (concat (map sent_jobs ls))) (ctr s) \<and>
    gau s' = batch_gauges (concat (concat (map sent_jobs ls))) (gau s) \<and>
    go_index (ctr s') ''PollCount'' = go_index (ctr s) ''PollCount'' + of_nat (length (filter is_poll ls))"
proof -
  have agent: "run agent_step a ls r" using system_agent_run [OF assms(2)] by simp
  have good: "list_all (list_all good_metric) (concat (map sent_jobs ls))"
    using good_run [OF agent agent_start_good [OF assms(1)] assms(3)] by simp
  from store_run [OF assms(2) _ good] assms(4)
  have st: "list_all (\<lambda>l. delivered l = sent_jobs l) ls"
    "ctr s' = batch_counters (concat (concat (map sent_jobs ls))) (ctr s)"
    "gau s' = batch_gauges (concat (concat (map sent_jobs ls))) (gau s)" by simp_all
  have "concat (map delivered ls) = concat (map sent_jobs ls)"
    using st(1) by (induction ls) simp_all
  with polls_on_server [OF assms(1) agent assms(5,6) st(1), of "ctr s"] delivery_facts [OF assms(1) agent] assms(5) st(2,3)
  show ?thesis by simp
qed

end

section \<open>The two transports\<close>

definition http_sender ::
  "router_env \<Rightarrow> string \<Rightarrow> bytes \<Rightarrow> key_pair option \<Rightarrow> (nat \<Rightarrow> randomness) \<Rightarrow> go_error option option \<Rightarrow> bytes \<Rightarrow>
   bool \<Rightarrow> ip_net option \<Rightarrow> metrics list \<Rightarrow> nat \<times> mem_storage \<Rightarrow> unit result \<times> nat \<times> mem_storage" where
  "http_sender env host ckey pub rnd pinger skey auditor trusted ms st =
     SendBatch (rt_codec env) (rt_mac env) (rt_gzip env) (WithPublicKey pub (NewClient host ckey)) rnd
       (http_link env mem_repo pinger skey pub auditor trusted) ctx_background ms st"

text \<open>The parameters keep their laws, the keys of both sides match and the agent is in the subnet.\<close>

definition http_ready ::
  "router_env \<Rightarrow> string \<Rightarrow> bytes \<Rightarrow> key_pair option \<Rightarrow> (nat \<Rightarrow> randomness) \<Rightarrow> bytes \<Rightarrow> ip_net option \<Rightarrow> bool" where
  "http_ready env host ckey pub rnd skey trusted \<longleftrightarrow>
     chi_ok env \<and> gzip_ok env \<and> float_codec_ok (rt_codec env) \<and> (skey = [] \<or> ckey = [] \<or> skey = ckey) \<and>
     Allowed (rt_parse6 env) trusted host \<and>
     (case pub of None \<Rightarrow> True
      | Some kp \<Rightarrow> crypto_ok kp \<and>
          (\<forall>k. rand_ok kp (rnd k) \<and> (\<forall>plain. \<exists>c. Encrypt (Some kp) (rnd k) plain = Inr c)))"

lemma good_metrics:
  "list_all good_metric ms \<Longrightarrow>
   list_all metrics_text_ok ms \<and> list_all complete_metric ms \<and> filter (\<lambda>m. ID m \<noteq> []) ms = ms"
  by (induction ms) (simp_all add: good_metric_def)

interpretation over_http: batch_sender "http_sender env host ckey pub rnd pinger skey auditor trusted"
  "\<lambda>st. Counters (snd st)" "\<lambda>st. Gauges (snd st)" "\<lambda>_. http_ready env host ckey pub rnd skey trusted"
  for env host ckey pub rnd pinger skey auditor trusted
proof (unfold_locales, goal_cases)
  case (1 st ms)
  obtain k s where st: "st = (k, s)" by (cases st)
  show ?case
  proof (cases "ms = []")
    case True
    with 1 show ?thesis by (simp add: http_sender_def SendBatch_def)
  next
    case False
    note ms = good_metrics [OF 1(2)] and rd = 1(1) [unfolded http_ready_def]
    have crypto: "case pub of None \<Rightarrow> True
        | Some kp \<Rightarrow> crypto_ok kp \<and> rand_ok kp (rnd k) \<and> (\<forall>plain. \<exists>c. Encrypt (Some kp) (rnd k) plain = Inr c)"
      using rd by (auto split: option.splits)
    obtain s' where "http_sender env host ckey pub rnd pinger skey auditor trusted ms (k, s) = (Inr (), Suc k, s')"
        "Counters s' = batch_counters ms (Counters s)" "Gauges s' = batch_gauges ms (Gauges s)"
      unfolding http_sender_def
      using rd ms False
      by (auto intro: mem.send_batch_stored [where s = s and rnd = rnd and k = k and pub = pub and ms = ms and env = env
            and skey = skey and ckey = ckey and trusted = trusted and host = host and pinger = pinger
            and auditor = auditor, OF TrueI _ _ _ _ _ _ batch_accepts_True _ _ crypto])
    with 1(1) show ?thesis by (simp add: st)
  qed
qed

definition grpc_sender ::
  "string \<Rightarrow> (string \<Rightarrow> (128 word) option) \<Rightarrow> ip_net option \<Rightarrow> bool \<Rightarrow> int \<Rightarrow> metrics list \<Rightarrow> mem_storage \<Rightarrow>
   unit result \<times> mem_storage" where
  "grpc_sender ip parse6 network auditor now ms s =
     grpc_SendBatch (realIPClientInterceptor ip (grpc_link parse6 network mem_repo auditor now)) ms s"

interpretation over_grpc: batch_sender "grpc_sender ip parse6 network auditor now"
  Counters Gauges "\<lambda>_. Allowed parse6 network ip" for ip parse6 network auditor now
proof (unfold_locales, goal_cases)
  case (1 s ms)
  show ?case
  proof (cases "ms = []")
    case True
    with 1 show ?thesis by (simp add: grpc_sender_def grpc_SendBatch_def)
  next
    case False
    note ms = good_metrics [OF 1(2)]
    obtain res s' where send: "grpc_sender ip parse6 network auditor now ms s = (res, s')" by fastforce
    with grpc_send_batch [of ms, where ip = ip and ?parse6.0 = parse6 and network = network and auditor = auditor and now = now and s = s] ms False 1(1) show ?thesis
      by (simp add: grpc_sender_def)
  qed
qed

section \<open>The whole system\<close>

text \<open>
  C1: Nothing is lost between the runtime and the store, over HTTP. In every interleaving of polls,
  reports, cancellation and any number of workers that ends with the return of \<open>Run\<close> without a refused
  submission, with finite readings, matching keys and an agent in the trusted subnet, every request succeeds,
  the server's counters and gauges are those of the submitted reports, each stored exactly once, and
  \<open>PollCount\<close> has grown by exactly the number of polls.
\<close>

theorem system_over_http:
  assumes "agent_start pi ri n a"
    and "run (system_step (http_sender env host ckey pub rnd pinger skey auditor trusted)) (a, (k, s)) ls (r, (k', s'))"
    and "list_all good_label ls" "http_ready env host ckey pub rnd skey trusted"
    and "ru_pc r = RunReturned" "\<not> list_ex is_refusal ls"
  shows "mset (concat (map sent_jobs ls)) = mset (concat (map submitted ls)) \<and>
    Counters s' = batch_counters (concat (concat (map sent_jobs ls))) (Counters s) \<and>
    Gauges s' = batch_gauges (concat (concat (map sent_jobs ls))) (Gauges s) \<and>
    go_index (Counters s') ''PollCount'' = go_index (Counters s) ''PollCount'' + of_nat (length (filter is_poll ls))"
  using over_http.complete_run [OF assms] unfolding snd_conv .

lemma plain_http_ready: "http_ready plain_env ''10.0.0.1'' ''key'' (Some plain_pair) (\<lambda>_. plain_random) ''key'' None"
proof -
  have "\<exists>c. Encrypt (Some plain_pair) plain_random plain = Inr c" for plain
    by (simp add: Encrypt_def sealAESGCM_def aes_key_ok_def plain_random_def) (simp add: plain_pair_def)
  then show ?thesis using plain_env_ok plain_pair_ok by (simp add: http_ready_def Allowed_def)
qed

theorem system_over_http_witness:
  "\<exists>ls r k' s'.
     run (system_step (http_sender plain_env ''10.0.0.1'' ''key'' (Some plain_pair) (\<lambda>_. plain_random) None ''key'' True None))
       (fresh_agent 2, (0, New)) ls (r, (k', s')) \<and> ru_pc r = RunReturned \<and> ls \<noteq> [] \<and>
     go_index (Counters s') ''PollCount'' = of_nat (length (filter is_poll ls))"
proof -
  have start: "agent_start 1 1 2 (fresh_agent 2)" by (rule fresh_agent_start) simp
  obtain ls r where r: "run agent_step (fresh_agent 2) (APoll zero_gauges # ls) r" "ru_pc r = RunReturned"
      "\<not> list_ex is_refusal (APoll zero_gauges # ls)" "list_all (\<lambda>l. delivered l = sent_jobs l) (APoll zero_gauges # ls)"
      "list_all good_label (APoll zero_gauges # ls)"
    by (rule one_poll_run [of 2]) simp_all
  have "list_all (list_all good_metric) (concat (map sent_jobs (APoll zero_gauges # ls)))"
    using good_run [OF r(1) agent_start_good [OF start] r(5)] by simp
  from over_http.lift_run [OF r(1) plain_http_ready this r(4), where s = "(0, New)" and pinger = None and auditor = True] obtain st where
    sys: "run (system_step (http_sender plain_env ''10.0.0.1'' ''key'' (Some plain_pair) (\<lambda>_. plain_random) None ''key'' True None))
       (fresh_agent 2, (0, New)) (APoll zero_gauges # ls) (r, st)" by blast
  obtain k' s' where st: "st = (k', s')" by (cases st)
  have "go_index (Counters s') ''PollCount'' =
      go_index (Counters New) ''PollCount'' + of_nat (length (filter is_poll (APoll zero_gauges # ls)))"
    using system_over_http [OF start sys [unfolded st] r(5) plain_http_ready r(2,3)] by blast
  then have "go_index (Counters s') ''PollCount'' = of_nat (length (filter is_poll (APoll zero_gauges # ls)))"
    by (simp add: New_def)
  with sys st r(2) show ?thesis
    by (intro exI [of _ "APoll zero_gauges # ls"] exI [of _ r] exI [of _ k'] exI [of _ s']) simp
qed

text \<open>
  C2: The same over gRPC: with finite readings and an agent in the trusted subnet, a complete run without
  a refused submission leaves the server's counters and gauges with every submitted report stored exactly
  once and \<open>PollCount\<close> grown by exactly the number of polls.
\<close>

theorem system_over_grpc:
  assumes "agent_start pi ri n a"
    and "run (system_step (grpc_sender ip parse6 network auditor now)) (a, s) ls (r, s')"
    and "list_all good_label ls" "Allowed parse6 network ip"
    and "ru_pc r = RunReturned" "\<not> list_ex is_refusal ls"
  shows "mset (concat (map sent_jobs ls)) = mset (concat (map submitted ls)) \<and>
    Counters s' = batch_counters (concat (concat (map sent_jobs ls))) (Counters s) \<and>
    Gauges s' = batch_gauges (concat (concat (map sent_jobs ls))) (Gauges s) \<and>
    go_index (Counters s') ''PollCount'' = go_index (Counters s) ''PollCount'' + of_nat (length (filter is_poll ls))"
  by (rule over_grpc.complete_run [OF assms])

theorem system_over_grpc_witness:
  "\<exists>ls r s'. run (system_step (grpc_sender ''10.0.0.1'' (\<lambda>_. None) None True 0)) (fresh_agent 2, New) ls (r, s') \<and>
     ru_pc r = RunReturned \<and> ls \<noteq> [] \<and> go_index (Counters s') ''PollCount'' = of_nat (length (filter is_poll ls))"
proof -
  have start: "agent_start 1 1 2 (fresh_agent 2)" by (rule fresh_agent_start) simp
  have ok: "Allowed (\<lambda>_. None) None ''10.0.0.1''" by (simp add: Allowed_def)
  obtain ls r where r: "run agent_step (fresh_agent 2) (APoll zero_gauges # ls) r" "ru_pc r = RunReturned"
      "\<not> list_ex is_refusal (APoll zero_gauges # ls)" "list_all (\<lambda>l. delivered l = sent_jobs l) (APoll zero_gauges # ls)"
      "list_all good_label (APoll zero_gauges # ls)"
    by (rule one_poll_run [of 2]) simp_all
  have "list_all (list_all good_metric) (concat (map sent_jobs (APoll zero_gauges # ls)))"
    using good_run [OF r(1) agent_start_good [OF start] r(5)] by simp
  from over_grpc.lift_run [OF r(1) ok this r(4), where s = New and auditor = True and now = 0] obtain s' where
    sys: "run (system_step (grpc_sender ''10.0.0.1'' (\<lambda>_. None) None True 0)) (fresh_agent 2, New) (APoll zero_gauges # ls) (r, s')"
    by blast
  have "go_index (Counters s') ''PollCount'' =
      go_index (Counters New) ''PollCount'' + of_nat (length (filter is_poll (APoll zero_gauges # ls)))"
    using system_over_grpc [OF start sys r(5) ok r(2,3)] by blast
  then have "go_index (Counters s') ''PollCount'' = of_nat (length (filter is_poll (APoll zero_gauges # ls)))"
    by (simp add: New_def)
  with sys r(2) show ?thesis
    by (intro exI [of _ "APoll zero_gauges # ls"] exI [of _ r] exI [of _ s']) simp
qed

end
