(* ===== verification/Lossy_Network.thy ===== *)
theory Lossy_Network
  imports Whole_System
begin

text \<open>
  The agent's client over a network that loses requests and answers: \<open>post\<close> of
  \<open>internal/agent/client.go\<close> tries again after a network error, whether the server had handled the request or not.
\<close>

datatype net_fault = Delivered | NotSent go_error | ReplyLost go_error

text \<open>The state counts the requests, of which each has its fate.\<close>

definition lossy_link :: "(nat \<Rightarrow> net_fault) \<Rightarrow> 's transport \<Rightarrow> (nat \<times> 's) transport" where
  "lossy_link fate tr req st =
     (case st of (n, s) \<Rightarrow>
        (case fate n of
           Delivered \<Rightarrow> (case tr req s of (res, s') \<Rightarrow> (res, Suc n, s'))
         | NotSent e \<Rightarrow> (Inl e, Suc n, s)
         | ReplyLost e \<Rightarrow> (case tr req s of (res, s') \<Rightarrow> (Inl e, Suc n, s'))))"

definition no_reply_lost :: "(nat \<Rightarrow> net_fault) \<Rightarrow> bool" where
  "no_reply_lost fate \<longleftrightarrow> (\<forall>i e. fate i \<noteq> ReplyLost e)"

text \<open>The store after a batch was handled \<open>n\<close> times.\<close>

definition stored_times :: "metrics list \<Rightarrow> nat \<Rightarrow> mem_storage \<Rightarrow> mem_storage \<Rightarrow> bool" where
  "stored_times ms n s t \<longleftrightarrow>
     Counters t = (batch_counters ms ^^ n) (Counters s) \<and> Gauges t = (batch_gauges ms ^^ n) (Gauges s)"

lemma stored_times_add: "stored_times ms m s t \<Longrightarrow> stored_times ms n t u \<Longrightarrow> stored_times ms (m + n) s u"
  by (simp add: stored_times_def funpow_add add.commute [of m n])

text \<open>One attempt, by its fate.\<close>

lemma lossy_attempt:
  assumes "http_ready env host ckey pub rnd skey trusted"
    and ms: "list_all complete_metric ms" "ms \<noteq> []"
    and dec: "rbind (json_decode_first data) (decode_slice (decode_metrics (rt_codec env))) = Inr ms"
  shows "\<exists>t. stored_times ms 1 s t \<and>
    post_attempt (rt_mac env) (WithPublicKey pub (NewClient host ckey)) rnd
      (lossy_link fate (http_link env mem_repo pinger skey pub auditor trusted)) ''/updates/''
      (json_headers @ [(''Content-Encoding'', ''gzip'')]) (rt_gzip env data) data (k, n, s) =
    (case fate n of
       Delivered \<Rightarrow> (Inr (), Suc k, Suc n, t)
     | NotSent e \<Rightarrow> (Inl e, Suc k, Suc n, s)
     | ReplyLost e \<Rightarrow> (Inl e, Suc k, Suc n, t))"
proof -
  let ?tr = "http_link env mem_repo pinger skey pub auditor trusted"
  obtain w where w: "(case pub of None \<Rightarrow> Inr (rt_gzip env data) | Some kp \<Rightarrow> Encrypt (Some kp) (rnd k) (rt_gzip env data)) = Inr w"
    using assms(1) by (cases pub) (auto simp: http_ready_def)
  then have wire: "case pub of None \<Rightarrow> w = rt_gzip env data
      | Some kp \<Rightarrow> crypto_ok kp \<and> rand_ok kp (rnd k) \<and> Encrypt (Some kp) (rnd k) (rt_gzip env data) = Inr w"
    using assms(1) by (cases pub) (auto simp: http_ready_def)
  have env: "chi_ok env" "gzip_ok env" "skey = [] \<or> ckey = [] \<or> skey = ckey" "Allowed (rt_parse6 env) trusted host"
    using assms(1) by (simp_all add: http_ready_def)
  let ?req = "agent_request ''/updates/'' (batch_header (rt_mac env) host ckey pub data) w"
  obtain t where tr: "?tr ?req s = (Inr 200, t)" and t: "stored_times ms 1 s t"
    by (rule mem.batch_stored [where s = s and pinger = pinger and auditor = auditor,
          OF TrueI env(1,2) dec ms batch_accepts_True env(3,4) wire])
      (simp add: http_link_def stored_times_def)
  show ?thesis
    by (intro exI [of _ t] conjI t, subst first_attempt [OF refl])
      (simp add: w lossy_link_def tr split: net_fault.split)
qed

text \<open>The attempts at a batch have the contract of \<open>repeated_effect\<close>.\<close>

lemma agent_effect:
  assumes "http_ready env host ckey pub rnd skey trusted" "list_all complete_metric ms" "ms \<noteq> []"
    and "rbind (json_decode_first data) (decode_slice (decode_metrics (rt_codec env))) = Inr ms"
  shows "repeated_effect
    (post_attempt (rt_mac env) (WithPublicKey pub (NewClient host ckey)) rnd
       (lossy_link fate (http_link env mem_repo pinger skey pub auditor trusted)) ''/updates/''
       (json_headers @ [(''Content-Encoding'', ''gzip'')]) (rt_gzip env data) data)
    (\<lambda>n s t. stored_times ms n (snd (snd s)) (snd (snd t))) (no_reply_lost fate)"
proof (unfold_locales, goal_cases)
  case (2 m s t n u)
  then show ?case by (rule stored_times_add)
next
  case (3 s r t)
  let ?st = "stored_times ms"
  from lossy_attempt [OF assms, of "snd (snd s)" fate pinger auditor "fst s" "fst (snd s)"] 3 obtain u where
    u: "?st 1 (snd (snd s)) u" "(r, t) =
      (case fate (fst (snd s)) of
         Delivered \<Rightarrow> (Inr (), Suc (fst s), Suc (fst (snd s)), u)
       | NotSent e \<Rightarrow> (Inl e, Suc (fst s), Suc (fst (snd s)), snd (snd s))
       | ReplyLost e \<Rightarrow> (Inl e, Suc (fst s), Suc (fst (snd s)), u))" by auto
  have none: "?st 0 (snd (snd s)) (snd (snd s))" by (simp add: stored_times_def)
  show ?case
  proof (cases "fate (fst (snd s))")
    case Delivered
    with u show ?thesis by (intro exI [of _ 1]) simp
  next
    case (NotSent e)
    with u none show ?thesis by (intro exI [of _ 0]) simp
  next
    case (ReplyLost e)
    with u show ?thesis by (intro exI [of _ 1]) (auto simp: no_reply_lost_def)
  qed
qed (simp add: stored_times_def)

text \<open>Handling a batch again adds its deltas again and leaves the gauges.\<close>

lemma repeated_counters:
  "go_index ((batch_counters ms ^^ n) c) x = go_index c x + of_nat n * (\<Sum>m\<leftarrow>ms. delta_for x m)"
  by (induction n) (simp_all add: go_index_batch algebra_simps)

lemma repeated_gauges: "(batch_gauges ms ^^ n) g = (if n = 0 then g else batch_gauges ms g)"
proof (induction n)
  case (Suc n)
  have "batch_gauges ms (batch_gauges ms g) = batch_gauges ms g"
    by (rule ext) (simp add: batch_gauges_last)
  with Suc show ?case by simp
qed simp

text \<open>
  One batch: the server handles it a number of times \<open>j\<close>, at most four, at least once when \<open>SendBatch\<close> reports
  success, and exactly once or not at all when no answer is lost. Each counter grows by \<open>j\<close> times its
  deltas, and the gauges are those of the batch as soon as it was handled.
\<close>

lemma lossy_delivery:
  assumes "http_ready env host ckey pub rnd skey trusted" "list_all metrics_text_ok ms" "list_all complete_metric ms"
    and "SendBatch (rt_codec env) (rt_mac env) (rt_gzip env) (WithPublicKey pub (NewClient host ckey)) rnd
      (lossy_link fate (http_link env mem_repo pinger skey pub auditor trusted)) cx ms (k, n, s) = (r, k', n', s')"
    and "ms \<noteq> []"
  shows "\<exists>j \<le> 4.
    (\<forall>x. go_index (Counters s') x = go_index (Counters s) x + of_nat j * (\<Sum>m\<leftarrow>ms. delta_for x m)) \<and>
    Gauges s' = (if j = 0 then Gauges s else batch_gauges ms (Gauges s)) \<and>
    (r = Inr () \<longrightarrow> 1 \<le> j) \<and> (no_reply_lost fate \<longrightarrow> j = (if r = Inr () then 1 else 0))"
proof -
  have "float_codec_ok (rt_codec env)" using assms(1) by (simp add: http_ready_def)
  then obtain data where data: "marshal_list (rt_codec env) ms = Inr data"
      "rbind (json_decode_first data) (decode_slice (decode_metrics (rt_codec env))) = Inr ms"
    by (rule marshal_list_decode [OF _ assms(2)])
  obtain r0 k0 n0 s0 where post: "client_post (rt_mac env) (WithPublicKey pub (NewClient host ckey)) rnd
      (lossy_link fate (http_link env mem_repo pinger skey pub auditor trusted)) cx ''/updates/''
      (json_headers @ [(''Content-Encoding'', ''gzip'')]) (rt_gzip env data) data (k, n, s) = (r0, k0, n0, s0)"
    by (metis prod_cases4)
  have send: "SendBatch (rt_codec env) (rt_mac env) (rt_gzip env) (WithPublicKey pub (NewClient host ckey)) rnd
      (lossy_link fate (http_link env mem_repo pinger skey pub auditor trusted)) cx ms (k, n, s) =
      (case r0 of Inl e \<Rightarrow> Inl (ErrWrap ''failed to send metrics batch'' e) | Inr _ \<Rightarrow> Inr (), k0, n0, s0)"
    using assms(5) by (simp add: SendBatch_def data(1) post split: sum.split)
  have s': "s' = s0" using assms(4) unfolding send by (cases r0) simp_all
  have r: "r = Inr () \<longleftrightarrow> r0 = Inr ()" using assms(4) unfolding send by (cases r0) auto
  from repeated_effect.retry_times [OF agent_effect [OF assms(1,3,5) data(2)] post [unfolded client_post_def]]
  obtain j where j: "j \<le> 4" "stored_times ms j s s0" "r0 = Inr () \<longrightarrow> 1 \<le> j"
    "no_reply_lost fate \<longrightarrow> j = (if r0 = Inr () then 1 else 0)" by (metis snd_conv)
  from j(2) have "\<forall>x. go_index (Counters s') x = go_index (Counters s) x + of_nat j * (\<Sum>m\<leftarrow>ms. delta_for x m)"
      "Gauges s' = (if j = 0 then Gauges s else batch_gauges ms (Gauges s))"
    unfolding s' stored_times_def by (simp_all only: repeated_counters repeated_gauges simp_thms)
  with j(1,3,4) r show ?thesis by metis
qed

lemma one_counter:
  "list_all metrics_text_ok [NewCounter ''a'' 5]" "list_all complete_metric [NewCounter ''a'' 5]" "[NewCounter ''a'' 5] \<noteq> []"
proof -
  have "utf8_valid ''a''" by (rule utf8_valid_ascii) (simp add: byte_in_def)
  then show "list_all metrics_text_ok [NewCounter ''a'' 5]" "list_all complete_metric [NewCounter ''a'' 5]"
      "[NewCounter ''a'' 5] \<noteq> []"
    by (simp_all add: metrics_text_ok_def float_field_ok_def complete_metric_def)
qed

section \<open>Complete runs\<close>

text \<open>
  The agent's runs with the answers the requests get. A sender whose requests may be handled again promises a number of
  times for each, and for every counter the sum.
\<close>

fun answers :: "agent_label \<Rightarrow> (metrics list \<times> go_error option) list" where
  "answers (ASent i c err) = [(c, err)]"
| "answers _ = []"

lemma map_answers: "map fst (concat (map answers ls)) = concat (map sent_jobs ls)"
proof (induction ls)
  case (Cons l ls)
  then show ?case by (cases l) simp_all
qed simp

definition handled :: "bool \<Rightarrow> metrics list \<times> go_error option \<Rightarrow> nat \<Rightarrow> bool" where
  "handled sure a j \<longleftrightarrow>
     j \<le> 4 \<and> (snd a = None \<longrightarrow> 1 \<le> j) \<and> (sure \<longrightarrow> j = (if snd a = None then 1 else 0))"

definition handled_delta :: "string \<Rightarrow> (metrics list \<times> go_error option) list \<Rightarrow> nat list \<Rightarrow> int64" where
  "handled_delta x as js = (\<Sum>(a, j)\<leftarrow>zip as js. of_nat j * (\<Sum>m\<leftarrow>fst a. delta_for x m))"

locale retrying_sender =
  fixes send :: "metrics list \<Rightarrow> 's \<Rightarrow> unit result \<times> 's"
    and ctr :: "'s \<Rightarrow> string \<rightharpoonup> int64"
    and ready :: bool
    and sure :: bool
  assumes send_times: "ready \<Longrightarrow> list_all good_metric ms \<Longrightarrow> send ms s = (res, s') \<Longrightarrow>
    \<exists>j. handled sure (ms, case res of Inl e \<Rightarrow> Some e | Inr _ \<Rightarrow> None) j \<and>
      (\<forall>x. go_index (ctr s') x = go_index (ctr s) x + of_nat j * (\<Sum>m\<leftarrow>ms. delta_for x m))"
begin

lemma retrying_run:
  "run (system_step send) y ls z \<Longrightarrow> ready \<Longrightarrow> list_all (list_all good_metric) (concat (map sent_jobs ls)) \<Longrightarrow>
   \<exists>js. list_all2 (handled sure) (concat (map answers ls)) js \<and>
     (\<forall>x. go_index (ctr (snd z)) x = go_index (ctr (snd y)) x + handled_delta x (concat (map answers ls)) js)"
proof (induction rule: run.induct)
  case (run_Nil y)
  show ?case by (intro exI [of _ "[]"]) (simp add: handled_delta_def)
next
  case (run_snoc y ls t l z)
  then obtain js where js: "list_all2 (handled sure) (concat (map answers ls)) js"
    "\<forall>x. go_index (ctr (snd t)) x = go_index (ctr (snd y)) x + handled_delta x (concat (map answers ls)) js" by auto
  note len = list_all2_lengthD [OF js(1)]
  from run_snoc.hyps(2) show ?case
  proof (cases rule: system_step.cases)
    case (system_agent r r' s)
    then have "answers l = []" by (cases l) simp_all
    with js system_agent show ?thesis by (intro exI [of _ js]) simp
  next
    case (system_send r i c err r' s res s')
    then have "list_all good_metric c" using run_snoc.prems by simp
    from send_times [OF run_snoc.prems(1) this system_send(5)] obtain j where
      "handled sure (c, err) j" "\<forall>x. go_index (ctr s') x = go_index (ctr s) x + of_nat j * (\<Sum>m\<leftarrow>c. delta_for x m)"
      unfolding system_send(6) by blast
    with js system_send len show ?thesis
      by (intro exI [of _ "js @ [j]"]) (simp add: list_all2_appendI handled_delta_def algebra_simps)
  qed
qed

end

text \<open>The client over the lossy network; the context of each request may end at any time.\<close>

definition lossy_sender ::
  "router_env \<Rightarrow> string \<Rightarrow> bytes \<Rightarrow> key_pair option \<Rightarrow> (nat \<Rightarrow> randomness) \<Rightarrow> (nat \<Rightarrow> net_fault) \<Rightarrow> (nat \<Rightarrow> ctx) \<Rightarrow>
   go_error option option \<Rightarrow> bytes \<Rightarrow> bool \<Rightarrow> ip_net option \<Rightarrow> metrics list \<Rightarrow> nat \<times> nat \<times> mem_storage \<Rightarrow>
   unit result \<times> nat \<times> nat \<times> mem_storage" where
  "lossy_sender env host ckey pub rnd fate cxs pinger skey auditor trusted ms st =
     SendBatch (rt_codec env) (rt_mac env) (rt_gzip env) (WithPublicKey pub (NewClient host ckey)) rnd
       (lossy_link fate (http_link env mem_repo pinger skey pub auditor trusted)) (cxs (fst st)) ms st"

interpretation over_lossy: retrying_sender
  "lossy_sender env host ckey pub rnd fate cxs pinger skey auditor trusted" "\<lambda>st. Counters (snd (snd st))"
  "http_ready env host ckey pub rnd skey trusted" "no_reply_lost fate"
  for env host ckey pub rnd fate cxs pinger skey auditor trusted
proof (unfold_locales, goal_cases)
  case (1 ms st res st')
  show ?case
  proof (cases "ms = []")
    case True
    with 1(3) show ?thesis by (intro exI [of _ 1]) (auto simp: lossy_sender_def SendBatch_def handled_def)
  next
    case False
    obtain k n s k' n' s' where st: "st = (k, n, s)" "st' = (k', n', s')" by (metis prod_cases3)
    note ms = good_metrics [OF 1(2)]
    from lossy_delivery [OF 1(1) _ _ 1(3) [unfolded lossy_sender_def st] False] ms
    obtain j where j: "j \<le> 4" "\<forall>x. go_index (Counters s') x = go_index (Counters s) x + of_nat j * (\<Sum>m\<leftarrow>ms. delta_for x m)"
      "res = Inr () \<longrightarrow> 1 \<le> j" "no_reply_lost fate \<longrightarrow> j = (if res = Inr () then 1 else 0)" by blast
    then show ?thesis by (intro exI [of _ j]) (cases res; simp add: handled_def st)
  qed
qed

text \<open>
  C9: Over a network that loses requests and answers the agent delivers at least once, and at most four
  times. Take any complete run, with any number of workers, finite readings, matching keys and an agent in the
  trusted subnet, whatever the fate of each request and whenever the contexts end. Every submitted batch is sent by
  one worker; the server handles it at most four times, at least once when the worker was told so, and
  exactly once or not at all when no answer is lost; and every counter of the store has grown by the deltas of
  the batches as often as they were handled.
\<close>

theorem system_over_lossy_network:
  assumes "agent_start pi ri n a"
    and "run (system_step (lossy_sender env host ckey pub rnd fate cxs pinger skey auditor trusted)) (a, (k, i, s)) ls (r, (k', i', s'))"
    and "list_all good_label ls" "http_ready env host ckey pub rnd skey trusted" "ru_pc r = RunReturned"
  shows "mset (map fst (concat (map answers ls))) = mset (concat (map submitted ls)) \<and>
    (\<exists>js. list_all2 (handled (no_reply_lost fate)) (concat (map answers ls)) js \<and>
      (\<forall>x. go_index (Counters s') x = go_index (Counters s) x + handled_delta x (concat (map answers ls)) js))"
proof -
  have agent: "run agent_step a ls r" using system_agent_run [OF assms(2)] by simp
  have "list_all (list_all good_metric) (concat (map sent_jobs ls))"
    using good_run [OF agent agent_start_good [OF assms(1)] assms(3)] by simp
  from over_lossy.retrying_run [OF assms(2,4) this] delivery_facts [OF assms(1) agent] assms(5)
  show ?thesis by (simp add: map_answers)
qed

text \<open>Every run of the agent is one of the system, with the answers the requests get.\<close>

definition same_move :: "agent_label \<Rightarrow> agent_label \<Rightarrow> bool" where
  "same_move l l' \<longleftrightarrow> l' = l \<or> (\<exists>i c e e'. l = ASent i c e \<and> l' = ASent i c e')"

lemma agent_step_answer:
  assumes "agent_step r (ASent i c e) r'"
  shows "agent_step r (ASent i c e') r'"
  using assms
proof (cases rule: agent_step.cases)
  case (step_submit expired)
  then show ?thesis by (auto simp: submit_next_def split: option.splits list.splits prod.splits submit_outcome.splits)
next
  case (step_work j err p)
  then have "j = i" "work j e' (ru_pool r) = Some (ASent i c e', p)"
    by (auto simp: work_def split: list.splits if_splits job_worker.splits)
  with agent_step.step_work [OF step_work(2) this(2)] step_work(1) show ?thesis by simp
qed

lemma system_run_of:
  "run agent_step r ls r' \<Longrightarrow> \<exists>ls' s'. run (system_step send) (r, s) ls' (r', s') \<and> list_all2 same_move ls ls'"
proof (induction rule: run.induct)
  case (run_Nil r)
  then show ?case using run.run_Nil [of "system_step send" "(r, s)"] by (intro exI [of _ "[]"] exI [of _ s]) simp
next
  case (run_snoc r ls t l u)
  then obtain ls' s1 where ls': "run (system_step send) (r, s) ls' (t, s1)" "list_all2 same_move ls ls'" by blast
  have "\<exists>l' s2. system_step send (t, s1) l' (u, s2) \<and> same_move l l'"
  proof (cases "sent_jobs l = []")
    case True
    from system_agent [OF run_snoc.hyps(2) this, of send s1] show ?thesis
      by (intro exI [of _ l] exI [of _ s1]) (simp add: same_move_def)
  next
    case False
    then obtain i c err where l: "l = ASent i c err" by (cases l) simp_all
    obtain res s2 where "send c s1 = (res, s2)" by fastforce
    from system_send [where send = send, OF agent_step_answer [OF run_snoc.hyps(2) [unfolded l]] this refl] l show ?thesis
      unfolding same_move_def by blast
  qed
  with ls' show ?case by (blast intro: run.run_snoc list_all2_appendI list_all2_Cons [THEN iffD2] list_all2_Nil)
qed

text \<open>Every other answer is lost.\<close>

theorem system_over_lossy_network_witness:
  "\<exists>ls r k' i' s' js.
     run (system_step (lossy_sender plain_env ''10.0.0.1'' ''key'' (Some plain_pair) (\<lambda>_. plain_random)
         (\<lambda>n. if even n then ReplyLost (NetError ''reset'') else Delivered) (\<lambda>_. ctx_background) None ''key'' True None))
       (fresh_agent 2, (0, 0, New)) ls (r, (k', i', s')) \<and> ru_pc r = RunReturned \<and> ls \<noteq> [] \<and>
     list_all2 (handled False) (concat (map answers ls)) js"
proof -
  let ?fate = "\<lambda>n. if even n then ReplyLost (NetError ''reset'') else Delivered"
  let ?send = "lossy_sender plain_env ''10.0.0.1'' ''key'' (Some plain_pair) (\<lambda>_. plain_random) ?fate
    (\<lambda>_. ctx_background) None ''key'' True None"
  have start: "agent_start 1 1 2 (fresh_agent 2)" by (rule fresh_agent_start) simp
  obtain ls r where r: "run agent_step (fresh_agent 2) (APoll zero_gauges # ls) r" "ru_pc r = RunReturned"
      "list_all good_label (APoll zero_gauges # ls)"
    by (rule one_poll_run [of 2]) simp_all
  from system_run_of [OF r(1), of ?send "(0, 0, New)"] obtain ls' st where
    sys: "run (system_step ?send) (fresh_agent 2, (0, 0, New)) ls' (r, st)" "list_all2 same_move (APoll zero_gauges # ls) ls'"
    by blast
  obtain k' i' s' where st: "st = (k', i', s')" by (metis prod_cases3)
  have "list_all2 (\<lambda>l l'. good_label l \<longrightarrow> good_label l') (APoll zero_gauges # ls) ls'"
    using sys(2) by (rule list_all2_mono) (auto simp: same_move_def)
  then have "list_all good_label ls'"
    using r(3) by (auto simp: list_all_length list_all2_conv_all_nth)
  from system_over_lossy_network [OF start sys(1) [unfolded st] this plain_http_ready r(2)]
  obtain js where "list_all2 (handled (no_reply_lost ?fate)) (concat (map answers ls')) js" by blast
  moreover have "no_reply_lost ?fate = False" by (auto simp: no_reply_lost_def intro: exI [of _ 0])
  ultimately have "list_all2 (handled False) (concat (map answers ls')) js" by (simp only:)
  moreover have "ls' \<noteq> []" using sys(2) by auto
  ultimately show ?thesis using sys(1) r(2) unfolding st by blast
qed

section \<open>A lost answer\<close>

text \<open>
  C39: A lost answer counts a batch twice. When the answer to the first request is lost
  by an error the client takes for a network error and the second request is answered, \<open>SendBatch\<close>
  reports success after these two requests, and the store has the deltas of the batch twice.
\<close>

theorem lost_reply_counts_twice:
  assumes "http_ready env host ckey pub rnd skey trusted" "list_all metrics_text_ok ms" "list_all complete_metric ms"
    and "ms \<noteq> []" "ctx_err cx = None" "\<not> ctx_done cx 0"
    and "fate n = ReplyLost e" "isRetriableNetworkError e" "fate (Suc n) = Delivered"
  shows "case SendBatch (rt_codec env) (rt_mac env) (rt_gzip env) (WithPublicKey pub (NewClient host ckey)) rnd
      (lossy_link fate (http_link env mem_repo pinger skey pub auditor trusted)) cx ms (k, n, s) of
    (r, k', n', s') \<Rightarrow> r = Inr () \<and> k' = k + 2 \<and> n' = n + 2 \<and>
      (\<forall>x. go_index (Counters s') x = go_index (Counters s) x + 2 * (\<Sum>m\<leftarrow>ms. delta_for x m)) \<and>
      Gauges s' = batch_gauges ms (Gauges s)"
proof -
  have "float_codec_ok (rt_codec env)" using assms(1) by (simp add: http_ready_def)
  then obtain data where data: "marshal_list (rt_codec env) ms = Inr data"
      "rbind (json_decode_first data) (decode_slice (decode_metrics (rt_codec env))) = Inr ms"
    by (rule marshal_list_decode [OF _ assms(2)])
  note once = lossy_attempt [OF assms(1,3,4) data(2), of _ fate pinger auditor]
  let ?post = "post_attempt (rt_mac env) (WithPublicKey pub (NewClient host ckey)) rnd
      (lossy_link fate (http_link env mem_repo pinger skey pub auditor trusted)) ''/updates/''
      (json_headers @ [(''Content-Encoding'', ''gzip'')]) (rt_gzip env data) data"
  obtain t where t: "stored_times ms 1 s t" "?post (k, n, s) = (Inl e, Suc k, Suc n, t)"
    using once [of s k n] assms(7) by auto
  obtain u where u: "stored_times ms 1 t u" "?post (Suc k, Suc n, t) = (Inr (), k + 2, n + 2, u)"
    using once [of t "Suc k" "Suc n"] assms(9) by auto
  have two: "stored_times ms (1 + 1) s u" by (rule stored_times_add [OF t(1) u(1)])
  have store: "(\<forall>x. go_index (Counters u) x = go_index (Counters s) x + of_nat (1 + 1) * (\<Sum>m\<leftarrow>ms. delta_for x m)) \<and>
      Gauges u = batch_gauges ms (Gauges s)"
    using two unfolding stored_times_def by (simp add: repeated_counters repeated_gauges del: funpow.simps)
  have "client_post (rt_mac env) (WithPublicKey pub (NewClient host ckey)) rnd
      (lossy_link fate (http_link env mem_repo pinger skey pub auditor trusted)) cx ''/updates/''
      (json_headers @ [(''Content-Encoding'', ''gzip'')]) (rt_gzip env data) data (k, n, s) = (Inr (), k + 2, n + 2, u)"
    unfolding client_post_def by (rule retry_second [where fn = ?post and isr = isRetriableNetworkError, OF assms(5) t(2) assms(8,6) u(2)])
  with assms(4) data(1) store show ?thesis by (simp add: SendBatch_def)
qed

theorem lost_reply_counts_twice_witness:
  "case SendBatch (rt_codec plain_env) (rt_mac plain_env) (rt_gzip plain_env)
          (WithPublicKey (Some plain_pair) (NewClient ''10.0.0.1'' ''key'')) (\<lambda>_. plain_random)
          (lossy_link ((\<lambda>_. Delivered)(0 := ReplyLost (NetError ''reset'')))
            (http_link plain_env mem_repo None ''key'' (Some plain_pair) True None)) ctx_background [NewCounter ''a'' 5] (0, 0, New) of
     (r, k', n', s') \<Rightarrow> r = Inr () \<and> n' = 2 \<and> go_index (Counters s') ''a'' = 10"
proof -
  have live: "ctx_err ctx_background = None" "\<not> ctx_done ctx_background 0" by (simp_all add: ctx_background_def)
  let ?fate = "(\<lambda>_. Delivered)(0 := ReplyLost (NetError ''reset''))"
  have fate: "?fate 0 = ReplyLost (NetError ''reset'')" "?fate (Suc 0) = Delivered" by simp_all
  have net: "isRetriableNetworkError (NetError ''reset'')" by (simp add: isRetriableNetworkError_def)
  have empty: "go_index (Counters New) ''a'' = 0" by (simp add: New_def)
  show ?thesis
    using lost_reply_counts_twice [where pinger = None and auditor = True and s = New and k = 0,
        OF plain_http_ready one_counter live fate(1) net fate(2)]
    by (auto simp: empty delta_for_def simp del: fun_upd_apply split: prod.splits)
qed

end
