(* ===== verification/Reset_Gen.thy ===== *)
theory Reset_Gen
  imports Prelude "HOL-Library.List_Lexorder" "HOL-Library.Char_ord"
begin

text \<open>
  \<open>cmd/reset/generate.go\<close>: the generator of \<open>Reset\<close> methods. The syntax tree of a file is what
  \<open>go/parser\<close> makes of it, reduced to what the generator looks at; \<open>gofmt\<close> and the lower case of a
  letter outside ASCII are parameters.
\<close>

section \<open>Syntax trees\<close>

text \<open>The length of an array is the value of its constant expression, \<open>None\<close> for a slice.\<close>

datatype go_expr =
    Ident string
  | StarExpr go_expr
  | ArrayType "nat option" go_expr
  | MapType go_expr go_expr
  | InterfaceType
  | ChanType go_expr
  | FuncType
  | SelectorExpr go_expr string
  | IndexExpr go_expr go_expr
  | IndexListExpr go_expr "go_expr list"
  | ParenExpr go_expr
  | StructType "(string list \<times> go_expr) list"
  | OtherExpr

type_synonym go_field = "string list \<times> go_expr"
type_synonym comment_group = "string list option"

record type_spec =
  ts_name :: string
  ts_params :: "string list list option"
  ts_type :: go_expr
  ts_doc :: comment_group
  ts_comment :: comment_group

datatype go_spec = TypeSpec type_spec | OtherSpec
datatype go_decl = GenDecl bool comment_group "go_spec list" | FuncDecl

record go_file =
  gf_package :: string
  gf_decls :: "go_decl list"

record gen_env =
  ge_gofmt :: "string \<Rightarrow> string result"
  ge_lower :: "string \<Rightarrow> string"

section \<open>Finding the structures\<close>

record namedStruct =
  ns_name :: string
  ns_params :: string
  ns_fields :: "go_field list"

definition comment_marks :: "string \<Rightarrow> bool" where
  "comment_marks c =
     (let t = trim_space c;
          t = (if has_prefix t ''//'' then drop 2 t else t)
      in trim_space t = ''generate:reset'')"

definition hasGenerateReset :: "comment_group list \<Rightarrow> bool" where
  "hasGenerateReset groups =
     list_ex (\<lambda>g. case g of None \<Rightarrow> False | Some cs \<Rightarrow> list_ex comment_marks cs) groups"

fun join_comma :: "string list \<Rightarrow> string" where
  "join_comma [] = []"
| "join_comma [n] = n"
| "join_comma (n # ns) = n @ '', '' @ join_comma ns"

definition typeParamList :: "type_spec \<Rightarrow> string" where
  "typeParamList ts =
     (case ts_params ts of
        None \<Rightarrow> []
      | Some groups \<Rightarrow>
          (let names = concat groups in
           if names = [] then [] else ''['' @ join_comma names @ '']''))"

definition structs_of_spec :: "comment_group \<Rightarrow> go_spec \<Rightarrow> namedStruct list" where
  "structs_of_spec doc s =
     (case s of
        OtherSpec \<Rightarrow> []
      | TypeSpec ts \<Rightarrow>
          (case ts_type ts of
             StructType fs \<Rightarrow>
               if hasGenerateReset [doc, ts_doc ts, ts_comment ts]
               then [\<lparr>ns_name = ts_name ts, ns_params = typeParamList ts, ns_fields = fs\<rparr>]
               else []
           | _ \<Rightarrow> []))"

text \<open>The flag of a \<open>GenDecl\<close> is whether its token is \<open>type\<close>.\<close>

definition structsFromFile :: "go_file \<Rightarrow> namedStruct list" where
  "structsFromFile f =
     concat (map (\<lambda>d. case d of
                    GenDecl True doc specs \<Rightarrow> concat (map (structs_of_spec doc) specs)
                  | _ \<Rightarrow> []) (gf_decls f))"

section \<open>Statements\<close>

datatype stmt =
  Stmt (st_kind: string) (st_path: string) (st_value: string) (st_addr: string) (st_inner: "stmt list")

definition zeroByType :: "string \<Rightarrow> string option" where
  "zeroByType = map_of
     [(''bool'', ''false''), (''int'', ''0''), (''int8'', ''0''), (''int16'', ''0''), (''int32'', ''0''),
      (''int64'', ''0''), (''uint'', ''0''), (''uint8'', ''0''), (''uint16'', ''0''), (''uint32'', ''0''),
      (''uint64'', ''0''), (''uintptr'', ''0''), (''float32'', ''0''), (''float64'', ''0''),
      (''complex64'', ''0''), (''complex128'', ''0''), (''byte'', ''0''), (''rune'', ''0''),
      (''string'', [CHR 0x22, CHR 0x22]), (''error'', ''nil''), (''any'', ''nil'')]"

fun unwrap :: "go_expr \<Rightarrow> go_expr" where
  "unwrap (ParenExpr x) = unwrap x"
| "unwrap e = e"

lemma size_unwrap [simp]: "size (unwrap e) \<le> size e"
  by (induction e rule: unwrap.induct) simp_all

lemma unwrap_unwrap [simp]: "unwrap (unwrap e) = unwrap e"
  by (induction e rule: unwrap.induct) simp_all

definition callReset :: "string \<Rightarrow> stmt" where
  "callReset addr = Stmt ''callReset'' [] [] addr []"

definition astIdentName :: "go_expr \<Rightarrow> string" where
  "astIdentName e = (case unwrap e of Ident n \<Rightarrow> n | _ \<Rightarrow> [])"

definition assign_stmt :: "string \<Rightarrow> string \<Rightarrow> stmt" where
  "assign_stmt path v = Stmt ''assign'' path v [] []"

definition ptr_stmt :: "string \<Rightarrow> stmt list \<Rightarrow> stmt" where
  "ptr_stmt path inner = Stmt ''ptr'' path [] [] inner"

text \<open>The zero value of a predeclared type, looking through parentheses.\<close>

definition basic_zero :: "go_expr \<Rightarrow> string option" where
  "basic_zero e = (case unwrap e of Ident n \<Rightarrow> zeroByType n | _ \<Rightarrow> None)"

function buildStmts :: "string \<Rightarrow> go_expr \<Rightarrow> stmt list" where
  "buildStmts path typ =
     (case unwrap typ of
        Ident n \<Rightarrow>
          (case zeroByType n of
             Some z \<Rightarrow> [assign_stmt path z]
           | None \<Rightarrow> [callReset (''&'' @ path)])
      | StarExpr x \<Rightarrow>
          (case basic_zero x of
             Some z \<Rightarrow> [ptr_stmt path [assign_stmt (''*'' @ path) z]]
           | None \<Rightarrow> [ptr_stmt path [callReset path]])
      | ArrayType None elt \<Rightarrow> [assign_stmt path (path @ ''[:0]'')]
      | ArrayType (Some n) elt \<Rightarrow> [Stmt ''array'' path [] [] (buildStmts (path @ ''[i]'') elt)]
      | MapType k v \<Rightarrow> [Stmt ''clear'' path [] [] []]
      | InterfaceType \<Rightarrow> [Stmt ''ifaceReset'' path [] [] []]
      | ChanType t \<Rightarrow> [assign_stmt path ''nil'']
      | FuncType \<Rightarrow> [assign_stmt path ''nil'']
      | SelectorExpr x sel \<Rightarrow>
          (if astIdentName x = ''unsafe'' \<and> sel = ''Pointer'' then [assign_stmt path ''nil'']
           else [callReset (''&'' @ path)])
      | _ \<Rightarrow> [callReset (''&'' @ path)])"
  by auto
termination
proof (relation "measure (\<lambda>(path, typ). size typ)")
  fix path :: string and ty elt :: go_expr and n :: "nat option"
  assume "unwrap ty = ArrayType n elt"
  with size_unwrap [of ty] show "((path @ ''[i]'', elt), (path, ty)) \<in> measure (\<lambda>(path, typ). size typ)"
    by simp
qed simp

declare buildStmts.simps [simp del]

section \<open>Methods\<close>

record methodData =
  md_recv :: string
  md_type :: string
  md_params :: string
  md_stmts :: "stmt list"

definition ascii_lower :: "char \<Rightarrow> char" where
  "ascii_lower c = (if 65 \<le> (of_char c :: nat) \<and> (of_char c :: nat) \<le> 90 then char_of ((of_char c :: nat) + 32) else c)"

text \<open>The lower case of the first letter; \<open>ge_lower\<close> gives it for a name that starts outside ASCII.\<close>

definition receiverName :: "gen_env \<Rightarrow> string \<Rightarrow> string" where
  "receiverName env n =
     (case n of [] \<Rightarrow> ''s''
      | c # _ \<Rightarrow> if (of_char c :: nat) < 128 then [ascii_lower c] else ge_lower env n)"

function embeddedName :: "go_expr \<Rightarrow> string" where
  "embeddedName e =
     (case unwrap e of
        Ident n \<Rightarrow> n
      | StarExpr x \<Rightarrow> embeddedName x
      | SelectorExpr x sel \<Rightarrow> sel
      | IndexExpr x i \<Rightarrow> embeddedName x
      | IndexListExpr x is \<Rightarrow> embeddedName x
      | _ \<Rightarrow> [])"
  by auto
termination
proof (relation "measure size")
  fix e x
  assume "unwrap e = StarExpr x"
  with size_unwrap [of e] show "(x, e) \<in> measure size" by simp
next
  fix e x i
  assume "unwrap e = IndexExpr x i"
  with size_unwrap [of e] show "(x, e) \<in> measure size" by simp
next
  fix e x "is"
  assume "unwrap e = IndexListExpr x is"
  with size_unwrap [of e] show "(x, e) \<in> measure size" by simp
qed simp

declare embeddedName.simps [simp del]

definition fieldNames :: "go_field \<Rightarrow> string list" where
  "fieldNames field =
     (case field of (names, typ) \<Rightarrow>
        if names \<noteq> [] then filter (\<lambda>n. n \<noteq> ''_'') names
        else if embeddedName typ \<noteq> [] then [embeddedName typ]
        else [])"

definition buildMethod :: "gen_env \<Rightarrow> namedStruct \<Rightarrow> methodData" where
  "buildMethod env st =
     (let recv = receiverName env (ns_name st) in
      \<lparr>md_recv = recv, md_type = ns_name st, md_params = ns_params st,
       md_stmts = concat (map (\<lambda>(names, typ).
          concat (map (\<lambda>n. buildStmts (recv @ ''.'' @ n) typ) (fieldNames (names, typ)))) (ns_fields st))\<rparr>)"

section \<open>Rendering\<close>

definition nl :: string where "nl = [CHR 0x0A]"
definition tab :: string where "tab = [CHR 0x09]"

text \<open>The template \<open>stmt\<close>: an unknown kind renders as nothing.\<close>

fun render_stmt :: "stmt \<Rightarrow> string" where
  "render_stmt (Stmt kind path v addr inner) =
     (let body = concat (map render_stmt inner);
          call = tab @ ''resetter.Reset()'' @ nl @ ''}'' @ nl
      in if kind = ''assign'' then path @ '' = '' @ v @ nl
         else if kind = ''clear'' then ''clear('' @ path @ '')'' @ nl
         else if kind = ''ptr'' then ''if '' @ path @ '' != nil {'' @ nl @ body @ ''}'' @ nl
         else if kind = ''array'' then ''for i := range '' @ path @ '' {'' @ nl @ body @ ''}'' @ nl
         else if kind = ''callReset'' then
           ''if resetter, ok := any('' @ addr @ '').(interface{ Reset() }); ok {'' @ nl @ call
         else if kind = ''ifaceReset'' then
           ''if resetter, ok := '' @ path @ ''.(interface{ Reset() }); ok && '' @ path @ '' != nil {'' @ nl @ call
         else [])"

definition render_method :: "methodData \<Rightarrow> string" where
  "render_method m =
     ''func ('' @ md_recv m @ '' *'' @ md_type m @ md_params m @ '') Reset() {'' @ nl @
     tab @ ''if '' @ md_recv m @ '' == nil {'' @ nl @ tab @ tab @ ''return'' @ nl @ tab @ ''}'' @ nl @
     concat (map render_stmt (md_stmts m)) @ ''}''"

definition render_file :: "string \<Rightarrow> methodData list \<Rightarrow> string" where
  "render_file package methods =
     ''// Code generated by cmd/reset; DO NOT EDIT.'' @ nl @ nl @ ''package '' @ package @ nl @
     concat (map (\<lambda>m. nl @ render_method m @ nl) methods)"

definition generateFile :: "gen_env \<Rightarrow> string \<Rightarrow> namedStruct list \<Rightarrow> string result" where
  "generateFile env pkgName structs =
     (let text = render_file pkgName (map (buildMethod env) structs)
      in wrap_err ''gofmt'' (ge_gofmt env text))"

text \<open>\<open>None\<close> is the nil slice: nothing to generate.\<close>

definition generateFromSource :: "gen_env \<Rightarrow> go_file result \<Rightarrow> string option result" where
  "generateFromSource env parsed =
     rbind parsed (\<lambda>f.
       let structs = structsFromFile f in
       if structs = [] then Inr None
       else rbind (generateFile env (gf_package f) structs) (\<lambda>text. Inr (Some text)))"

end
