(* ===== verification/Reset_Specs.thy ===== *)
theory Reset_Specs
  imports Reset_Gen
begin

text \<open>
  What the generated methods do. The statements of the generator are texts; their structured form
  \<open>gcode\<close> renders to the same texts and has a semantics: paths are read in the current value of the
  loop variable \<open>i\<close>, which every generated loop declares anew. What \<open>Reset\<close> does to a value of a type that
  is not predeclared is a parameter, the identity for a type without it.
\<close>

section \<open>Structured statements\<close>

datatype gpath = PField string | PIndex gpath

fun path_text :: "string \<Rightarrow> gpath \<Rightarrow> string" where
  "path_text recv (PField f) = recv @ ''.'' @ f"
| "path_text recv (PIndex p) = path_text recv p @ ''[i]''"

datatype gstmt =
    GAssign gpath string
  | GDeref gpath string
  | GTrunc gpath
  | GClear gpath
  | GCallAddr gpath
  | GCallPtr gpath
  | GIface gpath
  | GLoop gpath "gstmt list"

fun gen_text :: "string \<Rightarrow> gstmt \<Rightarrow> stmt" where
  "gen_text recv (GAssign p z) = assign_stmt (path_text recv p) z"
| "gen_text recv (GDeref p z) = ptr_stmt (path_text recv p) [assign_stmt (''*'' @ path_text recv p) z]"
| "gen_text recv (GTrunc p) = assign_stmt (path_text recv p) (path_text recv p @ ''[:0]'')"
| "gen_text recv (GClear p) = Stmt ''clear'' (path_text recv p) [] [] []"
| "gen_text recv (GCallAddr p) = callReset (''&'' @ path_text recv p)"
| "gen_text recv (GCallPtr p) = ptr_stmt (path_text recv p) [callReset (path_text recv p)]"
| "gen_text recv (GIface p) = Stmt ''ifaceReset'' (path_text recv p) [] [] []"
| "gen_text recv (GLoop p body) = Stmt ''array'' (path_text recv p) [] [] (map (gen_text recv) body)"

text \<open>The statement for a type that is not an array.\<close>

definition leaf :: "gpath \<Rightarrow> go_expr \<Rightarrow> gstmt" where
  "leaf p e =
     (case unwrap e of
        Ident n \<Rightarrow> (case zeroByType n of Some z \<Rightarrow> GAssign p z | None \<Rightarrow> GCallAddr p)
      | StarExpr x \<Rightarrow> (case basic_zero x of Some z \<Rightarrow> GDeref p z | None \<Rightarrow> GCallPtr p)
      | ArrayType None elt \<Rightarrow> GTrunc p
      | MapType k v \<Rightarrow> GClear p
      | InterfaceType \<Rightarrow> GIface p
      | ChanType t \<Rightarrow> GAssign p ''nil''
      | FuncType \<Rightarrow> GAssign p ''nil''
      | SelectorExpr x sel \<Rightarrow>
          (if astIdentName x = ''unsafe'' \<and> sel = ''Pointer'' then GAssign p ''nil'' else GCallAddr p)
      | _ \<Rightarrow> GCallAddr p)"

definition array_of :: "go_expr \<Rightarrow> (nat \<times> go_expr) option" where
  "array_of e = (case unwrap e of ArrayType (Some n) elt \<Rightarrow> Some (n, elt) | _ \<Rightarrow> None)"

lemma array_of_size: "array_of e = Some (n, elt) \<Longrightarrow> size elt < size e"
proof -
  assume "array_of e = Some (n, elt)"
  then have "unwrap e = ArrayType (Some n) elt" by (auto simp: array_of_def split: go_expr.splits option.splits)
  with size_unwrap [of e] show ?thesis by simp
qed

function gcode :: "gpath \<Rightarrow> go_expr \<Rightarrow> gstmt" where
  "gcode p e =
     (case array_of e of
        Some (n, elt) \<Rightarrow> GLoop p [gcode (PIndex p) elt]
      | None \<Rightarrow> leaf p e)"
  by auto
termination by (relation "measure (\<lambda>(p, e). size e)") (auto dest: array_of_size)

declare gcode.simps [simp del]

lemma buildStmts_array: "array_of e = Some (n, elt) \<Longrightarrow>
    buildStmts path e = [Stmt ''array'' path [] [] (buildStmts (path @ ''[i]'') elt)]"
  by (subst buildStmts.simps) (auto simp: array_of_def split: go_expr.splits option.splits)

lemma buildStmts_leaf: "array_of e = None \<Longrightarrow> buildStmts (path_text recv p) e = [gen_text recv (leaf p e)]"
  by (subst buildStmts.simps) (auto simp: array_of_def leaf_def split: go_expr.splits option.splits)

text \<open>The statements of the generator are the texts of the structured ones.\<close>

lemma buildStmts_gcode: "buildStmts (path_text recv p) e = [gen_text recv (gcode p e)]"
proof (induction p e rule: gcode.induct)
  case (1 p e)
  show ?case
  proof (cases "array_of e")
    case None
    then show ?thesis by (subst gcode.simps) (simp add: buildStmts_leaf)
  next
    case (Some a)
    obtain n elt where a: "a = (n, elt)" by (cases a)
    have "buildStmts (path_text recv (PIndex p)) elt = [gen_text recv (gcode (PIndex p) elt)]"
      using 1 Some a by blast
    then show ?thesis using Some a by (subst gcode.simps) (simp add: buildStmts_array)
  qed
qed

definition struct_fields :: "go_field list \<Rightarrow> (string \<times> go_expr) list" where
  "struct_fields fs = concat (map (\<lambda>(ns, t). map (\<lambda>n. (n, t)) (fieldNames (ns, t))) fs)"

definition struct_code :: "go_field list \<Rightarrow> gstmt list" where
  "struct_code fs = map (\<lambda>(n, t). gcode (PField n) t) (struct_fields fs)"

lemma buildMethod_code:
  "md_stmts (buildMethod env st) =
     map (gen_text (receiverName env (ns_name st))) (struct_code (ns_fields st))"
proof -
  have "concat (map (\<lambda>n. buildStmts (recv @ ''.'' @ n) t) ns) =
      map (gen_text recv) (map (\<lambda>(n, t). gcode (PField n) t) (map (\<lambda>n. (n, t)) ns))" for recv t ns
    using buildStmts_gcode [of recv "PField _" t] by (induction ns) simp_all
  then have "concat (map (\<lambda>(names, t). concat (map (\<lambda>n. buildStmts (recv @ ''.'' @ n) t) (fieldNames (names, t)))) fs) =
      map (gen_text recv) (map (\<lambda>(n, t). gcode (PField n) t) (struct_fields fs))" for recv fs
    by (induction fs) (auto simp: struct_fields_def)
  then show ?thesis by (simp add: buildMethod_def Let_def struct_code_def)
qed

section \<open>Semantics\<close>

text \<open>A basic value is the literal it was assigned, as \<open>0\<close>, \<open>false\<close> or \<open>nil\<close>, or any other text.\<close>

datatype gval =
    VBasic string
  | VSlice "gval list"
  | VMap "(string \<times> gval) list"
  | VPtr "gval option"
  | VArr "gval list"
  | VIface "gval option"
  | VObj string

type_synonym gstore = "string \<Rightarrow> gval"

fun gget :: "gpath \<Rightarrow> nat \<Rightarrow> gstore \<Rightarrow> gval option" where
  "gget (PField f) i s = Some (s f)"
| "gget (PIndex p) i s =
     (case gget p i s of
        Some (VArr xs) \<Rightarrow> if i < length xs then Some (xs ! i) else None
      | _ \<Rightarrow> None)"

fun gupd :: "gpath \<Rightarrow> nat \<Rightarrow> (gval \<Rightarrow> gval option) \<Rightarrow> gstore \<Rightarrow> gstore option" where
  "gupd (PField f) i g s = map_option (\<lambda>v. s(f := v)) (g (s f))"
| "gupd (PIndex p) i g s =
     gupd p i (\<lambda>v. case v of
                 VArr xs \<Rightarrow> if i < length xs then map_option (\<lambda>y. VArr (xs[i := y])) (g (xs ! i)) else None
               | _ \<Rightarrow> None) s"

fun seq :: "('s \<Rightarrow> 's option) list \<Rightarrow> 's \<Rightarrow> 's option" where
  "seq [] s = Some s"
| "seq (f # fs) s = Option.bind (f s) (seq fs)"

lemma seq_append: "seq (fs @ gs) s = Option.bind (seq fs s) (seq gs)"
  by (induction fs arbitrary: s) (simp_all split: Option.bind_split)

text \<open>An index out of range panics: \<open>None\<close>.\<close>

fun exec :: "(gval \<Rightarrow> gval) \<Rightarrow> nat \<Rightarrow> gstmt \<Rightarrow> gstore \<Rightarrow> gstore option" where
  "exec rst i (GAssign p z) s = gupd p i (\<lambda>_. Some (VBasic z)) s"
| "exec rst i (GDeref p z) s =
     gupd p i (\<lambda>v. case v of VPtr o' \<Rightarrow> Some (VPtr (map_option (\<lambda>_. VBasic z) o')) | _ \<Rightarrow> None) s"
| "exec rst i (GTrunc p) s = gupd p i (\<lambda>v. case v of VSlice _ \<Rightarrow> Some (VSlice []) | _ \<Rightarrow> None) s"
| "exec rst i (GClear p) s = gupd p i (\<lambda>v. case v of VMap _ \<Rightarrow> Some (VMap []) | _ \<Rightarrow> None) s"
| "exec rst i (GCallAddr p) s = gupd p i (\<lambda>v. Some (rst v)) s"
| "exec rst i (GCallPtr p) s =
     gupd p i (\<lambda>v. case v of VPtr o' \<Rightarrow> Some (VPtr (map_option rst o')) | _ \<Rightarrow> None) s"
| "exec rst i (GIface p) s =
     gupd p i (\<lambda>v. case v of VIface o' \<Rightarrow> Some (VIface (map_option rst o')) | _ \<Rightarrow> None) s"
| "exec rst i (GLoop p body) s =
     (case gget p i s of
        Some (VArr xs) \<Rightarrow> seq (concat (map (\<lambda>k. map (exec rst k) body) [0..<length xs])) s
      | _ \<Rightarrow> None)"

section \<open>The value a field should have\<close>

definition leaf_ok :: "go_expr \<Rightarrow> gval \<Rightarrow> bool" where
  "leaf_ok e v =
     (case unwrap e of
        StarExpr x \<Rightarrow> (case v of VPtr _ \<Rightarrow> True | _ \<Rightarrow> False)
      | ArrayType None elt \<Rightarrow> (case v of VSlice _ \<Rightarrow> True | _ \<Rightarrow> False)
      | MapType k t \<Rightarrow> (case v of VMap _ \<Rightarrow> True | _ \<Rightarrow> False)
      | InterfaceType \<Rightarrow> (case v of VIface _ \<Rightarrow> True | _ \<Rightarrow> False)
      | _ \<Rightarrow> True)"

text \<open>The documented effect on a value that is not an array.\<close>

definition leaf_reset :: "(gval \<Rightarrow> gval) \<Rightarrow> go_expr \<Rightarrow> gval \<Rightarrow> gval" where
  "leaf_reset rst e v =
     (case (unwrap e, v) of
        (Ident n, _) \<Rightarrow> (case zeroByType n of Some z \<Rightarrow> VBasic z | None \<Rightarrow> rst v)
      | (StarExpr x, VPtr (Some w)) \<Rightarrow>
          VPtr (Some (case basic_zero x of Some z \<Rightarrow> VBasic z | None \<Rightarrow> rst w))
      | (StarExpr x, _) \<Rightarrow> v
      | (ArrayType None elt, _) \<Rightarrow> VSlice []
      | (MapType k t, _) \<Rightarrow> VMap []
      | (InterfaceType, VIface (Some w)) \<Rightarrow> VIface (Some (rst w))
      | (InterfaceType, _) \<Rightarrow> v
      | (ChanType t, _) \<Rightarrow> VBasic ''nil''
      | (FuncType, _) \<Rightarrow> VBasic ''nil''
      | (SelectorExpr x sel, _) \<Rightarrow>
          (if astIdentName x = ''unsafe'' \<and> sel = ''Pointer'' then VBasic ''nil'' else rst v)
      | _ \<Rightarrow> rst v)"

function val_ok :: "go_expr \<Rightarrow> gval \<Rightarrow> bool" where
  "val_ok e v =
     (case array_of e of
        Some (n, elt) \<Rightarrow> (case v of VArr xs \<Rightarrow> length xs = n \<and> list_all (val_ok elt) xs | _ \<Rightarrow> False)
      | None \<Rightarrow> leaf_ok e v)"
  by auto
termination by (relation "measure (\<lambda>(e, v). size e)") (auto dest: array_of_size)

declare val_ok.simps [simp del]

function reset_value :: "(gval \<Rightarrow> gval) \<Rightarrow> go_expr \<Rightarrow> gval \<Rightarrow> gval" where
  "reset_value rst e v =
     (case array_of e of
        Some (n, elt) \<Rightarrow> (case v of VArr xs \<Rightarrow> VArr (map (reset_value rst elt) xs) | _ \<Rightarrow> v)
      | None \<Rightarrow> leaf_reset rst e v)"
  by auto
termination by (relation "measure (\<lambda>(rst, e, v). size e)") (auto dest: array_of_size)

declare reset_value.simps [simp del]

text \<open>No array of arrays.\<close>

definition flat_array :: "go_expr \<Rightarrow> bool" where
  "flat_array e = (case array_of e of Some (n, elt) \<Rightarrow> array_of elt = None | None \<Rightarrow> True)"

section \<open>One field\<close>

lemma gupd_cong: "(\<And>v. gget p i s = Some v \<Longrightarrow> g v = h v) \<Longrightarrow> gupd p i g s = gupd p i h s"
proof (induction p arbitrary: g h)
  case (PIndex p)
  have "g (xs ! i) = h (xs ! i)" if "gget p i s = Some (VArr xs)" "i < length xs" for xs
    using that by (intro PIndex.prems) simp
  then show ?case unfolding gupd.simps by (intro PIndex.IH) (auto split: gval.splits)
qed simp

lemma exec_leaf:
  assumes "array_of e = None" "\<And>v. gget p i s = Some v \<Longrightarrow> leaf_ok e v"
  shows "exec rst i (leaf p e) s = gupd p i (\<lambda>v. Some (leaf_reset rst e v)) s"
  using assms
  by (auto simp: array_of_def leaf_def leaf_ok_def leaf_reset_def split: go_expr.splits option.splits gval.splits
      intro!: gupd_cong)

text \<open>A loop whose states are known runs through them.\<close>

lemma seq_loop:
  "(\<And>k. a \<le> k \<Longrightarrow> k < n \<Longrightarrow> step k (F k) = Some (F (Suc k))) \<Longrightarrow> a \<le> n \<Longrightarrow>
   seq (map step [a..<n]) (F a) = Some (F n)"
proof (induction "n - a" arbitrary: a)
  case (Suc m)
  then have "[a..<n] = a # [Suc a..<n]" by (simp add: upt_conv_Cons)
  with Suc show ?case by simp
qed simp

lemma concat_single [simp]: "concat (map (\<lambda>k. [g k]) ks) = map g ks"
  by (induction ks) simp_all

lemma field_reset:
  assumes "flat_array e" "val_ok e (s f)"
  shows "exec rst i (gcode (PField f) e) s = Some (s(f := reset_value rst e (s f)))"
proof (cases "array_of e")
  case None
  then have "leaf_ok e (s f)" using assms(2) by (subst (asm) val_ok.simps) simp
  then have "exec rst i (leaf (PField f) e) s = gupd (PField f) i (\<lambda>v. Some (leaf_reset rst e v)) s"
    using None by (intro exec_leaf) simp_all
  with None show ?thesis by (subst gcode.simps, subst reset_value.simps) simp
next
  case (Some a)
  then obtain n elt where a: "array_of e = Some (n, elt)" by (cases a) simp
  then have elt: "array_of elt = None" using assms(1) by (simp add: flat_array_def)
  obtain xs where xs: "s f = VArr xs" "length xs = n" "list_all (val_ok elt) xs"
    using assms(2) a by (subst (asm) val_ok.simps) (auto split: gval.splits)
  have ok: "leaf_ok elt (xs ! k)" if "k < n" for k
    using xs(2,3) that elt by (subst (asm) list_all_length, subst (asm) val_ok.simps) simp
  define F where "F k = s(f := VArr (take k (map (leaf_reset rst elt) xs) @ drop k xs))" for k
  have nth: "(take k (map (leaf_reset rst elt) xs) @ drop k xs) ! k = xs ! k" if "k < n" for k
    using that xs(2) by (simp add: nth_append)
  have step: "exec rst k (leaf (PIndex (PField f)) elt) (F k) = Some (F (Suc k))" if "k < n" for k
  proof -
    have "exec rst k (leaf (PIndex (PField f)) elt) (F k) =
        gupd (PIndex (PField f)) k (\<lambda>v. Some (leaf_reset rst elt v)) (F k)"
      using elt ok [OF that] that xs(2) nth by (intro exec_leaf) (simp_all add: F_def min_def)
    also have "\<dots> = Some (F (Suc k))"
      using that xs(2) nth
      by (simp add: F_def min_def list_update_append take_Suc_conv_app_nth Cons_nth_drop_Suc [symmetric])
    finally show ?thesis .
  qed
  have F: "F 0 = s" "F n = s(f := VArr (map (leaf_reset rst elt) xs))"
    using xs(1,2) by (simp_all add: F_def fun_upd_idem)
  have "reset_value rst elt = leaf_reset rst elt" using elt by (simp add: fun_eq_iff reset_value.simps)
  moreover have "exec rst i (gcode (PField f) e) s = seq (map (\<lambda>k. exec rst k (leaf (PIndex (PField f)) elt)) [0..<n]) s"
    using a elt xs(1,2) by (simp add: gcode.simps)
  moreover have "\<dots> = Some (F n)" using seq_loop [of 0 n _ F] step F(1) by simp
  ultimately show ?thesis using a xs(1) F(2) by (simp add: reset_value.simps [of rst e])
qed

section \<open>All fields\<close>

lemma struct_reset:
  assumes "distinct (map fst fs)" "list_all (\<lambda>(n, t). flat_array t \<and> val_ok t (s n)) fs"
  shows "seq (map (exec rst i) (map (\<lambda>(n, t). gcode (PField n) t) fs)) s =
    Some (\<lambda>n. case map_of fs n of Some t \<Rightarrow> reset_value rst t (s n) | None \<Rightarrow> s n)"
  using assms
proof (induction fs arbitrary: s)
  case (Cons x fs)
  obtain n t where x: "x = (n, t)" by (cases x)
  let ?s = "s(n := reset_value rst t (s n))"
  have "exec rst i (gcode (PField n) t) s = Some ?s" using Cons.prems(2) x by (intro field_reset) simp_all
  moreover have "list_all (\<lambda>(m, u). flat_array u \<and> val_ok u (?s m)) fs"
  proof -
    have "m \<noteq> n" if "(m, u) \<in> set fs" for m u using Cons.prems(1) x that by force
    with Cons.prems(2) show ?thesis by (auto simp: list_all_iff)
  qed
  then have "seq (map (exec rst i) (map (\<lambda>(n, t). gcode (PField n) t) fs)) ?s =
      Some (\<lambda>m. case map_of fs m of Some u \<Rightarrow> reset_value rst u (?s m) | None \<Rightarrow> ?s m)"
    using Cons.prems(1) by (intro Cons.IH) (simp_all add: x)
  moreover have "map_of fs n = None" using Cons.prems(1) x by (simp add: map_of_eq_None_iff)
  ultimately show ?case using x by (auto simp: fun_eq_iff split: option.split)
qed simp

section \<open>Arrays of arrays\<close>

definition diag :: "gval \<Rightarrow> nat \<Rightarrow> gval list list \<Rightarrow> gval list list" where
  "diag z k rows = map (\<lambda>j. if j < k then (rows ! j)[j := z] else rows ! j) [0..<length rows]"

lemma length_diag [simp]: "length (diag z k rows) = length rows"
  by (simp add: diag_def)

lemma diag_nth: "j < length rows \<Longrightarrow> diag z k rows ! j = (if j < k then (rows ! j)[j := z] else rows ! j)"
  by (simp add: diag_def)

lemma diag_0 [simp]: "diag z 0 rows = rows"
  by (simp add: diag_def map_nth)

lemma diag_Suc: "k < length rows \<Longrightarrow> (diag z k rows)[k := (rows ! k)[k := z]] = diag z (Suc k) rows"
  by (intro nth_equalityI) (auto simp: diag_nth nth_list_update less_Suc_eq)

lemma diag_diag [simp]: "diag z k (diag z k rows) = diag z k rows"
  by (intro nth_equalityI) (auto simp: diag_nth)

lemma diag_lengths: "list_all (\<lambda>r. length r = m) rows \<Longrightarrow> list_all (\<lambda>r. length r = m) (diag z k rows)"
  by (auto simp: list_all_length diag_nth)

text \<open>One run of the inner loop: it indexes both dimensions with its own variable.\<close>

lemma inner_step:
  assumes "s f = VArr (map VArr rows)"
  shows "gupd (PIndex (PIndex (PField f))) k (\<lambda>_. Some z) s =
    (if k < length rows \<and> k < length (rows ! k)
     then Some (s(f := VArr (map VArr (rows[k := (rows ! k)[k := z]])))) else None)"
  using assms by (simp add: map_update)

lemma inner_loop:
  assumes "s f = VArr (map VArr rows)" "list_all (\<lambda>r. length r = m) rows"
  shows "seq (map (\<lambda>k. gupd (PIndex (PIndex (PField f))) k (\<lambda>_. Some z)) [0..<m]) s =
    (if m \<le> length rows then Some (s(f := VArr (map VArr (diag z m rows)))) else None)"
proof -
  let ?step = "\<lambda>k. gupd (PIndex (PIndex (PField f))) k (\<lambda>_. Some z)"
  define F where "F k = s(f := VArr (map VArr (diag z k rows)))" for k
  have len: "length (rows ! k) = m" if "k < length rows" for k
    using assms(2) that by (simp add: list_all_length)
  have step: "?step k (F k) = Some (F (Suc k))" if "k < length rows" "k < m" for k
    using that len by (subst inner_step [of "F k" f "diag z k rows"]) (simp_all add: F_def diag_nth diag_Suc)
  have F0: "F 0 = s" using assms(1) by (simp add: F_def fun_upd_idem)
  show ?thesis
  proof (cases "m \<le> length rows")
    case True
    then show ?thesis using seq_loop [of 0 m ?step F] step F0 by (simp add: F_def)
  next
    case False
    let ?n = "length rows"
    have "[0..<m] = [0..<?n] @ ?n # [Suc ?n..<m]"
      using False upt_add_eq_append [of 0 ?n "m - ?n"] by (simp add: upt_conv_Cons)
    moreover have "seq (map ?step [0..<?n]) s = Some (F ?n)"
      using seq_loop [of 0 ?n ?step F] step F0 False by simp
    moreover have "?step ?n (F ?n) = None"
      by (subst inner_step [of "F ?n" f "diag z ?n rows"]) (simp_all add: F_def)
    ultimately show ?thesis using False by (simp add: seq_append del: gupd.simps)
  qed
qed

lemma exec_assign: "exec rst k (GAssign p z) = gupd p k (\<lambda>_. Some (VBasic z))"
  by (simp add: fun_eq_iff)

lemma nested_reset:
  assumes "array_of e = Some (n, r)" "array_of r = Some (m, elt)" "basic_zero elt = Some z"
    "s f = VArr (map VArr rows)" "length rows = n" "list_all (\<lambda>r. length r = m) rows"
  shows "exec rst i (gcode (PField f) e) s =
    (if n = 0 \<or> m \<le> n then Some (s(f := VArr (map VArr (diag (VBasic z) m rows)))) else None)"
proof -
  let ?Z = "VBasic z" and ?p = "PIndex (PIndex (PField f))"
  let ?inner = "seq (map (\<lambda>k. gupd ?p k (\<lambda>_. Some ?Z)) [0..<m])"
  obtain b where elt: "unwrap elt = Ident b" "zeroByType b = Some z"
    using assms(3) by (auto simp: basic_zero_def split: go_expr.splits)
  then have "array_of elt = None" "leaf ?p elt = GAssign ?p z" by (simp_all add: array_of_def leaf_def)
  then have code: "gcode (PField f) e = GLoop (PField f) [GLoop (PIndex (PField f)) [GAssign ?p z]]"
    using assms(1,2) by (simp add: gcode.simps)
  have row: "exec rst k (GLoop (PIndex (PField f)) [GAssign ?p z]) t = ?inner t"
    if "t f = VArr (map VArr rs)" "length rs = n" "list_all (\<lambda>r. length r = m) rs" "k < n" for k t rs
    using that by (simp add: list_all_length exec_assign del: gupd.simps)
  have run: "exec rst i (gcode (PField f) e) s =
      seq (map (\<lambda>k. exec rst k (GLoop (PIndex (PField f)) [GAssign ?p z])) [0..<n]) s"
    using assms(4,5) by (simp add: code del: gupd.simps)
  define F where "F k = (if k = 0 then s else s(f := VArr (map VArr (diag ?Z m rows))))" for k :: nat
  show ?thesis
  proof (cases "n = 0 \<or> m \<le> n")
    case True
    have "exec rst k (GLoop (PIndex (PField f)) [GAssign ?p z]) (F k) = Some (F (Suc k))" if "k < n" for k
    proof (cases "k = 0")
      case k: True
      have "?inner s = Some (F (Suc k))"
        using True that assms by (subst inner_loop [of s f rows m]) (simp_all add: F_def)
      with row [of s rows k] assms that k show ?thesis by (simp add: F_def)
    next
      case False
      let ?d = "diag ?Z m rows"
      have "?inner (F k) = Some (F (Suc k))"
        using True that assms False by (subst inner_loop [of "F k" f ?d m]) (simp_all add: F_def diag_lengths)
      with row [of "F k" ?d k] assms that False show ?thesis by (simp add: F_def diag_lengths)
    qed
    then have "seq (map (\<lambda>k. exec rst k (GLoop (PIndex (PField f)) [GAssign ?p z])) [0..<n]) (F 0) = Some (F n)"
      by (intro seq_loop) simp_all
    then show ?thesis using run True assms(4,5) by (auto simp: F_def fun_upd_idem diag_def)
  next
    case False
    then have "[0..<n] = 0 # [1..<n]" by (simp add: upt_conv_Cons)
    moreover have "?inner s = None" using False assms by (subst inner_loop [of s f rows m]) simp_all
    ultimately show ?thesis using run row [of s rows 0] assms False by (simp del: exec.simps gupd.simps)
  qed
qed

section \<open>The generated method\<close>


definition sample_fields :: "go_field list" where
  "sample_fields =
     [([''a'', ''_''], Ident ''int''), ([''p''], StarExpr (Ident ''string'')),
      ([''v''], ArrayType (Some 2) (Ident ''bool'')), ([], StarExpr (SelectorExpr (Ident ''m'') ''Node''))]"

definition sample_struct :: namedStruct where
  "sample_struct = \<lparr>ns_name = ''Sample'', ns_params = [], ns_fields = sample_fields\<rparr>"

definition sample_store :: gstore where
  "sample_store =
     (\<lambda>_. VObj ''x'')(''a'' := VBasic ''7'', ''p'' := VPtr (Some (VBasic ''b'')),
       ''v'' := VArr [VBasic ''true'', VBasic ''true''], ''Node'' := VPtr None)"

lemma sample_struct_fields:
  "struct_fields sample_fields =
     [(''a'', Ident ''int''), (''p'', StarExpr (Ident ''string'')), (''v'', ArrayType (Some 2) (Ident ''bool'')),
      (''Node'', StarExpr (SelectorExpr (Ident ''m'') ''Node''))]"
  by (simp add: sample_fields_def struct_fields_def fieldNames_def embeddedName.simps)


text \<open>
  An array of arrays is not reset. The generated loops all use the variable \<open>i\<close>, so that for a
  field of type \<open>[n][m]T\<close> the inner statement reads \<open>f[i][i]\<close>: when \<open>m\<close> is at most \<open>n\<close> only the
  diagonal is set to zero and every other element keeps its value, and when \<open>m\<close> is larger than a positive
  \<open>n\<close> the method panics.
\<close>

theorem nested_array_reset:
  assumes "array_of e = Some (n, r)" "array_of r = Some (m, elt)" "basic_zero elt = Some z"
    "s f = VArr (map VArr rows)" "length rows = n" "list_all (\<lambda>r. length r = m) rows"
  shows "buildStmts (path_text recv (PField f)) e = [gen_text recv (gcode (PField f) e)] \<and>
    exec rst i (gcode (PField f) e) s =
      (if n = 0 \<or> m \<le> n then Some (s(f := VArr (map VArr (diag (VBasic z) m rows)))) else None)"
  using buildStmts_gcode nested_reset [where s = s and f = f, OF assms] by blast

theorem nested_array_reset_witness:
  "exec (\<lambda>v. v) 0 (gcode (PField ''m'') (ArrayType (Some 2) (ArrayType (Some 2) (Ident ''int''))))
      (\<lambda>_. VArr (map VArr [[VBasic ''1'', VBasic ''2''], [VBasic ''3'', VBasic ''4'']])) =
     Some ((\<lambda>_. VArr (map VArr [[VBasic ''1'', VBasic ''2''], [VBasic ''3'', VBasic ''4'']]))
       (''m'' := VArr [VArr [VBasic ''0'', VBasic ''2''], VArr [VBasic ''3'', VBasic ''0'']]))"
proof -
  let ?rows = "[[VBasic ''1'', VBasic ''2''], [VBasic ''3'', VBasic ''4'']]"
  have h: "array_of (ArrayType (Some 2) (ArrayType (Some 2) (Ident ''int''))) = Some (2, ArrayType (Some 2) (Ident ''int''))"
    "array_of (ArrayType (Some 2) (Ident ''int'')) = Some (2, Ident ''int'')"
    "basic_zero (Ident ''int'') = Some ''0''" "length ?rows = 2" "list_all (\<lambda>r. length r = 2) ?rows"
    by (simp_all add: array_of_def basic_zero_def zeroByType_def)
  have "diag (VBasic ''0'') 2 ?rows = [[VBasic ''0'', VBasic ''2''], [VBasic ''3'', VBasic ''0'']]"
    by (simp add: diag_def)
  moreover have "(\<lambda>_. VArr (map VArr ?rows)) ''m'' = VArr (map VArr ?rows)" by (rule refl)
  ultimately show ?thesis
    using nested_array_reset [OF h(1,2,3) _ h(4,5), of "\<lambda>_. VArr (map VArr ?rows)" "''m''"] by simp
qed

end
