(* ===== verification/Reset_Main.thy ===== *)
theory Reset_Main
  imports Reset_Gen
begin

text \<open>
  \<open>cmd/reset/main.go\<close> and \<open>parsePackage\<close>: walking the module, and the file \<open>reset.gen.go\<close> of every
  package. The state is the generated file of each directory; a path is the list of its components; the
  outcomes of the system calls and of the parser are parameters.
\<close>

definition generatedFile :: string where "generatedFile = ''reset.gen.go''"

definition is_source :: "string \<Rightarrow> bool" where
  "is_source n \<longleftrightarrow> has_suffix n ''.go'' \<and> \<not> has_suffix n ''_test.go'' \<and> n \<noteq> generatedFile"

type_synonym dirpath = "string list"
type_synonym gen_state = "dirpath \<Rightarrow> string option"

text \<open>A failed write leaves some content behind; a failed removal is ignored and leaves the file.\<close>

record run_env =
  re_gen :: gen_env
  re_readdir :: "dirpath \<Rightarrow> (string \<times> bool) list result"
  re_parse :: "dirpath \<Rightarrow> string \<Rightarrow> go_file result"
  re_write :: "dirpath \<Rightarrow> (go_error \<times> string option) option"
  re_remove_fails :: "dirpath \<Rightarrow> bool"

fun parse_files ::
  "(string \<Rightarrow> go_file result) \<Rightarrow> (string \<times> bool) list \<Rightarrow> namedStruct list \<Rightarrow> string \<Rightarrow>
   (namedStruct list \<times> string) result" where
  "parse_files parse [] structs pkgName = Inr (structs, pkgName)"
| "parse_files parse ((n, isdir) # es) structs pkgName =
     (if isdir \<or> \<not> is_source n then parse_files parse es structs pkgName
      else case parse n of
        Inl e \<Rightarrow> Inl (ErrWrap (''parse '' @ n) e)
      | Inr f \<Rightarrow>
          parse_files parse es (structs @ structsFromFile f) (if pkgName = [] then gf_package f else pkgName))"

definition parsePackage ::
  "(string \<Rightarrow> go_file result) \<Rightarrow> (string \<times> bool) list \<Rightarrow> (namedStruct list \<times> string) result" where
  "parsePackage parse entries =
     rbind (parse_files parse entries [] []) (\<lambda>(structs, pkgName). Inr (sort_key ns_name structs, pkgName))"

definition processPackage :: "run_env \<Rightarrow> dirpath \<Rightarrow> gen_state \<Rightarrow> go_error option \<times> gen_state" where
  "processPackage env dir st =
     (case rbind (re_readdir env dir) (parsePackage (re_parse env dir)) of
        Inl e \<Rightarrow> (Some e, st)
      | Inr (structs, pkgName) \<Rightarrow>
          if structs = [] then (None, if re_remove_fails env dir then st else st(dir := None))
          else
            (case generateFile (re_gen env) pkgName structs of
               Inl e \<Rightarrow> (Some (ErrWrap (concat (map (\<lambda>c. ''/'' @ c) dir)) e), st)
             | Inr text \<Rightarrow>
                 (case re_write env dir of
                    None \<Rightarrow> (None, st(dir := Some text))
                  | Some (e, left) \<Rightarrow> (Some e, st(dir := left)))))"

section \<open>Walking the module\<close>

datatype fs_node = FileNode string | DirNode string "fs_node list"

definition skipDir :: "string \<Rightarrow> bool" where
  "skipDir n \<longleftrightarrow> has_prefix n ''.'' \<or> n \<in> {''vendor'', ''testdata'', ''node_modules''}"

text \<open>The callback of \<open>WalkDir\<close>: \<open>dir\<close> is the directory of the entry, \<open>dirs\<close> the set collected so far.\<close>

fun walk :: "bool \<Rightarrow> dirpath \<Rightarrow> fs_node \<Rightarrow> dirpath list \<Rightarrow> dirpath list" where
  "walk is_root dir (FileNode n) dirs = (if is_source n then List.insert dir dirs else dirs)"
| "walk is_root dir (DirNode n nodes) dirs =
     (if \<not> is_root \<and> skipDir n then dirs
      else fold (walk False (dir @ [n])) nodes dirs)"

fun process_dirs :: "run_env \<Rightarrow> dirpath list \<Rightarrow> gen_state \<Rightarrow> go_error option \<times> gen_state" where
  "process_dirs env [] st = (None, st)"
| "process_dirs env (d # ds) st =
     (case processPackage env d st of
        (Some e, st') \<Rightarrow> (Some e, st')
      | (None, st') \<Rightarrow> process_dirs env ds st')"

text \<open>The set of directories is visited in the order the map is iterated in: \<open>order\<close>.\<close>

definition processRoot ::
  "run_env \<Rightarrow> (dirpath list \<Rightarrow> dirpath list) \<Rightarrow> go_error option \<Rightarrow> fs_node \<Rightarrow> gen_state \<Rightarrow>
   go_error option \<times> gen_state" where
  "processRoot env order walked root st =
     (case walked of
        Some e \<Rightarrow> (Some e, st)
      | None \<Rightarrow> process_dirs env (order (walk True [] root [])) st)"

fun find_up :: "(dirpath \<Rightarrow> bool) \<Rightarrow> string list \<Rightarrow> dirpath option" where
  "find_up has_mod [] = (if has_mod [] then Some [] else None)"
| "find_up has_mod (c # cs) =
     (if has_mod (rev (c # cs)) then Some (rev (c # cs)) else find_up has_mod cs)"

definition findModuleRoot :: "(dirpath \<Rightarrow> bool) \<Rightarrow> dirpath result \<Rightarrow> dirpath result" where
  "findModuleRoot has_mod wd =
     rbind wd (\<lambda>dir. case find_up has_mod (rev dir) of
        Some root \<Rightarrow> Inr root
      | None \<Rightarrow> Inl (ErrText ''go.mod not found''))"

definition reset_run ::
  "run_env \<Rightarrow> (dirpath list \<Rightarrow> dirpath list) \<Rightarrow> (dirpath \<Rightarrow> bool) \<Rightarrow> dirpath result \<Rightarrow>
   (dirpath \<Rightarrow> go_error option \<times> fs_node) \<Rightarrow> gen_state \<Rightarrow> go_error option \<times> gen_state" where
  "reset_run env order has_mod wd tree st =
     (case findModuleRoot has_mod wd of
        Inl e \<Rightarrow> (Some e, st)
      | Inr root \<Rightarrow> (case tree root of (walked, t) \<Rightarrow> processRoot env order walked t st))"

section \<open>What a run leaves\<close>

text \<open>The marked structures of a directory, in the order of their names, with the package name.\<close>

definition marked :: "run_env \<Rightarrow> dirpath \<Rightarrow> (namedStruct list \<times> string) result" where
  "marked env dir = rbind (re_readdir env dir) (parsePackage (re_parse env dir))"

definition generated_ok :: "run_env \<Rightarrow> dirpath \<Rightarrow> string option \<Rightarrow> string option \<Rightarrow> bool" where
  "generated_ok env dir before after =
     (case marked env dir of
        Inl e \<Rightarrow> False
      | Inr ([], pkg) \<Rightarrow> after = (if re_remove_fails env dir then before else None)
      | Inr (structs, pkg) \<Rightarrow>
          (case generateFile (re_gen env) pkg structs of Inl e \<Rightarrow> False | Inr text \<Rightarrow> after = Some text))"

lemma processPackage_frame: "processPackage env d st = (r, st') \<Longrightarrow> x \<noteq> d \<Longrightarrow> st' x = st x"
  by (auto simp: processPackage_def split: sum.splits if_splits option.splits)

lemma processPackage_ok: "processPackage env d st = (None, st') \<Longrightarrow> generated_ok env d (st d) (st' d)"
  by (auto simp: processPackage_def generated_ok_def marked_def neq_Nil_conv
      split: sum.splits if_splits option.splits list.splits)

lemma process_dirs_spec:
  assumes "process_dirs env ds st = (r, st')" "distinct ds"
  shows "(\<forall>x. x \<notin> set ds \<longrightarrow> st' x = st x) \<and>
    (r = None \<longrightarrow> list_all (\<lambda>d. generated_ok env d (st d) (st' d)) ds)"
  using assms
proof (induction ds arbitrary: st)
  case (Cons d ds)
  obtain r1 st1 where p: "processPackage env d st = (r1, st1)" by fastforce
  have fr: "st1 x = st x" if "x \<noteq> d" for x using processPackage_frame [OF p that] .
  show ?case
  proof (cases r1)
    case (Some e)
    with Cons.prems p fr show ?thesis by auto
  next
    case None
    then have rest: "process_dirs env ds st1 = (r, st')" using Cons.prems(1) p by simp
    note ih = Cons.IH [OF rest] Cons.prems(2)
    have d: "st' d = st1 d" using ih by simp
    have "generated_ok env x (st1 x) (st' x) = generated_ok env x (st x) (st' x)" if "x \<in> set ds" for x
    proof -
      have "x \<noteq> d" using that Cons.prems(2) by auto
      then show ?thesis by (simp add: fr)
    qed
    with ih fr processPackage_ok [of env d st st1] p None d show ?thesis by (auto simp: list_all_iff)
  qed
qed simp

lemma walk_distinct: "distinct dirs \<Longrightarrow> distinct (walk b dir t dirs)"
proof (induction b dir t dirs rule: walk.induct)
  case (2 is_root dir n nodes dirs)
  have "distinct (fold (walk False (dir @ [n])) ns ds)" if "set ns \<subseteq> set nodes" "distinct ds" "\<not> (\<not> is_root \<and> skipDir n)" for ns ds
    using that by (induction ns arbitrary: ds) (auto intro!: 2)
  then show ?case using 2(2) by simp
qed simp

text \<open>Every directory that is collected holds a source file, and none is below a skipped one.\<close>

inductive source_dir :: "bool \<Rightarrow> dirpath \<Rightarrow> fs_node \<Rightarrow> dirpath \<Rightarrow> bool" where
  source_file: "is_source n \<Longrightarrow> source_dir b dir (FileNode n) dir"
| source_below: "b \<or> \<not> skipDir n \<Longrightarrow> t \<in> set nodes \<Longrightarrow> source_dir False (dir @ [n]) t d \<Longrightarrow>
    source_dir b dir (DirNode n nodes) d"

inductive_simps source_dir_simps:
  "source_dir b dir (FileNode n) d" "source_dir b dir (DirNode n nodes) d"

lemma walk_set: "set (walk b dir t dirs) = set dirs \<union> {d. source_dir b dir t d}"
proof (induction b dir t dirs rule: walk.induct)
  case (1 is_root dir n dirs)
  then show ?case by (auto simp: source_dir_simps)
next
  case (2 is_root dir n nodes dirs)
  have "set (fold (walk False (dir @ [n])) ns ds) = set ds \<union> {d. \<exists>t \<in> set ns. source_dir False (dir @ [n]) t d}"
    if "set ns \<subseteq> set nodes" "\<not> (\<not> is_root \<and> skipDir n)" for ns ds
    using that
  proof (induction ns arbitrary: ds)
    case (Cons t ns)
    have "set (walk False (dir @ [n]) t ds) = set ds \<union> {d. source_dir False (dir @ [n]) t d}"
      using 2 Cons.prems by simp
    with Cons show ?case by auto
  qed simp
  from this [of nodes dirs] show ?case by (auto simp: source_dir_simps)
qed


text \<open>The package \<open>internal/pool\<close> of the repository: no structure is marked, so its file is removed.\<close>

definition pool_env :: run_env where
  "pool_env =
     \<lparr>re_gen = \<lparr>ge_gofmt = Inr, ge_lower = (\<lambda>n. n)\<rparr>,
      re_readdir = (\<lambda>_. Inr [(''pool.go'', False), (''pool_test.go'', False), (''reset.gen.go'', False)]),
      re_parse = (\<lambda>_ _. Inr \<lparr>gf_package = ''pool'', gf_decls = []\<rparr>),
      re_write = (\<lambda>_. None), re_remove_fails = (\<lambda>_. False)\<rparr>"

definition pool_tree :: fs_node where
  "pool_tree = DirNode ''pool'' [FileNode ''pool.go'', FileNode ''pool_test.go'', FileNode ''reset.gen.go'']"

lemma pool_walk: "walk True [] pool_tree [] = [[''pool'']]"
  by (simp add: pool_tree_def is_source_def has_suffix_def has_prefix_def generatedFile_def)

lemma pool_marked: "marked pool_env d = Inr ([], ''pool'')"
  by (simp add: marked_def pool_env_def parsePackage_def is_source_def has_suffix_def has_prefix_def generatedFile_def
      structsFromFile_def)


end
