(* ===== verification/Programs.thy ===== *)
theory Programs
  imports Shutdown_Specs Agent_Main Reset_Main
begin

text \<open>
  The functions \<open>main\<close> of \<open>cmd/server\<close>, \<open>cmd/agent\<close> and \<open>cmd/reset\<close>: what they print, and the status of
  the process. \<open>None\<close> is a process that has not ended. The error on \<open>stderr\<close> is the error itself, not its text.
\<close>

record build_info =
  bi_version :: string
  bi_date :: string
  bi_commit :: string

text \<open>The variables of the package, before the linker sets them.\<close>

definition server_build :: build_info where
  "server_build = \<lparr>bi_version = [], bi_date = [], bi_commit = []\<rparr>"

definition agent_build :: build_info where
  "agent_build = \<lparr>bi_version = ''N/A'', bi_date = ''N/A'', bi_commit = ''N/A''\<rparr>"

definition print_build :: "build_info \<Rightarrow> string list" where
  "print_build b = PrintBuildInfo (bi_version b) (bi_date b) (bi_commit b)"

definition exit_status :: "go_error option \<Rightarrow> nat" where
  "exit_status e = (case e of None \<Rightarrow> 0 | Some _ \<Rightarrow> 1)"

text \<open>
  \<open>now\<close> is where the server or the agent that was started is; \<open>run\<close> returns without an error whatever happened since.
\<close>

definition server_main ::
  "build_info \<Rightarrow> server_parts result \<Rightarrow> (server_parts \<Rightarrow> server_state) \<Rightarrow> string list \<times> nat option" where
  "server_main b started now =
     (print_build b,
      case started of
        Inl e \<Rightarrow> Some (exit_status (Some e))
      | Inr parts \<Rightarrow> if sd_phase (now parts) = Stopped then Some (exit_status None) else None)"

definition agent_main ::
  "build_info \<Rightarrow> (agent_sender \<times> runner) result \<Rightarrow> (runner \<Rightarrow> runner) \<Rightarrow> string list \<times> nat option" where
  "agent_main b started now =
     (print_build b,
      case started of
        Inl e \<Rightarrow> Some (exit_status (Some e))
      | Inr (sender, r) \<Rightarrow> if ru_pc (now r) = RunReturned then Some (exit_status None) else None)"

definition reset_main :: "go_error option \<times> gen_state \<Rightarrow> go_error list \<times> nat \<times> gen_state" where
  "reset_main done_with = (case done_with of (e, st) \<Rightarrow> (case e of None \<Rightarrow> [] | Some x \<Rightarrow> [x], exit_status e, st))"

lemma unset_build_info: "print_build server_build = print_build agent_build"
  by (simp add: print_build_def server_build_def agent_build_def PrintBuildInfo_def orNA_def)

lemma status_server_ended:
  "server_run parse6 io loaded = Inr parts \<Longrightarrow> sd_phase t = Stopped \<Longrightarrow>
   server_main b (server_run parse6 io loaded) (\<lambda>_. t) = (print_build b, Some 0)"
  by (simp add: server_main_def exit_status_def)

section \<open>What the status says\<close>

text \<open>
  The status of the server tells only whether it could be put together. Errors of the
  configuration, the subnet, the private key, the gRPC port and its certificates end it with 1. But when
  \<open>ListenAndServe\<close> fails, as it does when the address is in use, the error is only logged: from its start the server can go to the
  end of the process without having accepted a request, and a script that started it sees 0.
\<close>

theorem listen_failure_unseen:
  "case server_run parse6 io loaded of
     Inl e \<Rightarrow> server_main b (server_run parse6 io loaded) now = (print_build b, Some 1)
   | Inr parts \<Rightarrow>
       \<exists>ms t. run (server_moves fc env cfg parts) (server_start fc cfg rd d) (ListenFailed # ms) t \<and>
         list_all (\<lambda>l. accepted_updates l = []) ms \<and>
         server_main b (server_run parse6 io loaded) (\<lambda>_. t) = (print_build b, Some 0)"
proof (cases "server_run parse6 io loaded")
  case (Inr parts)
  let ?s = "(server_start fc cfg rd d)\<lparr>sd_phase := GrpcDraining\<rparr>"
  have "server_moves fc env cfg parts (server_start fc cfg rd d) ListenFailed ?s"
    by (simp add: server_moves_def server_start_def)
  then have first: "run (server_moves fc env cfg parts) (server_start fc cfg rd d) [ListenFailed] ?s" by (rule run_one)
  from reachable_can_stop [OF final_inv_run [OF first]] obtain ms t where
    t: "run (server_moves fc env cfg parts) ?s ms t" "sd_phase t = Stopped" "list_all quiet_label ms"
    unfolding can_stop_def by blast
  have "list_all (\<lambda>l. accepted_updates l = []) ms"
    using t(3) by (auto simp: quiet_label_def elim: list.pred_mono_strong)
  moreover have "run (server_moves fc env cfg parts) (server_start fc cfg rd d) (ListenFailed # ms) t"
    using run_append [OF t(1) first] by simp
  ultimately show ?thesis
    using status_server_ended [OF Inr t(2), of b] by (simp add: Inr) blast
qed (simp add: server_main_def exit_status_def)

text \<open>
  The generator ends with 0 only if it found the module and every package of it is as it should be; the error
  of the first package that fails is printed, and the packages after it are left as they were.
\<close>

lemma reset_main_ok:
  assumes "reset_main (reset_run env order has_mod wd tree st) = (errs, 0, st')"
    and "\<And>ds. distinct ds \<Longrightarrow> distinct (order ds)" "\<And>ds. set (order ds) = set ds"
    and "findModuleRoot has_mod wd = Inr root" "tree root = (None, t)"
  shows "errs = [] \<and> {d. source_dir True [] t d} \<subseteq> {d. generated_ok env d (st d) (st' d)}"
proof -
  obtain r where run: "processRoot env order None t st = (r, st')" and r: "r = None" "errs = []"
    using assms(1,4,5) by (auto simp: reset_main_def reset_run_def exit_status_def split: prod.splits option.splits)
  have steps: "process_dirs env (order (walk True [] t [])) st = (None, st')"
    using run r by (simp add: processRoot_def)
  have "set (order (walk True [] t [])) = {d. source_dir True [] t d}"
    using assms(3) by (simp add: walk_set)
  with process_dirs_spec [OF steps assms(2) [OF walk_distinct]] r show ?thesis by (auto simp: list_all_iff)
qed

end
