(* ===== verification/Object_Pool.thy ===== *)
theory Object_Pool
  imports Runs "HOL-Library.Multiset"
begin

text \<open>
  \<open>internal/pool\<close>: the typed pool over \<open>sync.Pool\<close>. Objects are addresses of a heap, \<open>None\<close> is the nil
  pointer. What \<open>sync.Pool\<close> documents is the nondeterminism: \<open>Get\<close> takes any of the free objects or none of
  them, and a free object may go away at any time.
\<close>

record 'v pool =
  po_new :: "(nat \<Rightarrow> 'v) option"
  po_free :: "nat option list"
  po_heap :: "nat \<Rightarrow> 'v option"
  po_next :: nat

definition NewPool :: "(nat \<Rightarrow> 'v) option \<Rightarrow> 'v pool" where
  "NewPool newFunc = \<lparr>po_new = newFunc, po_free = [], po_heap = Map.empty, po_next = 0\<rparr>"

definition drop_nth :: "nat \<Rightarrow> 'a list \<Rightarrow> 'a list" where
  "drop_nth i xs = take i xs @ drop (Suc i) xs"

text \<open>The choice is the position of the object taken, \<open>None\<close> a miss.\<close>

definition pool_Get :: "nat option \<Rightarrow> 'v pool \<Rightarrow> nat option \<times> 'v pool" where
  "pool_Get choice p =
     (case choice of
        Some i \<Rightarrow> (po_free p ! i, p\<lparr>po_free := drop_nth i (po_free p)\<rparr>)
      | None \<Rightarrow>
          (case po_new p of
             None \<Rightarrow> (None, p)
           | Some newFunc \<Rightarrow>
               (Some (po_next p),
                p\<lparr>po_heap := (po_heap p)(po_next p \<mapsto> newFunc (po_next p)), po_next := Suc (po_next p)\<rparr>)))"

text \<open>\<open>Reset\<close> of a nil pointer does nothing, and the nil pointer goes into the pool like any other.\<close>

definition pool_Put :: "('v \<Rightarrow> 'v) \<Rightarrow> nat option \<Rightarrow> 'v pool \<Rightarrow> 'v pool" where
  "pool_Put rst x p =
     (let p = (case x of None \<Rightarrow> p | Some a \<Rightarrow> p\<lparr>po_heap := (po_heap p)(a := map_option rst (po_heap p a))\<rparr>)
      in p\<lparr>po_free := x # po_free p\<rparr>)"

text \<open>
  Clients that keep to the contract: they write to and put back only what they hold. The label of
  a \<open>Get\<close> is the object with its value at that moment.
\<close>

datatype 'v pool_label = PGet "nat option" "'v option" | PPut "nat option" | PWrite nat 'v | PLost

inductive pool_step ::
  "('v \<Rightarrow> 'v) \<Rightarrow> 'v pool \<times> nat list \<Rightarrow> 'v pool_label \<Rightarrow> 'v pool \<times> nat list \<Rightarrow> bool" for rst where
  step_get: "pool_Get choice p = (x, p') \<Longrightarrow> (case choice of Some i \<Rightarrow> i < length (po_free p) | None \<Rightarrow> True) \<Longrightarrow>
     pool_step rst (p, held) (PGet x (case x of None \<Rightarrow> None | Some a \<Rightarrow> po_heap p' a))
       (p', (case x of None \<Rightarrow> [] | Some a \<Rightarrow> [a]) @ held)"
| step_put: "a \<in> set held \<Longrightarrow> pool_step rst (p, held) (PPut (Some a)) (pool_Put rst (Some a) p, remove1 a held)"
| step_put_nil: "pool_step rst (p, held) (PPut None) (pool_Put rst None p, held)"
| step_write: "a \<in> set held \<Longrightarrow> pool_step rst (p, held) (PWrite a v) (p\<lparr>po_heap := (po_heap p)(a \<mapsto> v)\<rparr>, held)"
| step_lost: "i < length (po_free p) \<Longrightarrow>
     pool_step rst (p, held) PLost (p\<lparr>po_free := drop_nth i (po_free p)\<rparr>, held)"

definition free_addrs :: "'v pool \<Rightarrow> nat list" where
  "free_addrs p = concat (map (\<lambda>x. case x of None \<Rightarrow> [] | Some a \<Rightarrow> [a]) (po_free p))"

definition clean_value :: "('v \<Rightarrow> 'v) \<Rightarrow> (nat \<Rightarrow> 'v) option \<Rightarrow> 'v option \<Rightarrow> bool" where
  "clean_value rst newFunc v \<longleftrightarrow>
     (\<exists>w. v = Some (rst w)) \<or> (\<exists>f k. newFunc = Some f \<and> v = Some (f k))"

definition pool_inv :: "('v \<Rightarrow> 'v) \<Rightarrow> (nat \<Rightarrow> 'v) option \<Rightarrow> 'v pool \<times> nat list \<Rightarrow> bool" where
  "pool_inv rst newFunc s \<longleftrightarrow>
     (case s of (p, held) \<Rightarrow>
        po_new p = newFunc \<and> distinct (free_addrs p @ held) \<and>
        (\<forall>a \<in> set (free_addrs p @ held). a < po_next p \<and> po_heap p a \<noteq> None) \<and>
        (\<forall>a \<in> set (free_addrs p). clean_value rst newFunc (po_heap p a)))"

text \<open>What a step hands out is clean and nobody else's.\<close>

definition clean_get :: "('v \<Rightarrow> 'v) \<Rightarrow> (nat \<Rightarrow> 'v) option \<Rightarrow> 'v pool_label \<Rightarrow> bool" where
  "clean_get rst newFunc l =
     (case l of PGet (Some a) v \<Rightarrow> clean_value rst newFunc v | _ \<Rightarrow> True)"

lemma concat_drop_nth:
  assumes "i < length xs"
  shows "mset (concat (map f xs)) = mset (f (xs ! i)) + mset (concat (map f (drop_nth i xs)))"
proof -
  have "xs = take i xs @ xs ! i # drop (Suc i) xs" using assms by (simp add: id_take_nth_drop)
  then have "mset (concat (map f xs)) = mset (concat (map f (take i xs @ xs ! i # drop (Suc i) xs)))" by metis
  then show ?thesis by (simp add: drop_nth_def)
qed

text \<open>Taking a free object moves its address; the other conditions do not depend on the order.\<close>

lemma free_addrs_drop:
  assumes "i < length (po_free p)"
  shows "mset (free_addrs p) =
    mset (case po_free p ! i of None \<Rightarrow> [] | Some a \<Rightarrow> [a]) + mset (free_addrs (p\<lparr>po_free := drop_nth i (po_free p)\<rparr>))"
  using concat_drop_nth [OF assms] by (simp add: free_addrs_def)

lemma pool_inv_take:
  assumes "pool_inv rst nf (p, held)" "i < length (po_free p)"
  shows "pool_inv rst nf (p\<lparr>po_free := drop_nth i (po_free p)\<rparr>, (case po_free p ! i of None \<Rightarrow> [] | Some a \<Rightarrow> [a]) @ held)"
    "pool_inv rst nf (p\<lparr>po_free := drop_nth i (po_free p)\<rparr>, held)"
    "po_free p ! i = Some a \<Longrightarrow> clean_value rst nf (po_heap p a)"
proof -
  let ?q = "p\<lparr>po_free := drop_nth i (po_free p)\<rparr>" and ?x = "case po_free p ! i of None \<Rightarrow> [] | Some a \<Rightarrow> [a]"
  have "mset (free_addrs ?q @ ?x @ held) = mset (free_addrs p @ held)"
    using free_addrs_drop [OF assms(2)] by simp
  then have d: "distinct (free_addrs ?q @ ?x @ held) = distinct (free_addrs p @ held)"
    and st: "set (free_addrs ?q @ ?x @ held) = set (free_addrs p @ held)"
    by (rule mset_eq_imp_distinct_iff, metis set_mset_mset)
  have fr: "set (free_addrs p) = set ?x \<union> set (free_addrs ?q)"
    using arg_cong [OF free_addrs_drop [OF assms(2)], of set_mset] by simp
  show 1: "pool_inv rst nf (?q, ?x @ held)"
    using assms(1) d st fr by (simp add: pool_inv_def)
  show "pool_inv rst nf (?q, held)" using 1 by (auto simp: pool_inv_def)
  show "po_free p ! i = Some a \<Longrightarrow> clean_value rst nf (po_heap p a)"
    using assms(1) fr by (simp add: pool_inv_def)
qed

lemma pool_inv_miss:
  assumes "pool_inv rst nf (p, held)" "po_new p = Some f"
  shows "pool_inv rst nf
    (p\<lparr>po_heap := (po_heap p)(po_next p \<mapsto> f (po_next p)), po_next := Suc (po_next p)\<rparr>, po_next p # held)"
  using assms by (auto simp: pool_inv_def free_addrs_def less_Suc_eq)

lemma pool_inv_put:
  assumes "pool_inv rst nf (p, held)" "a \<in> set held"
  shows "pool_inv rst nf (pool_Put rst (Some a) p, remove1 a held)"
proof -
  have fr: "free_addrs (pool_Put rst (Some a) p) = a # free_addrs p"
    by (simp add: pool_Put_def free_addrs_def)
  have held: "distinct held" "a \<notin> set (free_addrs p)" using assms by (auto simp: pool_inv_def)
  then have "set (remove1 a held) = set held - {a}" by simp
  moreover obtain w where w: "po_heap p a = Some w" using assms unfolding pool_inv_def by fastforce
  then have "po_heap (pool_Put rst (Some a) p) = (po_heap p)(a \<mapsto> rst w)" by (simp add: pool_Put_def)
  moreover have "po_new (pool_Put rst (Some a) p) = po_new p" "po_next (pool_Put rst (Some a) p) = po_next p"
    by (simp_all add: pool_Put_def)
  moreover have "clean_value rst nf (Some (rst w))" by (auto simp: clean_value_def)
  ultimately show ?thesis using assms held unfolding pool_inv_def prod.case fr by auto
qed

lemma pool_inv_step:
  assumes "pool_step rst s l t" "pool_inv rst nf s"
  shows "pool_inv rst nf t"
  using assms
proof (induction rule: pool_step.induct)
  case (step_get choice p x p' held)
  then show ?case
    using pool_inv_take(1) [of rst nf p held "the choice"] pool_inv_miss [of rst nf p held]
    by (cases choice) (auto simp: pool_Get_def split: option.splits)
next
  case (step_put a held p)
  then show ?case by (simp add: pool_inv_put)
next
  case (step_put_nil p held)
  then show ?case by (simp add: pool_inv_def pool_Put_def free_addrs_def)
next
  case (step_write a held p v)
  then show ?case by (auto simp: pool_inv_def free_addrs_def)
next
  case (step_lost i p held)
  then show ?case by (simp add: pool_inv_take(2))
qed

lemma pool_step_clean:
  assumes "pool_step rst s l t" "pool_inv rst nf s"
  shows "clean_get rst nf l"
  using assms
proof (induction rule: pool_step.induct)
  case (step_get choice p x p' held)
  have new: "po_new p = nf" using step_get.prems by (simp add: pool_inv_def)
  show ?case
  proof (cases choice)
    case (Some i)
    with step_get show ?thesis using pool_inv_take(3) [of rst nf p held i]
      by (auto simp: pool_Get_def clean_get_def split: option.split)
  next
    case None
    with step_get new show ?thesis
      by (auto simp: pool_Get_def clean_get_def clean_value_def split: option.splits)
  qed
qed (simp_all add: clean_get_def)

lemma pool_run_inv:
  assumes "run (pool_step rst) (NewPool nf, []) ls s"
  shows "pool_inv rst nf s \<and> list_all (clean_get rst nf) ls"
  using assms
proof (induction "(NewPool nf, [] :: nat list)" ls s rule: run.induct)
  case run_Nil
  then show ?case by (simp add: pool_inv_def NewPool_def free_addrs_def)
next
  case (run_snoc ls t l u)
  then show ?case using pool_inv_step [of rst t l u nf] pool_step_clean [of rst t l u nf] by simp
qed

text \<open>
  The pool never hands out a used object. As long as clients write to and put back only what they hold,
  every object \<open>Get\<close> returns, in any interleaving and whatever \<open>sync.Pool\<close> keeps or drops, has a
  value the constructor made or one that \<open>Reset\<close> left, and no object is ever held twice, or held
  while it is free.
\<close>

theorem pool_hands_out_clean:
  assumes "run (pool_step rst) (NewPool nf, []) ls (p, held)"
  shows "list_all (clean_get rst nf) ls \<and> distinct (free_addrs p @ held)"
  using pool_run_inv [OF assms] by (simp add: pool_inv_def)

text \<open>A counter taken, written, put back and taken again.\<close>

definition sample_run :: "int pool_label list" where
  "sample_run = [PGet (Some 0) (Some 5), PWrite 0 7, PPut (Some 0), PGet (Some 0) (Some 0)]"

lemma sample_run_ok:
  "\<exists>p. run (pool_step (\<lambda>_. 0)) (NewPool (Some (\<lambda>_. 5)), []) sample_run (p, [0])"
proof -
  let ?p0 = "NewPool (Some (\<lambda>_. 5 :: int))"
  let ?p1 = "snd (pool_Get None ?p0)"
  let ?p2 = "?p1\<lparr>po_heap := (po_heap ?p1)(0 \<mapsto> 7)\<rparr>"
  let ?p3 = "pool_Put (\<lambda>_. 0) (Some 0) ?p2"
  let ?p4 = "snd (pool_Get (Some 0) ?p3)"
  note simps = pool_Get_def NewPool_def pool_Put_def drop_nth_def
  have s1: "pool_step (\<lambda>_. 0) (?p0, []) (PGet (Some 0) (Some 5)) (?p1, [0])"
    using pool_step.step_get [of None ?p0 "Some 0" ?p1 "\<lambda>_. 0" "[]"] by (simp add: simps)
  have s2: "pool_step (\<lambda>_. 0) (?p1, [0]) (PWrite 0 7) (?p2, [0])" by (rule pool_step.step_write) simp
  have s3: "pool_step (\<lambda>_. 0) (?p2, [0]) (PPut (Some 0)) (?p3, [])"
    using pool_step.step_put [of 0 "[0]" "\<lambda>_. 0" ?p2] by simp
  have s4: "pool_step (\<lambda>_. 0) (?p3, []) (PGet (Some 0) (Some 0)) (?p4, [0])"
    using pool_step.step_get [of "Some 0" ?p3 "Some 0" ?p4 "\<lambda>_. 0" "[]"] by (simp add: simps)
  note sn = run_snoc [where step = "pool_step (\<lambda>_. 0 :: int)"]
  from sn [OF sn [OF sn [OF run_one [where step = "pool_step (\<lambda>_. 0 :: int)", OF s1] s2] s3] s4] show ?thesis
    by (auto simp: sample_run_def)
qed

theorem pool_hands_out_clean_witness:
  "list_all (clean_get (\<lambda>_. 0) (Some (\<lambda>_. 5))) sample_run"
proof -
  obtain p where "run (pool_step (\<lambda>_. 0)) (NewPool (Some (\<lambda>_. 5)), []) sample_run (p, [0])"
    using sample_run_ok by blast
  from pool_hands_out_clean [OF this] show ?thesis by blast
qed

end
