(* ===== verification/Static_Lint.thy ===== *)
theory Static_Lint
  imports Prelude
begin

text \<open>
  \<open>cmd/staticlint\<close>: the analyzer \<open>noosexit\<close> and the list of analyzers. A syntax node has its position, its
  kind with what the analyzer reads of it, and its children in source order; the first child of a
  call is the called expression and the only child of a selector its operand. An identifier carries
  the path of the package it names, when it names one.
\<close>

section \<open>Nodes\<close>

datatype node_kind = CallExpr | SelectorNode string | IdentNode "string option" | OtherNode

datatype ast_node = Node (nd_pos: nat) (nd_kind: node_kind) (nd_children: "ast_node list")

datatype lint_decl =
    FuncDecl (fd_recv: bool) (fd_name: string) (fd_body: "ast_node option")
  | OtherDecl

record lint_file =
  lf_comments :: "string list list"
  lf_decls :: "lint_decl list"

section \<open>The analyzer\<close>

definition generated :: "lint_file \<Rightarrow> bool" where
  "generated f =
     list_ex (list_ex (\<lambda>c. str_contains c ''Code generated'' \<and> str_contains c ''DO NOT EDIT'')) (lf_comments f)"

text \<open>The callback of \<open>ast.Inspect\<close>: it always goes on, and reports a direct call of \<open>os.Exit\<close>.\<close>

definition inspect_node :: "ast_node \<Rightarrow> nat list" where
  "inspect_node n =
     (if nd_kind n \<noteq> CallExpr then []
      else case nd_children n of
        [] \<Rightarrow> []
      | callee # _ \<Rightarrow>
          (case nd_kind callee of
             SelectorNode sel \<Rightarrow>
               (case nd_children callee of
                  [] \<Rightarrow> []
                | x # _ \<Rightarrow>
                    (case nd_kind x of
                       IdentNode imported \<Rightarrow>
                         if sel \<noteq> ''Exit'' then []
                         else (case imported of
                             None \<Rightarrow> []
                           | Some path \<Rightarrow> if path \<noteq> ''os'' then [] else [nd_pos n])
                     | _ \<Rightarrow> []))
           | _ \<Rightarrow> []))"

text \<open>\<open>ast.Inspect\<close>: a node before its children.\<close>

fun inspect :: "ast_node \<Rightarrow> nat list" where
  "inspect (Node pos kind children) = inspect_node (Node pos kind children) @ concat (map inspect children)"

definition inspect_decl :: "lint_decl \<Rightarrow> nat list" where
  "inspect_decl d =
     (case d of
        OtherDecl \<Rightarrow> []
      | FuncDecl recv n body \<Rightarrow>
          if recv \<or> n \<noteq> ''main'' then []
          else (case body of None \<Rightarrow> [] | Some b \<Rightarrow> inspect b))"

definition lint_run :: "string \<Rightarrow> lint_file list \<Rightarrow> nat list" where
  "lint_run pkg files =
     (if pkg \<noteq> ''main'' then []
      else concat (map (\<lambda>f. if generated f then [] else concat (map inspect_decl (lf_decls f))) files))"

section \<open>The list of analyzers\<close>

text \<open>The analyzers of the other packages are given by their names.\<close>

definition own_checks :: "string list" where
  "own_checks =
     [''appends'', ''asmdecl'', ''assign'', ''atomic'', ''atomicalign'', ''bools'', ''buildtag'',
      ''cgocall'', ''composite'', ''copylock'', ''deepequalerrors'', ''defers'', ''directive'',
      ''errorsas'', ''hostport'', ''httpmux'', ''httpresponse'', ''ifaceassert'', ''loopclosure'',
      ''lostcancel'', ''nilfunc'', ''nilness'', ''printf'', ''reflectvaluecompare'', ''shift'',
      ''sigchanyzer'', ''slog'', ''sortslice'', ''sqlrowserr'', ''stdmethods'', ''stdversion'',
      ''stringintconv'', ''structtag'', ''testinggoroutine'', ''tests'', ''timeformat'', ''unmarshal'',
      ''unreachable'', ''unsafeptr'', ''unusedresult'', ''unusedwrite'', ''waitgroup'', ''bodyclose'',
      ''nilerr'', ''noosexit'']"

definition analyzers :: "string list \<Rightarrow> string list \<Rightarrow> string list \<Rightarrow> string list" where
  "analyzers staticcheck simple stylecheck =
     own_checks @ filter (\<lambda>a. has_prefix a ''SA'') staticcheck @ filter (\<lambda>a. a = ''S1009'') simple @
     filter (\<lambda>a. a = ''ST1012'') stylecheck"

section \<open>The reference\<close>

text \<open>The nodes of a body, and the calls that leave the program.\<close>

inductive subnode :: "ast_node \<Rightarrow> ast_node \<Rightarrow> bool" where
  subnode_self: "subnode n n"
| subnode_child: "c \<in> set (nd_children m) \<Longrightarrow> subnode n c \<Longrightarrow> subnode n m"

definition os_exit_call :: "ast_node \<Rightarrow> bool" where
  "os_exit_call n \<longleftrightarrow>
     (\<exists>pos q xs x ys.
        n = Node pos CallExpr (Node q (SelectorNode ''Exit'') (x # xs) # ys) \<and> nd_kind x = IdentNode (Some ''os''))"

definition main_body :: "lint_file \<Rightarrow> ast_node \<Rightarrow> bool" where
  "main_body f b \<longleftrightarrow> FuncDecl False ''main'' (Some b) \<in> set (lf_decls f)"

lemma inspect_node_iff: "set (inspect_node n) = (if os_exit_call n then {nd_pos n} else {})"
proof (cases n)
  case (Node pos kind children)
  show ?thesis
  proof (cases "os_exit_call n")
    case True
    then show ?thesis by (auto simp: os_exit_call_def inspect_node_def)
  next
    case False
    moreover have "os_exit_call n" if "inspect_node n \<noteq> []"
    proof -
      from that obtain callee ys where k: "kind = CallExpr" "children = callee # ys"
        using Node by (auto simp: inspect_node_def split: list.splits if_splits)
      with that Node obtain x xs where c: "nd_kind callee = SelectorNode ''Exit''" "nd_children callee = x # xs"
          "nd_kind x = IdentNode (Some ''os'')"
        by (auto simp: inspect_node_def split: list.splits if_splits node_kind.splits option.splits)
      with k Node show ?thesis unfolding os_exit_call_def by (cases callee) auto
    qed
    ultimately show ?thesis by auto
  qed
qed

lemma subnode_Node: "subnode n (Node p k cs) \<longleftrightarrow> n = Node p k cs \<or> (\<exists>c \<in> set cs. subnode n c)"
  by (subst subnode.simps) auto

lemma inspect_iff: "set (inspect m) = nd_pos ` {n. subnode n m \<and> os_exit_call n}"
proof (induction m rule: inspect.induct)
  case (1 pos kind children)
  let ?m = "Node pos kind children"
  have "set (inspect ?m) = set (inspect_node ?m) \<union> (\<Union>c \<in> set children. set (inspect c))" by simp
  also have "\<dots> = (if os_exit_call ?m then {nd_pos ?m} else {}) \<union>
      (\<Union>c \<in> set children. nd_pos ` {n. subnode n c \<and> os_exit_call n})"
    using 1 by (simp add: inspect_node_iff del: UN_simps)
  also have "\<dots> = nd_pos ` {n. subnode n ?m \<and> os_exit_call n}" by (auto simp: subnode_Node image_iff) (metis ast_node.sel(1))
  finally show ?case .
qed

text \<open>
  C35: The analyzer reports exactly the direct calls of \<open>os.Exit\<close> in \<open>main\<close>. In package \<open>main\<close> the
  reported positions are those of the calls, at any depth, of the selector \<open>Exit\<close> on an identifier that
  names the imported package \<open>os\<close> under whatever name, inside the body of a function \<open>main\<close>
  without receiver of a file that is not generated; in any other package nothing is reported.
\<close>

theorem noosexit_spec:
  "set (lint_run pkg files) =
     {nd_pos n | n f b. pkg = ''main'' \<and> f \<in> set files \<and> \<not> generated f \<and> main_body f b \<and> subnode n b \<and> os_exit_call n}"
proof -
  have decl: "set (inspect_decl d) =
      {nd_pos n | n b. d = FuncDecl False ''main'' (Some b) \<and> subnode n b \<and> os_exit_call n}" for d
    by (auto simp: inspect_decl_def inspect_iff split: lint_decl.split option.split)
  show ?thesis by (auto simp: lint_run_def decl main_body_def split: if_splits)
qed

end
