(* ===== verification/Spec2Isabelle.thy ===== *)
theory Spec2Isabelle
  imports
    Database Config_Server Config_Agent Snapshot Mem_Locks Agents_Postgres Audit_Trail
    Router_Specs Handler_Logs Server_Main Shutdown_Specs Grpc_Service Grpc_Tls
    Collector_Specs Agent_Main Runner_Locks Whole_System Lossy_Network
    Reset_Specs Programs Object_Pool Static_Lint
begin

text \<open>
  A model of \<open>rtmetrics\<close>: an agent that polls the Go runtime and the machine and reports metrics over
  HTTP or gRPC, a server that keeps them in memory, in a snapshot file or in PostgreSQL, and the tools
  of the repository. Paths are under \<open>src/\<close>.

  A metric is a counter (a 64-bit word that is added to, with wrap-around) or a gauge (the bits
  of a binary64 that is overwritten). The agent collects (\<open>agent/collector.go\<close>, \<open>system.go\<close>), cuts its
  report into one part per worker (\<open>runner.go\<close>), queues the parts (\<open>pool.go\<close>) and sends each
  (\<open>client.go\<close>, \<open>grpc.go\<close>). The server routes a request through its middlewares to a handler, which calls the
  service and through it a repository: the in-memory storage, the same with synchronous or periodic
  snapshots, or PostgreSQL. After a successful write the handler hands an event to the audit.
\<close>

section \<open>The theories\<close>

text \<open>
  Data and text.
  \<^item> \<open>Prelude\<close>: machine types, Go errors with \<open>errors.Is\<close> and \<open>errors.As\<close>, results, maps with their unspecified
    iteration order, strings. \<open>Strconv\<close>: integers and floats as text. \<open>Float_Conv\<close>: unsigned integers as
    binary64, rounded to even, as the collector converts them. \<open>Runs\<close>: runs of a step relation, and in them the
    locales \<open>fifo_system\<close> of a first-in first-out buffer and \<open>balanced_system\<close> of what comes in and is held;
    \<open>exec_steps\<close> computes a run where the steps are a function. \<open>Locked_Object\<close>: goroutines that take a
    \<open>sync.RWMutex\<close>, execute statements and give it back, one step each; the locale \<open>locked_object\<close> says what the
    statements of an operation must do together, and proves that the operations are linearizable.
  \<^item> \<open>Json_Text\<close>, \<open>Json\<close>, \<open>Json_Print\<close>, \<open>Codec\<close>: JSON values, the parser of \<open>encoding/json\<close> with
    fuel, the printer, their round trip, and the JSON form of a metric (\<open>model/metrics.go\<close>).
  \<^item> \<open>Http\<close>: requests with a body that may end in an error, handlers as functions from a request and a
    store to the calls on the \<open>ResponseWriter\<close>, the new store and the audit events.

  The server.
  \<^item> \<open>Model\<close>, \<open>Repository\<close> (\<open>repository\<close>, \<open>service\<close>): metrics, the interface of a store as a record of
    operations and its contract as a locale, of which every store is an interpretation.
  \<^item> \<open>Mem_Storage\<close> (\<open>storage/mem_storage.go\<close>: each operation as a whole), \<open>Mem_Locks\<close> (the same operations
    statement by statement, interleaved under their mutex), \<open>File_Store\<close> (\<open>storage/file.go\<close>, on a disk that changes by single
    effects), \<open>Snapshot\<close> (\<open>server/snapshot.go\<close>, \<open>sync_repo.go\<close>), \<open>Postgres\<close> (\<open>storage/postgres\<close>, on a table
    with a plan of faults), \<open>Retry\<close> (with the locale \<open>repeated_effect\<close> of a call that may take effect again
    at every retry), \<open>Database\<close>.
  \<^item> \<open>Pg_Transactions\<close>, \<open>Pg_Serializable\<close>: the transactions of \<open>saveBatch\<close> side by side, with the row locks of the
    database; \<open>Agents_Postgres\<close>: the same for what agents report.
  \<^item> \<open>Handlers\<close>, \<open>Html_Page\<close> (\<open>handler\<close>), \<open>Handler_Specs\<close>: the endpoints and what they promise over any store
    that keeps the contract. \<open>Handler_Logs\<close>: which logger a request writes to. \<open>Security\<close> (\<open>hash\<close>, \<open>rsaenc\<close>, \<open>realip\<close>), \<open>Middleware\<close> (\<open>middleware\<close>),
    \<open>Router\<close>, \<open>Router_Specs\<close> (\<open>createRouter\<close>), \<open>Server_Main\<close> (\<open>cmd/server/main.go\<close>: what the server is made of),
    \<open>Server_Shutdown\<close>, \<open>Shutdown_Specs\<close> (the same file: serving and stopping, with requests, periodic saves
    and the last save as goroutines whose single effects interleave).
  \<^item> \<open>Audit_Trail\<close> (\<open>audit\<close>): the queue, the worker and the observers as an interleaved step relation.
  \<^item> \<open>Grpc\<close>, \<open>Grpc_Specs\<close> (\<open>grpcmetrics\<close>, \<open>proto\<close>), \<open>Grpc_Service\<close> (the generated registration, dispatch and client),
    \<open>Grpc_Tls\<close> (\<open>grpctls\<close>). \<open>Programs\<close>: the three functions \<open>main\<close> and the status of the process.
  \<^item> \<open>Flags\<close>, \<open>Config_Common\<close>, \<open>Config_Server\<close>, \<open>Config_Agent\<close> (\<open>config\<close>).

  The agent.
  \<^item> \<open>Collector\<close>, \<open>Collector_Specs\<close>, \<open>Chunks\<close>, \<open>Agent_Pool\<close> (the runner and the pool as one step relation),
    \<open>Runner_Locks\<close> (its critical sections statement by statement under their mutex),
    \<open>Agent_Specs\<close> (invariant and delivery), \<open>Agent_Polls\<close> (accounting of polls), \<open>Agent_Good\<close> (what is
    sent can be stored), \<open>Agent_Shutdown\<close> (the agent can always stop), \<open>Agent_Client\<close>, \<open>Agent_Main\<close> (\<open>cmd/agent/main.go\<close>).
  \<^item> \<open>End_To_End\<close>: the client connected to the router. \<open>Whole_System\<close>: the runner's steps with the server's
    store, over either transport; the promise of a transport is the locale \<open>batch_sender\<close>.
    \<open>Lossy_Network\<close>: the same when requests and answers are lost, with the weaker promise of \<open>retrying_sender\<close>.

  The tools.
  \<^item> \<open>Reset_Gen\<close>, \<open>Reset_Main\<close> (\<open>cmd/reset\<close>), \<open>Reset_Specs\<close>: the generator of \<open>Reset\<close> methods, and
    a semantics of the statements it generates. \<open>Object_Pool\<close> (\<open>pool\<close>). \<open>Static_Lint\<close> (\<open>cmd/staticlint\<close>).
\<close>

section \<open>What the lemmas show\<close>

text \<open>
  \<^item> Stores: interleavings of updates agree, synchronous and periodic snapshots lose nothing beyond their
    promise, a crash at any byte leaves an old or a new snapshot but for one double fault, a batch reaches
    PostgreSQL whole or not at all, concurrent batches are serializable there, and PostgreSQL refines the memory.
  \<^item> Endpoints: all or nothing, one response per request, reading gives what writing answered, no markup
    from metrics, both transports equivalent, only trusted callers write.
  \<^item> Middlewares: signing and compression change nothing else; encryption and the subnet are what they say.
  \<^item> Concurrency: the queues of the audit and of the worker pool are interpretations of \<open>fifo_system\<close>, so
    that nothing accepted is lost, repeated or reordered; both always can end. The in-memory store and
    the data of the runner are interpretations of \<open>live_object\<close>: their operations, interleaved statement by statement,
    give the answers and the state of whole operations in the order in which they released the lock,
    and each can always return. That is why all other theories take such an operation as one step.
  \<^item> Composition: a batch the agent sends through every layer arrives in the store, a complete run of
    the agent leaves exactly its reports there with the right number of polls, and a regular restart keeps them.
    When requests and answers are lost a batch is handled at least once if success is reported and at most four
    times; agents never deadlock each other in the database.
  \<^item> Stopping: every accepted request is answered and in the last snapshot when nothing times out, in every
    interleaving, and the server can always stop.
  \<^item> Tools: the generator writes what it must and nothing else, its methods reset every field that is not
    an array of arrays, the analyzer finds exactly the calls it names.
  \<^item> Where the code falls short the theorem says so: polls counted twice after a partial report, counters
    counted twice after a lost reply, a gauge that is not finite stops persistence, seconds that wrap,
    batches of other clients that deadlock in the database, a server that cannot listen and ends with status 0,
    loggers that keep the attributes of all requests, and synchronous saves of concurrent requests that overtake each other.
\<close>

section \<open>Parameters, bounds and fuel\<close>

text \<open>
  Parameters, with their documented laws as hypotheses where a property needs them: the formatting and
  parsing of floats, gzip, HMAC, RSA and AES-GCM, the text of IPv6 addresses, the matching of paths by chi, the
  environment package, what the runtime and gopsutil report, the outcomes of system calls and of
  the network, the wire format of gRPC, \<open>go/parser\<close> and \<open>gofmt\<close>, and the choices of \<open>sync.Pool\<close>.

  The JSON parser takes fuel, twice the length of the text and one; \<open>parse_value_fuel\<close> shows that more
  changes nothing. Nesting is bounded as in the library, by 10000. Retrying makes at most four
  attempts, because there are three delays. The shutdown of the agent is bounded by \<open>stop_rank\<close>, the closing of
  the audit by \<open>worker_work\<close>; every other recursion is structural or has its measure.
\<close>

section \<open>Not modelled\<close>

text \<open>
  The text of log records; the timeouts of \<open>http.Server\<close> on single connections (those of stopping are steps of
  \<open>Server_Shutdown\<close>); what a migration does to the database beyond its outcome; isolation levels other than
  the default of the database; the descriptors for reflection in the generated protobuf code; the analyzers of
  other packages; directories on the disk of a snapshot, as no code creates one; time, but for the
  order of the ticks. The statements of an operation of one lock are interleaved in full; elsewhere a step is
  one critical section, one effect on the disk, one statement of SQL or one operation of a channel.
\<close>

end
